(* ===== verification/Prelude.thy ===== *)
theory Prelude
  imports Main "HOL-Library.Word"
begin

text \<open>
  What every theory of the development shares: the machine integer types, the
  error values that stand for a failed \<open>assert\<close>, a thrown exception or a call
  of \<open>exit\<close>, the sequencing of operations that can fail, and the algorithms of
  the C++ standard library the sources use on iterator ranges.  A range is a
  list and an iterator into it is its distance from the begin iterator, so
  that \<open>end()\<close> is the length of the list.
\<close>

unbundle bit_operations_syntax

named_theorems errs \<open>rules that take the error monad apart\<close>

section \<open>Machine integers and errors\<close>

type_synonym u8 = "8 word"
type_synonym u32 = "32 word"
type_synonym u64 = "64 word"

text \<open>
  \<open>AssertFailed\<close> is a violated \<open>assert\<close>, \<open>Undefined\<close> a call whose precondition
  does not hold (such as \<open>front()\<close> of an empty container), \<open>DeadlockThrown\<close> the exception
  \<open>champsim::deadlock\<close> with the number of the core, and \<open>EndOfTrace\<close> the call
  of \<open>exit(1)\<close> at the end of a trace file.
\<close>

datatype champ_error =
    AssertFailed string
  | Undefined string
  | DeadlockThrown u32
  | EndOfTrace

type_synonym 'a result = "champ_error + 'a"

definition bindE :: "'e + 'a \<Rightarrow> ('a \<Rightarrow> 'e + 'b) \<Rightarrow> 'e + 'b" where
  "bindE m f = (case m of Inl e \<Rightarrow> Inl e | Inr x \<Rightarrow> f x)"

definition assertE :: "string \<Rightarrow> bool \<Rightarrow> unit result" where
  "assertE msg b = (if b then Inr () else Inl (AssertFailed msg))"

text \<open>A loop over a range whose body can fail.\<close>

primrec foldE :: "('a \<Rightarrow> 's \<Rightarrow> 'e + 's) \<Rightarrow> 'a list \<Rightarrow> 's \<Rightarrow> 'e + 's" where
  "foldE f [] s = Inr s"
| "foldE f (x # xs) s = bindE (f x s) (foldE f xs)"

definition the_ok :: "'e + 'a \<Rightarrow> 'a" where
  "the_ok m = (case m of Inr x \<Rightarrow> x | Inl _ \<Rightarrow> undefined)"

section \<open>Standard algorithms on ranges\<close>

fun find_if :: "('a \<Rightarrow> bool) \<Rightarrow> 'a list \<Rightarrow> nat" where
  "find_if P [] = 0"
| "find_if P (x # xs) = (if P x then 0 else Suc (find_if P xs))"

definition find_if_not :: "('a \<Rightarrow> bool) \<Rightarrow> 'a list \<Rightarrow> nat" where
  "find_if_not P xs = find_if (\<lambda>x. \<not> P x) xs"

definition count_if :: "('a \<Rightarrow> bool) \<Rightarrow> 'a list \<Rightarrow> nat" where
  "count_if P xs = length (filter P xs)"

text \<open>
  \<open>std::max_element\<close> keeps the best iterator so far and moves it when the
  comparison says that the best element is less than the current one;
  \<open>std::min_element\<close> asks the comparison with its arguments exchanged.
\<close>

fun max_scan :: "('a \<Rightarrow> 'a \<Rightarrow> bool) \<Rightarrow> 'a \<Rightarrow> nat \<Rightarrow> nat \<Rightarrow> 'a list \<Rightarrow> nat" where
  "max_scan lt best b i [] = b"
| "max_scan lt best b i (x # xs) =
     (if lt best x then max_scan lt x i (Suc i) xs else max_scan lt best b (Suc i) xs)"

definition max_element :: "('a \<Rightarrow> 'a \<Rightarrow> bool) \<Rightarrow> 'a list \<Rightarrow> nat" where
  "max_element lt xs = (case xs of [] \<Rightarrow> 0 | x # r \<Rightarrow> max_scan lt x 0 1 r)"

definition min_element :: "('a \<Rightarrow> 'a \<Rightarrow> bool) \<Rightarrow> 'a list \<Rightarrow> nat" where
  "min_element lt xs = max_element (\<lambda>a b. lt b a) xs"

text \<open>
  \<open>std::inplace_merge\<close> of two adjacent ranges is stable: an element of the
  second range goes first only when it is less.  \<open>std::list::sort\<close> is a
  stable sort.
\<close>

fun merge_by :: "('a \<Rightarrow> 'a \<Rightarrow> bool) \<Rightarrow> 'a list \<Rightarrow> 'a list \<Rightarrow> 'a list" where
  "merge_by lt [] ys = ys"
| "merge_by lt xs [] = xs"
| "merge_by lt (x # xs) (y # ys) =
     (if lt y x then y # merge_by lt (x # xs) ys else x # merge_by lt xs (y # ys))"

fun insert_by :: "('a \<Rightarrow> 'a \<Rightarrow> bool) \<Rightarrow> 'a \<Rightarrow> 'a list \<Rightarrow> 'a list" where
  "insert_by lt x [] = [x]"
| "insert_by lt x (y # ys) = (if lt y x then y # insert_by lt x ys else x # y # ys)"

fun sort_by :: "('a \<Rightarrow> 'a \<Rightarrow> bool) \<Rightarrow> 'a list \<Rightarrow> 'a list" where
  "sort_by lt [] = []"
| "sort_by lt (x # xs) = insert_by lt x (sort_by lt xs)"

text \<open>
  \<open>std::partition_point\<close> is a bisection over a random access range: it halves
  the length and asks the predicate in the middle.
\<close>

function bisect_point :: "(nat \<Rightarrow> bool) \<Rightarrow> nat \<Rightarrow> nat \<Rightarrow> nat" where
  "bisect_point P first len =
     (if len = 0 then first
      else let half = len div 2 in
        if P (first + half) then bisect_point P (first + half + 1) (len - half - 1)
        else bisect_point P first half)"
  by pat_completeness auto
termination
  by (relation "measure (\<lambda>(P, first, len). len)") auto

definition partition_point :: "('a \<Rightarrow> bool) \<Rightarrow> 'a list \<Rightarrow> nat" where
  "partition_point P xs = bisect_point (\<lambda>i. P (xs ! i)) 0 (length xs)"

text \<open>The \<open>n\<close> elements of an array from index \<open>b\<close> on, as the range of a set.\<close>

definition slice :: "nat \<Rightarrow> nat \<Rightarrow> 'a list \<Rightarrow> 'a list" where
  "slice b n xs = take n (drop b xs)"

text \<open>Applying a function to every element of such a range, in place.\<close>

definition map_slice :: "nat \<Rightarrow> nat \<Rightarrow> ('a \<Rightarrow> 'a) \<Rightarrow> 'a list \<Rightarrow> 'a list" where
  "map_slice b n f xs = take b xs @ map f (slice b n xs) @ drop (b + n) xs"

section \<open>Lemmas on the error monad\<close>

lemma bindE_simps [simp]:
  "bindE (Inr x) f = f x"
  "bindE (Inl e) f = Inl e"
  by (simp_all add: bindE_def)

lemma bindE_Inr_iff [errs]:
  "bindE m f = Inr y \<longleftrightarrow> (\<exists>x. m = Inr x \<and> f x = Inr y)"
  by (cases m) simp_all

lemma bindE_assoc: "bindE (bindE m f) g = bindE m (\<lambda>x. bindE (f x) g)"
  by (cases m) simp_all

lemma bindE_Inl_iff:
  "bindE m f = Inl e \<longleftrightarrow> m = Inl e \<or> (\<exists>x. m = Inr x \<and> f x = Inl e)"
  by (cases m) simp_all

lemma assertE_simps [simp]:
  "assertE msg True = Inr ()"
  "assertE msg False = Inl (AssertFailed msg)"
  by (simp_all add: assertE_def)

lemma assertE_Inr_iff [errs]: "assertE msg b = Inr u \<longleftrightarrow> b"
  by (simp add: assertE_def)

lemma the_ok_Inr [simp]: "the_ok (Inr x) = x"
  by (simp add: the_ok_def)

lemma foldE_append: "foldE f (xs @ ys) s = bindE (foldE f xs s) (foldE f ys)"
  by (induction xs arbitrary: s) (auto simp: bindE_def split: sum.splits)

text \<open>A loop that keeps an invariant and never fails.\<close>

lemma foldE_invar:
  assumes "\<And>x s. x \<in> set xs \<Longrightarrow> I s \<Longrightarrow> \<exists>t. f x s = Inr t \<and> I t" "I s"
  shows "\<exists>t. foldE f xs s = Inr t \<and> I t"
  using assms
proof (induction xs arbitrary: s)
  case (Cons x xs)
  from Cons.prems obtain t where "f x s = Inr t" "I t" by (meson list.set_intros(1))
  with Cons.IH [of t] Cons.prems(1) show ?case by auto
qed simp

section \<open>Lemmas on words\<close>

lemma unat_of_nat_less: "n < 2 ^ LENGTH('a) \<Longrightarrow> unat (of_nat n :: 'a::len word) = n"
  by (simp add: unat_of_nat)

lemma word_parts_eqI:
  "drop_bit n x = drop_bit n y \<Longrightarrow> take_bit n x = take_bit n y \<Longrightarrow> x = (y :: 'a::len word)"
  by (metis bits_ident)

lemma unat_drop_bit: "unat (drop_bit n x) = unat x div 2 ^ n"
  by (simp only: unat_drop_bit_eq drop_bit_nat_def)

lemma unat_take_bit: "unat (take_bit n x) = unat x mod 2 ^ n"
proof -
  have "unat (take_bit n x) = take_bit n (unat x)" by (rule unsigned_take_bit_eq)
  then show ?thesis by (simp only: take_bit_nat_def)
qed

section \<open>Lemmas on searches\<close>

lemma find_if_le: "find_if P xs \<le> length xs"
  by (induction xs) auto

lemma find_if_less_iff: "find_if P xs < length xs \<longleftrightarrow> (\<exists>x \<in> set xs. P x)"
  by (induction xs) auto

lemma find_if_eq_length_iff: "find_if P xs = length xs \<longleftrightarrow> (\<forall>x \<in> set xs. \<not> P x)"
  by (induction xs) auto

lemma find_if_ne_iff: "find_if P xs \<noteq> length xs \<longleftrightarrow> find_if P xs < length xs"
  using find_if_le [of P xs] by auto

lemma find_if_nth: "find_if P xs < length xs \<Longrightarrow> P (xs ! find_if P xs)"
  by (induction xs) auto

lemma find_if_before: "i < find_if P xs \<Longrightarrow> \<not> P (xs ! i)"
proof (induction xs arbitrary: i)
  case Nil
  then show ?case by simp
next
  case (Cons x xs)
  then show ?case by (cases i) (auto split: if_splits)
qed

lemma find_if_unique:
  assumes "i < length xs" "P (xs ! i)" "\<And>j. j < i \<Longrightarrow> \<not> P (xs ! j)"
  shows "find_if P xs = i"
proof (rule antisym)
  show "find_if P xs \<le> i"
    using assms(2) find_if_before [of i P xs] by (meson not_le)
  have "find_if P xs < length xs"
    using assms(1,2) by (auto simp: find_if_less_iff)
  then show "i \<le> find_if P xs"
    using assms(3) find_if_nth by (meson not_le)
qed

lemma find_if_append:
  "find_if P (xs @ ys) =
     (if find_if P xs < length xs then find_if P xs else length xs + find_if P ys)"
  by (induction xs) auto

lemma find_if_map: "find_if P (map f xs) = find_if (P \<circ> f) xs"
  by (induction xs) auto

lemma find_if_cong:
  "(\<And>x. x \<in> set xs \<Longrightarrow> P x \<longleftrightarrow> Q x) \<Longrightarrow> find_if P xs = find_if Q xs"
  by (induction xs) auto

lemma find_if_not_le: "find_if_not P xs \<le> length xs"
  by (simp add: find_if_not_def find_if_le)

lemma find_if_not_ne_iff: "find_if_not P xs \<noteq> length xs \<longleftrightarrow> find_if_not P xs < length xs"
  by (simp add: find_if_not_def find_if_ne_iff)

lemma find_if_not_less_iff: "find_if_not P xs < length xs \<longleftrightarrow> (\<exists>x \<in> set xs. \<not> P x)"
  by (simp add: find_if_not_def find_if_less_iff)

lemma find_if_not_nth: "find_if_not P xs < length xs \<Longrightarrow> \<not> P (xs ! find_if_not P xs)"
  unfolding find_if_not_def by (rule find_if_nth)

lemma count_if_le: "count_if P xs \<le> length xs"
  by (simp add: count_if_def)

lemma count_if_eq_length_iff: "count_if P xs = length xs \<longleftrightarrow> (\<forall>x \<in> set xs. P x)"
proof
  assume "count_if P xs = length xs"
  then show "\<forall>x \<in> set xs. P x"
    using length_filter_less [of _ xs P] by (fastforce simp: count_if_def)
qed (simp add: count_if_def)

section \<open>Lemmas on extremal elements\<close>

lemma max_scan_range:
  "b < i \<Longrightarrow> max_scan lt best b i xs < i + length xs"
  by (induction lt best b i xs rule: max_scan.induct) fastforce+

lemma max_element_less: "xs \<noteq> [] \<Longrightarrow> max_element lt xs < length xs"
  using max_scan_range [of 0 1 lt "hd xs" "tl xs"]
  by (cases xs) (auto simp: max_element_def)

lemma min_element_less: "xs \<noteq> [] \<Longrightarrow> min_element lt xs < length xs"
  by (simp add: min_element_def max_element_less)

text \<open>
  Under a comparison of keys, the scan returns the first index that carries
  the greatest key.
\<close>

lemma max_scan_key:
  fixes key :: "'a \<Rightarrow> 'k::linorder"
  assumes "\<And>x y. x \<in> set (best # xs) \<Longrightarrow> y \<in> set (best # xs) \<Longrightarrow> lt x y \<longleftrightarrow> key x < key y"
  shows "(max_scan lt best b i xs = b \<and> (\<forall>x \<in> set xs. key x \<le> key best)) \<or>
     (\<exists>k < length xs. max_scan lt best b i xs = i + k \<and> key best < key (xs ! k) \<and>
        (\<forall>x \<in> set xs. key x \<le> key (xs ! k)) \<and> (\<forall>j < k. key (xs ! j) < key (xs ! k)))"
  using assms
proof (induction xs arbitrary: best b i)
  case Nil
  then show ?case by simp
next
  case (Cons x xs)
  have lt_x: "lt best x \<longleftrightarrow> key best < key x"
    using Cons.prems by simp
  show ?case
  proof (cases "key best < key x")
    case True
    have IH: "(max_scan lt x i (Suc i) xs = i \<and> (\<forall>y \<in> set xs. key y \<le> key x)) \<or>
     (\<exists>k < length xs. max_scan lt x i (Suc i) xs = Suc i + k \<and> key x < key (xs ! k) \<and>
        (\<forall>y \<in> set xs. key y \<le> key (xs ! k)) \<and> (\<forall>j < k. key (xs ! j) < key (xs ! k)))"
      using Cons.prems by (intro Cons.IH) auto
    then show ?thesis
    proof (elim disjE exE conjE)
      assume "max_scan lt x i (Suc i) xs = i" "\<forall>y \<in> set xs. key y \<le> key x"
      then show ?thesis using True lt_x by (intro disjI2 exI [of _ 0]) auto
    next
      fix k
      assume "k < length xs" "max_scan lt x i (Suc i) xs = Suc i + k" "key x < key (xs ! k)"
        "\<forall>y \<in> set xs. key y \<le> key (xs ! k)" "\<forall>j < k. key (xs ! j) < key (xs ! k)"
      then show ?thesis using True lt_x
        by (intro disjI2 exI [of _ "Suc k"]) (auto simp: less_Suc_eq_0_disj)
    qed
  next
    case False
    have IH: "(max_scan lt best b (Suc i) xs = b \<and> (\<forall>y \<in> set xs. key y \<le> key best)) \<or>
     (\<exists>k < length xs. max_scan lt best b (Suc i) xs = Suc i + k \<and> key best < key (xs ! k) \<and>
        (\<forall>y \<in> set xs. key y \<le> key (xs ! k)) \<and> (\<forall>j < k. key (xs ! j) < key (xs ! k)))"
      using Cons.prems by (intro Cons.IH) auto
    then show ?thesis
    proof (elim disjE exE conjE)
      assume "max_scan lt best b (Suc i) xs = b" "\<forall>y \<in> set xs. key y \<le> key best"
      then show ?thesis using False lt_x by auto
    next
      fix k
      assume "k < length xs" "max_scan lt best b (Suc i) xs = Suc i + k" "key best < key (xs ! k)"
        "\<forall>y \<in> set xs. key y \<le> key (xs ! k)" "\<forall>j < k. key (xs ! j) < key (xs ! k)"
      then show ?thesis using False lt_x
        by (intro disjI2 exI [of _ "Suc k"]) (auto simp: less_Suc_eq_0_disj)
    qed
  qed
qed

lemma max_element_key:
  fixes key :: "'a \<Rightarrow> 'k::linorder"
  assumes "xs \<noteq> []"
    and "\<And>x y. x \<in> set xs \<Longrightarrow> y \<in> set xs \<Longrightarrow> lt x y \<longleftrightarrow> key x < key y"
  shows "\<forall>x \<in> set xs. key x \<le> key (xs ! max_element lt xs)"
    and "\<forall>j < max_element lt xs. key (xs ! j) < key (xs ! max_element lt xs)"
proof -
  obtain x r where xs: "xs = x # r" using assms(1) by (cases xs) auto
  have "(max_element lt xs = 0 \<and> (\<forall>y \<in> set r. key y \<le> key x)) \<or>
     (\<exists>k < length r. max_element lt xs = Suc k \<and> key x < key (r ! k) \<and>
        (\<forall>y \<in> set r. key y \<le> key (r ! k)) \<and> (\<forall>j < k. key (r ! j) < key (r ! k)))"
    using max_scan_key [of x r lt key 0 1] assms(2)
    by (simp add: xs max_element_def)
  then show "\<forall>x \<in> set xs. key x \<le> key (xs ! max_element lt xs)"
    and "\<forall>j < max_element lt xs. key (xs ! j) < key (xs ! max_element lt xs)"
    by (auto simp: xs less_Suc_eq_0_disj)
qed

lemma min_element_key:
  fixes key :: "'a \<Rightarrow> 'k::linorder"
  assumes "xs \<noteq> []"
    and "\<And>x y. x \<in> set xs \<Longrightarrow> y \<in> set xs \<Longrightarrow> lt x y \<longleftrightarrow> key x < key y"
  shows "\<forall>x \<in> set xs. key (xs ! min_element lt xs) \<le> key x"
proof -
  obtain x r where xs: "xs = x # r" using assms(1) by (cases xs) auto
  have gen: "(max_scan (\<lambda>a b. lt b a) best b i ys = b \<and> (\<forall>y \<in> set ys. key best \<le> key y)) \<or>
     (\<exists>k < length ys. max_scan (\<lambda>a b. lt b a) best b i ys = i + k \<and> key (ys ! k) < key best \<and>
        (\<forall>y \<in> set ys. key (ys ! k) \<le> key y))"
    if "\<And>x y. x \<in> set (best # ys) \<Longrightarrow> y \<in> set (best # ys) \<Longrightarrow> lt x y \<longleftrightarrow> key x < key y"
    for best b i ys
    using that
  proof (induction ys arbitrary: best b i)
    case (Cons y ys)
    have lt_y: "lt y best \<longleftrightarrow> key y < key best"
      using Cons.prems by simp
    show ?case
    proof (cases "key y < key best")
      case True
      have "(max_scan (\<lambda>a b. lt b a) y i (Suc i) ys = i \<and> (\<forall>z \<in> set ys. key y \<le> key z)) \<or>
          (\<exists>k < length ys. max_scan (\<lambda>a b. lt b a) y i (Suc i) ys = Suc i + k \<and>
             key (ys ! k) < key y \<and> (\<forall>z \<in> set ys. key (ys ! k) \<le> key z))"
        using Cons.prems by (intro Cons.IH) auto
      then show ?thesis
      proof (elim disjE exE conjE)
        assume "max_scan (\<lambda>a b. lt b a) y i (Suc i) ys = i" "\<forall>z \<in> set ys. key y \<le> key z"
        then show ?thesis using True lt_y by (intro disjI2 exI [of _ 0]) auto
      next
        fix k
        assume "k < length ys" "max_scan (\<lambda>a b. lt b a) y i (Suc i) ys = Suc i + k"
          "key (ys ! k) < key y" "\<forall>z \<in> set ys. key (ys ! k) \<le> key z"
        then show ?thesis
          using True lt_y by (intro disjI2 exI [of _ "Suc k"]) auto
      qed
    next
      case False
      have "(max_scan (\<lambda>a b. lt b a) best b (Suc i) ys = b \<and> (\<forall>z \<in> set ys. key best \<le> key z)) \<or>
          (\<exists>k < length ys. max_scan (\<lambda>a b. lt b a) best b (Suc i) ys = Suc i + k \<and>
             key (ys ! k) < key best \<and> (\<forall>z \<in> set ys. key (ys ! k) \<le> key z))"
        using Cons.prems by (intro Cons.IH) auto
      then show ?thesis
      proof (elim disjE exE conjE)
        assume "max_scan (\<lambda>a b. lt b a) best b (Suc i) ys = b" "\<forall>z \<in> set ys. key best \<le> key z"
        then show ?thesis using False lt_y by auto
      next
        fix k
        assume "k < length ys" "max_scan (\<lambda>a b. lt b a) best b (Suc i) ys = Suc i + k"
          "key (ys ! k) < key best" "\<forall>z \<in> set ys. key (ys ! k) \<le> key z"
        then show ?thesis
          using False lt_y by (intro disjI2 exI [of _ "Suc k"]) auto
      qed
    qed
  qed simp
  show ?thesis
    using gen [of x r 0 1] assms(2) by (auto simp: xs min_element_def max_element_def)
qed

section \<open>Lemmas on merging, sorting and partitioning\<close>

lemma set_merge_by [simp]: "set (merge_by lt xs ys) = set xs \<union> set ys"
  by (induction lt xs ys rule: merge_by.induct) auto

lemma length_merge_by: "length (merge_by lt xs ys) = length xs + length ys"
  by (induction lt xs ys rule: merge_by.induct) auto

lemma sorted_merge_by:
  fixes xs ys :: "'a::linorder list"
  shows "sorted xs \<Longrightarrow> sorted ys \<Longrightarrow> sorted (merge_by (<) xs ys)"
  by (induction "(<) :: 'a \<Rightarrow> 'a \<Rightarrow> bool" xs ys rule: merge_by.induct)
    (auto simp: not_less intro: order.strict_implies_order order_trans less_le_trans)

lemma set_insert_by [simp]: "set (insert_by lt x xs) = insert x (set xs)"
  by (induction xs) auto

lemma set_sort_by [simp]: "set (sort_by lt xs) = set xs"
  by (induction xs) auto

lemma length_insert_by [simp]: "length (insert_by lt x xs) = Suc (length xs)"
  by (induction xs) auto

lemma length_sort_by [simp]: "length (sort_by lt xs) = length xs"
  by (induction xs) auto

lemma sorted_insert_by:
  fixes key :: "'a \<Rightarrow> 'k::linorder"
  assumes "\<And>y. y \<in> set xs \<Longrightarrow> lt y x \<longleftrightarrow> key y < key x"
  shows "sorted (map key xs) \<Longrightarrow> sorted (map key (insert_by lt x xs))"
  using assms by (induction xs) (auto simp: not_less intro: less_imp_le order_trans)

lemma sorted_sort_by:
  fixes key :: "'a \<Rightarrow> 'k::linorder"
  assumes "\<And>x y. x \<in> set xs \<Longrightarrow> y \<in> set xs \<Longrightarrow> lt x y \<longleftrightarrow> key x < key y"
  shows "sorted (map key (sort_by lt xs))"
  using assms by (induction xs) (auto intro!: sorted_insert_by)

declare bisect_point.simps [simp del]

lemma bisect_point_correct:
  assumes "k \<le> len" "\<And>i. i < k \<Longrightarrow> P (first + i)" "\<And>i. k \<le> i \<Longrightarrow> i < len \<Longrightarrow> \<not> P (first + i)"
  shows "bisect_point P first len = first + k"
  using assms
proof (induction P first len arbitrary: k rule: bisect_point.induct)
  case (1 P first len)
  show ?case
  proof (cases "len = 0")
    case True
    with "1.prems" show ?thesis by (simp add: bisect_point.simps)
  next
    case len: False
    show ?thesis
    proof (cases "P (first + len div 2)")
      case True
      then have half: "len div 2 < k"
        using "1.prems"(3) [of "len div 2"] len by (meson div_less_dividend not_le one_less_numeral_iff
            semiring_norm(76) zero_less_iff_neq_zero)
      have "bisect_point P (first + len div 2 + 1) (len - len div 2 - 1) =
          first + len div 2 + 1 + (k - (len div 2 + 1))"
      proof (rule "1.IH"(1) [OF len refl True])
        show "k - (len div 2 + 1) \<le> len - len div 2 - 1"
          using "1.prems"(1) by simp
        show "P (first + len div 2 + 1 + i)" if "i < k - (len div 2 + 1)" for i
          using that "1.prems"(2) [of "len div 2 + 1 + i"] by (simp add: add.assoc)
        show "\<not> P (first + len div 2 + 1 + i)"
          if "k - (len div 2 + 1) \<le> i" "i < len - len div 2 - 1" for i
          using that "1.prems"(3) [of "len div 2 + 1 + i"] by (simp add: add.assoc)
      qed
      with half len True show ?thesis
        by (simp add: bisect_point.simps [of P first len] Let_def)
    next
      case False
      then have "k \<le> len div 2"
        using "1.prems"(2) [of "len div 2"] by (meson not_le)
      then have "bisect_point P first (len div 2) = first + k"
        using "1.IH"(2) [OF len refl False, of k] "1.prems" by simp
      with len False show ?thesis
        by (simp add: bisect_point.simps [of P first len] Let_def)
    qed
  qed
qed

lemma bisect_point_le: "bisect_point P first len \<le> first + len"
proof (induction P first len rule: bisect_point.induct)
  case (1 P first len)
  show ?case
  proof (cases "len = 0")
    case True
    then show ?thesis by (simp add: bisect_point.simps)
  next
    case False
    with "1.IH" show ?thesis
      by (cases "P (first + len div 2)") (auto simp: bisect_point.simps [of P first len] Let_def)
  qed
qed

lemma partition_point_le: "partition_point P xs \<le> length xs"
  using bisect_point_le [of "\<lambda>i. P (xs ! i)" 0 "length xs"] by (simp add: partition_point_def)

lemma partition_point_correct:
  assumes "k \<le> length xs" "\<forall>x \<in> set (take k xs). P x" "\<forall>x \<in> set (drop k xs). \<not> P x"
  shows "partition_point P xs = k"
proof -
  have "bisect_point (\<lambda>i. P (xs ! i)) 0 (length xs) = 0 + k"
  proof (rule bisect_point_correct)
    show "k \<le> length xs" by fact
    show "P (xs ! (0 + i))" if "i < k" for i
      using that assms(1,2) by (force simp: in_set_conv_nth)
    show "\<not> P (xs ! (0 + i))" if "k \<le> i" "i < length xs" for i
    proof -
      have "xs ! i = drop k xs ! (i - k)" using that by simp
      moreover have "drop k xs ! (i - k) \<in> set (drop k xs)"
        using that by (intro nth_mem) simp
      ultimately show ?thesis using assms(3) by simp
    qed
  qed
  then show ?thesis by (simp add: partition_point_def)
qed

lemma dropWhile_not:
  assumes "sorted_wrt (\<lambda>x y. P y \<longrightarrow> P x) xs" "x \<in> set (dropWhile P xs)"
  shows "\<not> P x"
  using assms by (induction xs) (auto split: if_splits)

lemma partition_point_takeWhile:
  assumes "sorted_wrt (\<lambda>x y. P y \<longrightarrow> P x) xs"
  shows "partition_point P xs = length (takeWhile P xs)"
proof (rule partition_point_correct)
  show "\<forall>x \<in> set (take (length (takeWhile P xs)) xs). P x"
    by (auto simp: takeWhile_eq_take [symmetric] dest: set_takeWhileD)
  show "\<forall>x \<in> set (drop (length (takeWhile P xs)) xs). \<not> P x"
    unfolding dropWhile_eq_drop [symmetric] by (intro ballI dropWhile_not [OF assms])
qed (rule length_takeWhile_le)

section \<open>Lemmas on slices of arrays\<close>

lemma length_slice: "b + n \<le> length xs \<Longrightarrow> length (slice b n xs) = n"
  by (simp add: slice_def)

lemma nth_slice: "b + n \<le> length xs \<Longrightarrow> i < n \<Longrightarrow> slice b n xs ! i = xs ! (b + i)"
  by (simp add: slice_def)

lemma set_slice_subset: "set (slice b n xs) \<subseteq> set xs"
  by (auto simp: slice_def dest: in_set_takeD in_set_dropD)

lemma slice_update:
  "slice b n (xs[b + i := x]) = (if i < n then (slice b n xs)[i := x] else slice b n xs)"
  by (auto simp: slice_def drop_update_swap take_update_swap take_update_cancel list_update_beyond)

lemma slice_update_other:
  "i < b \<or> b + n \<le> i \<Longrightarrow> slice b n (xs[i := x]) = slice b n xs"
  by (auto simp: slice_def drop_update_swap drop_update_cancel take_update_cancel)

lemma length_map_slice [simp]: "b + n \<le> length xs \<Longrightarrow> length (map_slice b n f xs) = length xs"
  by (simp add: map_slice_def length_slice)

lemma slice_map_slice: "b + n \<le> length xs \<Longrightarrow> slice b n (map_slice b n f xs) = map f (slice b n xs)"
  by (simp add: map_slice_def slice_def)

lemma nth_map_slice:
  assumes "b + n \<le> length xs" "i < length xs"
  shows "map_slice b n f xs ! i = (if b \<le> i \<and> i < b + n then f (xs ! i) else xs ! i)"
  using assms by (auto simp: map_slice_def slice_def nth_append min_def)

lemma set_index_bound:
  fixes s :: nat
  assumes "s < sets"
  shows "s * ways + ways \<le> sets * ways"
proof -
  have "Suc s * ways \<le> sets * ways" using assms by (intro mult_le_mono1) simp
  then show ?thesis by simp
qed

lemma slice_disjoint:
  fixes s t :: nat
  assumes "s \<noteq> t" "i < ways"
  shows "t * ways + i < s * ways \<or> s * ways + ways \<le> t * ways + i"
proof (cases "t < s")
  case True
  then have "Suc t * ways \<le> s * ways" by (intro mult_le_mono1) simp
  with assms(2) show ?thesis by simp
next
  case False
  with assms(1) have "Suc s * ways \<le> t * ways" by (intro mult_le_mono1) simp
  then show ?thesis by simp
qed

lemma slice_other_set:
  fixes s t :: nat
  assumes "s \<noteq> t" "w < n"
  shows "slice (t * n) n (xs[s * n + w := x]) = slice (t * n) n xs"
  using slice_disjoint [of t s w n] assms by (intro slice_update_other) auto

lemma slice_map_slice_other:
  fixes s t :: nat
  assumes "s \<noteq> t" "s * n + n \<le> length xs" "t * n + n \<le> length xs"
  shows "slice (t * n) n (map_slice (s * n) n f xs) = slice (t * n) n xs"
proof (rule nth_equalityI)
  show "length (slice (t * n) n (map_slice (s * n) n f xs)) = length (slice (t * n) n xs)"
    using assms by (simp add: length_slice)
  fix j assume "j < length (slice (t * n) n (map_slice (s * n) n f xs))"
  then have j: "j < n" using assms by (simp add: length_slice)
  have "t * n + j < length xs" using j assms(3) by linarith
  moreover have "\<not> (s * n \<le> t * n + j \<and> t * n + j < s * n + n)"
    using slice_disjoint [of s t j n] assms(1) j by linarith
  ultimately show "slice (t * n) n (map_slice (s * n) n f xs) ! j = slice (t * n) n xs ! j"
    using j assms by (simp only: nth_slice length_map_slice nth_map_slice if_False)
qed

end
