(* ===== verification/Operable.thy ===== *)
theory Operable
  imports Complex_Main Prelude
begin

text \<open>
  The clocking of components, \<open>inc/operable.h\<close>.  A component runs at a clock
  \<open>scale\<close> times slower than the fastest one: \<open>_operate\<close> is called every cycle
  of the simulation and skips the call of \<open>operate()\<close> when the accumulated lag
  has reached one.  The \<open>double\<close> members are rational numbers here, so that
  the statements are about the arithmetic the code means, without rounding.
\<close>

record 's operable =
  CLOCK_SCALE :: rat
  leap_operation :: rat
  current_cycle :: u64
  op_state :: 's

definition operable_new :: "rat \<Rightarrow> 's \<Rightarrow> 's operable" where
  "operable_new scale s =
     \<lparr>CLOCK_SCALE = scale - 1, leap_operation = 0, current_cycle = 0, op_state = s\<rparr>"

definition operate_op :: "('s \<Rightarrow> 's result) \<Rightarrow> 's operable \<Rightarrow> 's operable result" where
  "operate_op operate c =
     (if 1 \<le> leap_operation c then Inr (c\<lparr>leap_operation := leap_operation c - 1\<rparr>)
      else bindE (operate (op_state c)) (\<lambda>s.
        Inr (c\<lparr>op_state := s, leap_operation := leap_operation c + CLOCK_SCALE c,
               current_cycle := current_cycle c + 1\<rparr>)))"

definition by_next_operate :: "'s operable \<Rightarrow> 's operable \<Rightarrow> bool" where
  "by_next_operate lhs rhs \<longleftrightarrow> leap_operation lhs < leap_operation rhs"

fun operate_n :: "('s \<Rightarrow> 's result) \<Rightarrow> nat \<Rightarrow> 's operable \<Rightarrow> 's operable result" where
  "operate_n f 0 c = Inr c"
| "operate_n f (Suc n) c = bindE (operate_n f n c) (operate_op f)"

text \<open>The work of \<open>k\<close> calls of \<open>operate()\<close>.\<close>

fun iterate_result :: "('s \<Rightarrow> 's result) \<Rightarrow> nat \<Rightarrow> 's \<Rightarrow> 's result" where
  "iterate_result f 0 s = Inr s"
| "iterate_result f (Suc k) s = bindE (iterate_result f k s) f"

text \<open>
  After \<open>n\<close> ticks a component has operated \<open>k\<close> times, and its lag is the time
  those operations took, less the time that has passed.
\<close>

definition on_schedule :: "('s \<Rightarrow> 's result) \<Rightarrow> rat \<Rightarrow> 's \<Rightarrow> nat \<Rightarrow> nat \<Rightarrow> 's operable \<Rightarrow> bool" where
  "on_schedule f scale s n k c \<longleftrightarrow> k \<le> n \<and> CLOCK_SCALE c = scale - 1
     \<and> leap_operation c = of_nat k * scale - of_nat n
     \<and> 0 \<le> leap_operation c \<and> leap_operation c < scale
     \<and> iterate_result f k s = Inr (op_state c) \<and> current_cycle c = of_nat k"

lemma on_schedule_tick:
  assumes "on_schedule f scale s n k c" "1 \<le> scale" "operate_op f c = Inr r"
  shows "\<exists>k'. on_schedule f scale s (Suc n) k' r"
proof (cases "1 \<le> leap_operation c")
  case True
  with assms have "k \<le> Suc n" "on_schedule f scale s (Suc n) k r"
    by (auto simp: on_schedule_def operate_op_def)
  then show ?thesis by blast
next
  case False
  with assms have "on_schedule f scale s (Suc n) (Suc k) r"
    by (auto simp: on_schedule_def operate_op_def errs algebra_simps)
  then show ?thesis by blast
qed

lemma operate_n_on_schedule:
  assumes "1 \<le> scale" "operate_n f n (operable_new scale s) = Inr c"
  shows "\<exists>k. on_schedule f scale s n k c"
  using assms(2)
proof (induction n arbitrary: c)
  case 0
  with assms(1) have "on_schedule f scale s 0 0 c"
    by (auto simp: on_schedule_def operable_new_def)
  then show ?case by blast
next
  case (Suc n)
  then obtain d where d: "operate_n f n (operable_new scale s) = Inr d" "operate_op f d = Inr c"
    by (auto simp: errs)
  from Suc.IH [OF d(1)] obtain k where "on_schedule f scale s n k d" ..
  from on_schedule_tick [OF this assms(1) d(2)] show ?case .
qed

lemma on_schedule_count:
  assumes "on_schedule f scale s n k c" "1 \<le> scale"
  shows "int k = \<lceil>of_nat n / scale\<rceil>"
proof -
  have "of_nat n \<le> of_nat k * scale" "of_nat k * scale < of_nat n + scale"
    using assms by (auto simp: on_schedule_def)
  with assms(2) have "of_nat n / scale \<le> of_nat k" "of_nat k < of_nat n / scale + 1"
    by (simp_all add: field_simps)
  then show ?thesis
    by (intro ceiling_unique [symmetric]) auto
qed

section \<open>Property\<close>

text \<open>
  C15: A component clocked \<open>scale\<close> times slower than the fastest one has, after
  \<open>n\<close> calls of \<open>_operate()\<close>, executed its \<open>operate()\<close> exactly
  \<open>n / scale\<close> times, rounded up, and \<open>current_cycle\<close> counts those executions.
\<close>

theorem operable_keeps_clock_ratio:
  assumes "1 \<le> scale" "operate_n f n (operable_new scale s) = Inr c"
  shows "iterate_result f (nat \<lceil>of_nat n / scale\<rceil>) s = Inr (op_state c)
    \<and> current_cycle c = of_nat (nat \<lceil>of_nat n / scale\<rceil>)"
proof -
  from operate_n_on_schedule [OF assms] obtain k where k: "on_schedule f scale s n k c" by blast
  with on_schedule_count [OF k assms(1)] have "k = nat \<lceil>of_nat n / scale\<rceil>" by simp
  with k show ?thesis by (simp add: on_schedule_def)
qed

theorem operable_keeps_clock_ratio_witness:
  "\<exists>c. operate_n (\<lambda>k. Inr (k + 1)) 5 (operable_new (3/2) (0::nat)) = Inr c
     \<and> iterate_result (\<lambda>k. Inr (k + 1)) (nat \<lceil>of_nat 5 / (3/2 :: rat)\<rceil>) (0::nat) = Inr (op_state c)"
proof -
  have "operate_n (\<lambda>k. Inr (k + 1)) 5 (operable_new (3/2) (0::nat))
      = Inr \<lparr>CLOCK_SCALE = 1/2, leap_operation = 1, current_cycle = 4, op_state = 4\<rparr>"
    by (simp add: eval_nat_numeral operable_new_def operate_op_def)
  with operable_keeps_clock_ratio [OF _ this] show ?thesis by simp
qed

end
