(* ===== verification/Util.thy ===== *)
theory Util
  imports Prelude
begin

text \<open>
  The helpers of \<open>inc/util.h\<close>: logarithms and masks over 64-bit words, the
  address comparison the queues and caches search with, the comparators that
  rank invalid entries last, and the functor that reorders a set after a hit.
  A template parameter that needs a member of its type (\<open>valid\<close>, \<open>address\<close>,
  \<open>lru\<close>, \<open>event_cycle\<close>) becomes an argument that reads that member.
\<close>

section \<open>Definitions\<close>

fun lg2 :: "nat \<Rightarrow> nat" where
  "lg2 n = (if n < 2 then 0 else 1 + lg2 (n div 2))"

text \<open>The shift in \<open>bitmask\<close> is defined in C++ for \<open>begin - end\<close> below 64.\<close>

definition bitmask :: "nat \<Rightarrow> nat \<Rightarrow> u64" where
  "bitmask begin_bit end_bit = push_bit end_bit (push_bit (begin_bit - end_bit) 1 - 1)"

definition splice_bits :: "u64 \<Rightarrow> u64 \<Rightarrow> nat \<Rightarrow> u64" where
  "splice_bits upper lower bits =
     (upper AND NOT (bitmask bits 0)) OR (lower AND bitmask bits 0)"

definition eq_addr :: "('a \<Rightarrow> bool) \<Rightarrow> ('a \<Rightarrow> u64) \<Rightarrow> u64 \<Rightarrow> nat \<Rightarrow> 'a \<Rightarrow> bool" where
  "eq_addr is_valid address val shamt test \<longleftrightarrow>
     is_valid test \<and> drop_bit shamt (address test) = drop_bit shamt val"

definition invalid_is_minimal ::
  "('a \<Rightarrow> bool) \<Rightarrow> ('b \<Rightarrow> bool) \<Rightarrow> ('a \<Rightarrow> 'b \<Rightarrow> bool) \<Rightarrow> 'a \<Rightarrow> 'b \<Rightarrow> bool" where
  "invalid_is_minimal un_t un_u cmp lhs rhs \<longleftrightarrow> \<not> un_t lhs \<or> (un_u rhs \<and> cmp lhs rhs)"

definition invalid_is_maximal ::
  "('a \<Rightarrow> bool) \<Rightarrow> ('b \<Rightarrow> bool) \<Rightarrow> ('a \<Rightarrow> 'b \<Rightarrow> bool) \<Rightarrow> 'a \<Rightarrow> 'b \<Rightarrow> bool" where
  "invalid_is_maximal un_t un_u cmp lhs rhs \<longleftrightarrow> \<not> un_u rhs \<or> (un_t lhs \<and> cmp lhs rhs)"

definition cmp_event_cycle :: "('a \<Rightarrow> u64) \<Rightarrow> 'a \<Rightarrow> 'a \<Rightarrow> bool" where
  "cmp_event_cycle event_cycle lhs rhs \<longleftrightarrow> event_cycle lhs < event_cycle rhs"

definition min_event_cycle :: "('a \<Rightarrow> bool) \<Rightarrow> ('a \<Rightarrow> u64) \<Rightarrow> 'a \<Rightarrow> 'a \<Rightarrow> bool" where
  "min_event_cycle is_valid event_cycle =
     invalid_is_maximal is_valid is_valid (cmp_event_cycle event_cycle)"

definition cmp_lru :: "('a \<Rightarrow> 'v::linorder) \<Rightarrow> 'a \<Rightarrow> 'a \<Rightarrow> bool" where
  "cmp_lru lru lhs rhs \<longleftrightarrow> lru lhs < lru rhs"

definition lru_comparator :: "('a \<Rightarrow> bool) \<Rightarrow> ('a \<Rightarrow> 'v::linorder) \<Rightarrow> 'a \<Rightarrow> 'a \<Rightarrow> bool" where
  "lru_comparator is_valid lru = invalid_is_maximal is_valid is_valid (cmp_lru lru)"

definition lru_updater ::
  "('a \<Rightarrow> 'n::len word) \<Rightarrow> ('n word \<Rightarrow> 'a \<Rightarrow> 'a) \<Rightarrow> 'n word \<Rightarrow> 'a \<Rightarrow> 'a" where
  "lru_updater lru set_lru val x = (if lru x = val then set_lru 0 x else set_lru (lru x + 1) x)"

definition ord_event_cycle :: "('a \<Rightarrow> bool) \<Rightarrow> ('a \<Rightarrow> u64) \<Rightarrow> 'a \<Rightarrow> 'a \<Rightarrow> bool" where
  "ord_event_cycle is_valid event_cycle lhs rhs \<longleftrightarrow>
     \<not> is_valid rhs \<or> (is_valid lhs \<and> event_cycle lhs < event_cycle rhs)"

section \<open>Logarithms\<close>

declare lg2.simps [simp del]

lemma lg2_less_2 [simp]: "n < 2 \<Longrightarrow> lg2 n = 0"
  by (simp add: lg2.simps)

lemma lg2_bounds: "0 < n \<Longrightarrow> 2 ^ lg2 n \<le> n \<and> n < 2 ^ (lg2 n + 1)"
proof (induction n rule: lg2.induct)
  case (1 n)
  show ?case
  proof (cases "n < 2")
    case True
    with "1.prems" show ?thesis by (simp add: lg2.simps)
  next
    case False
    with "1.IH" have "2 ^ lg2 (n div 2) \<le> n div 2 \<and> n div 2 < 2 ^ (lg2 (n div 2) + 1)"
      by simp
    with False show ?thesis
      by (auto simp: lg2.simps [of n])
  qed
qed

lemma lg2_unique: "2 ^ k \<le> n \<Longrightarrow> n < 2 ^ Suc k \<Longrightarrow> lg2 n = k"
proof (induction k arbitrary: n)
  case 0
  then show ?case by simp
next
  case (Suc k)
  then have "lg2 (n div 2) = k" by (intro Suc.IH) auto
  moreover have "\<not> n < 2"
    using Suc.prems(1) by (simp add: not_less) (metis One_nat_def le_trans mult_le_mono2
        mult.right_neutral one_le_numeral one_le_power)
  ultimately show ?case by (simp add: lg2.simps [of n])
qed

lemma lg2_pow2 [simp]: "lg2 (2 ^ k) = k"
  by (rule lg2_unique) auto

section \<open>Masks\<close>

lemma bitmask_mask: "bitmask n 0 = mask n"
  by (simp add: bitmask_def mask_eq_exp_minus_1 push_bit_eq_mult)

lemma bit_bitmask: "bit (bitmask n e) i \<longleftrightarrow> e \<le> i \<and> i - e < n - e \<and> i < 64"
proof -
  have "push_bit (n - e) 1 - 1 = (mask (n - e) :: u64)"
    by (simp add: mask_eq_exp_minus_1 push_bit_eq_mult)
  then show ?thesis
    by (auto simp: bitmask_def bit_simps)
qed

lemma and_bitmask_unat: "unat (x AND bitmask n 0) = unat x mod 2 ^ n"
proof -
  have "unat (take_bit n x) = take_bit n (unat x)"
    by (rule unsigned_take_bit_eq)
  then show ?thesis
    by (simp only: bitmask_mask take_bit_eq_mask [symmetric] take_bit_nat_def)
qed

lemma and_bitmask_less: "unat (x AND bitmask n 0) < 2 ^ n"
  by (simp add: and_bitmask_unat)

lemma bit_splice_bits: "i < 64 \<Longrightarrow> bit (splice_bits u l n) i \<longleftrightarrow> (if i < n then bit l i else bit u i)"
  by (auto simp: splice_bits_def bitmask_mask bit_simps)

lemma drop_bit_splice_bits [simp]: "drop_bit n (splice_bits u l n) = drop_bit n u"
  by (rule bit_word_eqI) (auto simp: bit_drop_bit_eq splice_bits_def bitmask_mask bit_simps
      dest: bit_imp_le_length)

lemma take_bit_splice_bits [simp]: "take_bit n (splice_bits u l n) = take_bit n l"
  by (rule bit_word_eqI) (auto simp: splice_bits_def bitmask_mask bit_simps)

lemma splice_bits_id: "splice_bits x x n = x"
  by (rule bit_word_eqI) (simp add: bit_splice_bits)

lemma splice_bits_splice: "splice_bits (splice_bits u l n) l' n = splice_bits u l' n"
  by (rule bit_word_eqI) (simp add: bit_splice_bits)

section \<open>Comparators\<close>

lemma lru_comparator_valid:
  "v a \<Longrightarrow> v b \<Longrightarrow> lru_comparator v lru a b \<longleftrightarrow> lru a < lru b"
  by (simp add: lru_comparator_def invalid_is_maximal_def cmp_lru_def)

lemma min_event_cycle_valid:
  "v a \<Longrightarrow> v b \<Longrightarrow> min_event_cycle v ec a b \<longleftrightarrow> ec a < ec b"
  by (simp add: min_event_cycle_def invalid_is_maximal_def cmp_event_cycle_def)

lemma ord_event_cycle_valid:
  "v a \<Longrightarrow> v b \<Longrightarrow> ord_event_cycle v ec a b \<longleftrightarrow> ec a < ec b"
  by (simp add: ord_event_cycle_def)

text \<open>
  Among valid entries, the element \<open>std::max_element\<close> finds with
  \<open>lru_comparator\<close> is the first one with the greatest rank.
\<close>

lemma max_element_lru:
  assumes "xs \<noteq> []" "\<forall>x \<in> set xs. v x"
  shows "\<forall>x \<in> set xs. lru x \<le> lru (xs ! max_element (lru_comparator v lru) xs)"
    and "\<forall>j < max_element (lru_comparator v lru) xs.
           lru (xs ! j) < lru (xs ! max_element (lru_comparator v lru) xs)"
  using assms
  by (intro max_element_key; simp add: lru_comparator_valid)+

end
