(* ===== verification/CircularBuffer.thy ===== *)
theory CircularBuffer
  imports Prelude
begin

text \<open>
  The fixed-capacity queue of \<open>inc/circular_buffer.hpp\<close>.  The record has the
  members of the class; an iterator is the position it holds, and every
  iterator operation takes the buffer the iterator points into.  The buffer has
  one spare cell, so that a full and an empty buffer differ.  The section on
  refinement relates the buffer to a plain list through \<open>cb_list\<close>, and the
  locale \<open>bounded_queue\<close> is the contract the clients of a buffer rely on.
\<close>

section \<open>State and operations\<close>

record 'a circular_buffer =
  cb_sz :: nat
  cb_entry :: "'a list"
  cb_head :: nat
  cb_tail :: nat

text \<open>\<open>entry_(N + 1)\<close> value-initialises its cells; \<open>d\<close> is that value.\<close>

definition cb_new :: "'a \<Rightarrow> nat \<Rightarrow> 'a circular_buffer" where
  "cb_new d N = \<lparr>cb_sz = N, cb_entry = replicate (N + 1) d, cb_head = 0, cb_tail = 0\<rparr>"

text \<open>
  The two adjusting loops of \<open>circ_inc\<close>.  They end whenever the buffer has a
  cell, which the constructor ensures; the guard on \<open>max_size\<close> makes the
  functions total.
\<close>

function adjust_up :: "int \<Rightarrow> int \<Rightarrow> int" where
  "adjust_up max_size b =
     (if b < 0 \<and> 0 < max_size then adjust_up max_size (b + max_size) else b)"
  by auto
termination by (relation "measure (\<lambda>(m, b). nat (- b))") auto

function adjust_down :: "int \<Rightarrow> int \<Rightarrow> int" where
  "adjust_down max_size b =
     (if max_size \<le> b \<and> 0 < max_size then adjust_down max_size (b - max_size) else b)"
  by auto
termination by (relation "measure (\<lambda>(m, b). nat b)") auto

declare adjust_up.simps [simp del] adjust_down.simps [simp del]

definition circ_inc :: "nat \<Rightarrow> int \<Rightarrow> 'a circular_buffer \<Rightarrow> nat" where
  "circ_inc base inc buf =
     (let max_size = int (length (cb_entry buf))
      in nat (adjust_down max_size (adjust_up max_size (int base + inc))))"

definition it_diff :: "'a circular_buffer \<Rightarrow> nat \<Rightarrow> nat \<Rightarrow> int" where
  "it_diff buf pos other =
     (let diff = int pos - int other in
      if pos < cb_head buf \<and> cb_head buf \<le> other then int (length (cb_entry buf)) + diff
      else if other < cb_head buf \<and> cb_head buf \<le> pos then int (length (cb_entry buf)) - diff
      else diff)"

definition it_add :: "'a circular_buffer \<Rightarrow> nat \<Rightarrow> int \<Rightarrow> nat" where
  "it_add buf pos n = circ_inc pos n buf"

definition it_sub :: "'a circular_buffer \<Rightarrow> nat \<Rightarrow> int \<Rightarrow> nat" where
  "it_sub buf pos n = it_add buf pos (- n)"

definition it_lt :: "'a circular_buffer \<Rightarrow> nat \<Rightarrow> nat \<Rightarrow> bool" where
  "it_lt buf pos other \<longleftrightarrow> 0 < it_diff buf other pos"

definition it_gt :: "'a circular_buffer \<Rightarrow> nat \<Rightarrow> nat \<Rightarrow> bool" where
  "it_gt buf pos other \<longleftrightarrow> it_lt buf other pos"

definition it_ge :: "'a circular_buffer \<Rightarrow> nat \<Rightarrow> nat \<Rightarrow> bool" where
  "it_ge buf pos other \<longleftrightarrow> \<not> it_lt buf pos other"

definition it_le :: "'a circular_buffer \<Rightarrow> nat \<Rightarrow> nat \<Rightarrow> bool" where
  "it_le buf pos other \<longleftrightarrow> \<not> it_gt buf pos other"

definition it_eq :: "'a circular_buffer \<Rightarrow> nat \<Rightarrow> nat \<Rightarrow> bool" where
  "it_eq buf pos other \<longleftrightarrow> it_le buf pos other \<and> it_ge buf pos other"

definition it_ne :: "'a circular_buffer \<Rightarrow> nat \<Rightarrow> nat \<Rightarrow> bool" where
  "it_ne buf pos other \<longleftrightarrow> \<not> it_eq buf pos other"

definition cb_at :: "'a circular_buffer \<Rightarrow> nat \<Rightarrow> 'a" where
  "cb_at buf n = cb_entry buf ! n"

definition cb_set :: "nat \<Rightarrow> 'a \<Rightarrow> 'a circular_buffer \<Rightarrow> 'a circular_buffer" where
  "cb_set n x buf = buf\<lparr>cb_entry := (cb_entry buf)[n := x]\<rparr>"

definition cb_occupancy :: "'a circular_buffer \<Rightarrow> nat" where
  "cb_occupancy buf = nat (it_diff buf (cb_tail buf) (cb_head buf))"

definition cb_empty :: "'a circular_buffer \<Rightarrow> bool" where
  "cb_empty buf \<longleftrightarrow> cb_occupancy buf = 0"

definition cb_full :: "'a circular_buffer \<Rightarrow> bool" where
  "cb_full buf \<longleftrightarrow> cb_occupancy buf = cb_sz buf"

definition cb_front :: "'a circular_buffer \<Rightarrow> 'a" where
  "cb_front buf = cb_at buf (cb_head buf)"

definition cb_back :: "'a circular_buffer \<Rightarrow> 'a" where
  "cb_back buf = cb_at buf (circ_inc (cb_tail buf) (- 1) buf)"

definition cb_begin :: "'a circular_buffer \<Rightarrow> nat" where
  "cb_begin buf = cb_head buf"

definition cb_end :: "'a circular_buffer \<Rightarrow> nat" where
  "cb_end buf = cb_tail buf"

definition cb_clear :: "'a circular_buffer \<Rightarrow> 'a circular_buffer" where
  "cb_clear buf = buf\<lparr>cb_head := 0, cb_tail := 0\<rparr>"

definition cb_push_back :: "'a \<Rightarrow> 'a circular_buffer \<Rightarrow> 'a circular_buffer result" where
  "cb_push_back item buf =
     bindE (assertE ''!full()'' (\<not> cb_full buf)) (\<lambda>_.
       let buf = cb_set (cb_tail buf) item buf
       in Inr (buf\<lparr>cb_tail := circ_inc (cb_tail buf) 1 buf\<rparr>))"

definition cb_pop_front :: "'a circular_buffer \<Rightarrow> 'a circular_buffer result" where
  "cb_pop_front buf =
     bindE (assertE ''!empty()'' (\<not> cb_empty buf)) (\<lambda>_.
       Inr (buf\<lparr>cb_head := circ_inc (cb_head buf) 1 buf\<rparr>))"

section \<open>The queue a buffer holds\<close>

text \<open>
  The positions a range-based \<open>for\<close> visits, from \<open>begin()\<close> to \<open>end()\<close>, and the
  elements found there.
\<close>

definition cb_pos :: "'a circular_buffer \<Rightarrow> nat \<Rightarrow> nat" where
  "cb_pos buf k = (cb_head buf + k) mod length (cb_entry buf)"

definition cb_positions :: "'a circular_buffer \<Rightarrow> nat list" where
  "cb_positions buf = map (cb_pos buf) [0..<cb_occupancy buf]"

definition cb_list :: "'a circular_buffer \<Rightarrow> 'a list" where
  "cb_list buf = map (cb_at buf) (cb_positions buf)"

definition cb_for_each :: "('a \<Rightarrow> 'a) \<Rightarrow> 'a circular_buffer \<Rightarrow> 'a circular_buffer" where
  "cb_for_each f buf = fold (\<lambda>p b. cb_set p (f (cb_at b p)) b) (cb_positions buf) buf"

definition cb_wf :: "'a circular_buffer \<Rightarrow> bool" where
  "cb_wf buf \<longleftrightarrow> length (cb_entry buf) = cb_sz buf + 1
     \<and> cb_head buf \<le> cb_sz buf \<and> cb_tail buf \<le> cb_sz buf"

lemmas it_defs = it_lt_def it_gt_def it_ge_def it_le_def it_eq_def it_ne_def it_diff_def Let_def

section \<open>Positions\<close>

lemma adjust_up_mod: "0 < m \<Longrightarrow> adjust_up m b mod m = b mod m"
  by (induction m b rule: adjust_up.induct) (subst adjust_up.simps, auto)

lemma adjust_up_nonneg: "0 < m \<Longrightarrow> 0 \<le> adjust_up m b"
  by (induction m b rule: adjust_up.induct) (subst adjust_up.simps, auto)

lemma adjust_down_mod: "0 < m \<Longrightarrow> 0 \<le> b \<Longrightarrow> adjust_down m b = b mod m"
proof (induction m b rule: adjust_down.induct)
  case (1 m b)
  then show ?case
    by (subst adjust_down.simps) (auto simp: minus_mod_self2)
qed

lemma circ_inc_mod:
  assumes "cb_entry buf \<noteq> []"
  shows "circ_inc base inc buf = nat ((int base + inc) mod int (length (cb_entry buf)))"
  using assms by (simp add: circ_inc_def adjust_down_mod adjust_up_nonneg adjust_up_mod)

lemma cb_wfD:
  assumes "cb_wf buf"
  shows "cb_entry buf \<noteq> []" "length (cb_entry buf) = cb_sz buf + 1"
    "cb_head buf < length (cb_entry buf)" "cb_tail buf < length (cb_entry buf)"
  using assms by (auto simp: cb_wf_def)

lemma circ_inc_nat:
  assumes "cb_wf buf"
  shows "circ_inc p (int n) buf = (p + n) mod (cb_sz buf + 1)"
proof -
  have "(int p + int n) mod int (cb_sz buf + 1) = int ((p + n) mod (cb_sz buf + 1))"
    by (simp add: zmod_int)
  with cb_wfD [OF assms] show ?thesis
    by (simp add: circ_inc_mod)
qed

lemma circ_inc_1: "cb_wf buf \<Longrightarrow> circ_inc p 1 buf = (p + 1) mod (cb_sz buf + 1)"
  using circ_inc_nat [of buf p 1] by simp

lemma circ_inc_less: "cb_wf buf \<Longrightarrow> circ_inc p i buf < length (cb_entry buf)"
  by (simp add: circ_inc_mod cb_wfD(1) nat_less_iff)

lemma cb_occupancy_eq:
  assumes "cb_wf buf"
  shows "cb_occupancy buf =
    (if cb_head buf \<le> cb_tail buf then cb_tail buf - cb_head buf
     else cb_sz buf + 1 + cb_tail buf - cb_head buf)"
  using assms by (auto simp: cb_occupancy_def it_diff_def cb_wf_def)

lemma cb_occupancy_le: "cb_wf buf \<Longrightarrow> cb_occupancy buf \<le> cb_sz buf"
  by (auto simp: cb_occupancy_eq cb_wf_def)

lemma cb_pos_less: "cb_wf buf \<Longrightarrow> cb_pos buf k < length (cb_entry buf)"
  by (simp add: cb_pos_def cb_wfD(1))

lemma cb_pos_0 [simp]: "cb_wf buf \<Longrightarrow> cb_pos buf 0 = cb_head buf"
  by (simp add: cb_pos_def cb_wf_def)

lemma cb_pos_occupancy: "cb_wf buf \<Longrightarrow> cb_pos buf (cb_occupancy buf) = cb_tail buf"
  by (auto simp: cb_pos_def cb_occupancy_eq cb_wf_def mod_if)

lemma cb_pos_wrap:
  assumes "cb_wf buf" "k \<le> cb_sz buf"
  shows "cb_pos buf k =
    (if cb_head buf + k \<le> cb_sz buf then cb_head buf + k else cb_head buf + k - (cb_sz buf + 1))"
  using assms by (auto simp: cb_pos_def cb_wf_def mod_if)

lemma cb_pos_inj:
  assumes "cb_wf buf" "j \<le> cb_sz buf" "k \<le> cb_sz buf" "cb_pos buf j = cb_pos buf k"
  shows "j = k"
  using assms by (auto simp: cb_pos_wrap cb_wf_def split: if_splits)

lemma length_cb_positions [simp]: "length (cb_positions buf) = cb_occupancy buf"
  by (simp add: cb_positions_def)

lemma length_cb_list [simp]: "length (cb_list buf) = cb_occupancy buf"
  by (simp add: cb_list_def)

lemma nth_cb_list: "k < cb_occupancy buf \<Longrightarrow> cb_list buf ! k = cb_at buf (cb_pos buf k)"
  by (simp add: cb_list_def cb_positions_def)

lemma distinct_cb_positions: "cb_wf buf \<Longrightarrow> distinct (cb_positions buf)"
  using cb_occupancy_le [of buf]
  by (auto simp: cb_positions_def distinct_map inj_on_def intro: cb_pos_inj)

text \<open>
  Between two positions of the queue that both lie in \<open>[begin, end]\<close>, the
  difference forward is the number of elements in between.
\<close>

lemma it_diff_forward:
  assumes "cb_wf buf" "j \<le> k" "k \<le> cb_sz buf"
  shows "it_diff buf (cb_pos buf k) (cb_pos buf j) = int k - int j"
  using assms by (auto simp: it_diff_def Let_def cb_pos_wrap cb_wf_def)

lemma it_lt_forward:
  assumes "cb_wf buf" "j \<le> cb_sz buf" "k \<le> cb_sz buf" "j < k"
  shows "it_lt buf (cb_pos buf j) (cb_pos buf k)"
  using assms by (simp add: it_lt_def it_diff_forward)

lemma it_eq_iff:
  assumes "p < length (cb_entry buf)" "q < length (cb_entry buf)"
  shows "it_eq buf p q \<longleftrightarrow> p = q"
  using assms by (auto simp: it_defs)

section \<open>Refinement to a list\<close>

lemma cb_new_wf [simp]: "cb_wf (cb_new d n)"
  by (simp add: cb_wf_def cb_new_def)

lemma cb_new_occupancy [simp]: "cb_occupancy (cb_new d n) = 0"
  by (simp add: cb_occupancy_def it_diff_def cb_new_def)

lemma cb_new_list [simp]: "cb_list (cb_new d n) = []"
  by (simp flip: length_0_conv)

lemma cb_clear_wf: "cb_wf buf \<Longrightarrow> cb_wf (cb_clear buf) \<and> cb_list (cb_clear buf) = []"
  by (simp add: cb_wf_def cb_clear_def cb_list_def cb_positions_def cb_occupancy_def it_diff_def)

lemma cb_clear_sz: "cb_sz (cb_clear buf) = cb_sz buf"
  by (simp add: cb_clear_def)

lemma cb_list_empty_iff: "cb_empty buf \<longleftrightarrow> cb_list buf = []"
  by (simp add: cb_empty_def flip: length_0_conv)

lemma cb_front_list: "cb_wf buf \<Longrightarrow> cb_list buf \<noteq> [] \<Longrightarrow> cb_front buf = hd (cb_list buf)"
  using nth_cb_list [of 0 buf]
  by (simp add: cb_front_def hd_conv_nth flip: length_greater_0_conv)

lemma cb_back_list:
  assumes "cb_wf buf" "cb_list buf \<noteq> []"
  shows "cb_back buf = last (cb_list buf)"
proof -
  let ?n = "cb_occupancy buf"
  from assms have n: "0 < ?n" by (simp flip: length_greater_0_conv)
  have "circ_inc (cb_tail buf) (- 1) buf = cb_pos buf (?n - 1)"
  proof (cases "cb_tail buf")
    case 0
    with assms n show ?thesis
      by (auto simp: circ_inc_mod cb_wfD cb_pos_wrap cb_occupancy_le le_diff_conv
          cb_occupancy_eq cb_wf_def zmod_minus1)
  next
    case (Suc t)
    with assms n show ?thesis
      using cb_occupancy_le [OF assms(1)]
      by (auto simp: circ_inc_mod cb_wfD cb_pos_wrap cb_occupancy_eq cb_wf_def)
  qed
  with assms n show ?thesis
    by (simp add: cb_back_def last_conv_nth nth_cb_list)
qed

text \<open>Writing one cell changes one element of the list.\<close>

lemma cb_set_sel [simp]:
  "cb_sz (cb_set p x buf) = cb_sz buf" "cb_head (cb_set p x buf) = cb_head buf"
  "cb_tail (cb_set p x buf) = cb_tail buf"
  "length (cb_entry (cb_set p x buf)) = length (cb_entry buf)"
  by (simp_all add: cb_set_def)

lemma cb_set_wf [simp]: "cb_wf (cb_set p x buf) \<longleftrightarrow> cb_wf buf"
  by (simp add: cb_wf_def)

lemma cb_set_occupancy [simp]: "cb_occupancy (cb_set p x buf) = cb_occupancy buf"
  by (simp add: cb_occupancy_def it_diff_def Let_def)

lemma cb_set_pos [simp]: "cb_pos (cb_set p x buf) = cb_pos buf"
  by (simp add: cb_pos_def fun_eq_iff)

lemma cb_set_positions [simp]: "cb_positions (cb_set p x buf) = cb_positions buf"
  by (simp add: cb_positions_def)

lemma cb_at_set: "p < length (cb_entry buf) \<Longrightarrow> cb_at (cb_set p x buf) q = (if q = p then x else cb_at buf q)"
  by (simp add: cb_at_def cb_set_def)

lemma cb_list_set:
  assumes "cb_wf buf" "k < cb_occupancy buf"
  shows "cb_list (cb_set (cb_pos buf k) x buf) = (cb_list buf)[k := x]"
proof (rule nth_equalityI)
  fix i assume "i < length (cb_list (cb_set (cb_pos buf k) x buf))"
  then have i: "i < cb_occupancy buf" by simp
  with assms cb_occupancy_le [of buf] have "cb_pos buf i = cb_pos buf k \<longleftrightarrow> i = k"
    by (auto intro: cb_pos_inj)
  with assms i show "cb_list (cb_set (cb_pos buf k) x buf) ! i = (cb_list buf)[k := x] ! i"
    by (auto simp: nth_cb_list cb_at_set cb_pos_less nth_list_update)
qed simp

lemma cb_for_each_fold:
  fixes f
  assumes "cb_wf buf" "n \<le> cb_occupancy buf"
  defines "r \<equiv> fold (\<lambda>p b. cb_set p (f (cb_at b p)) b) (map (cb_pos buf) [0..<n]) buf"
  shows "cb_wf r \<and> cb_sz r = cb_sz buf \<and> cb_head r = cb_head buf \<and> cb_tail r = cb_tail buf
    \<and> cb_list r = map f (take n (cb_list buf)) @ drop n (cb_list buf)"
  using assms(2) unfolding r_def
proof (induction n)
  case 0
  with assms(1) show ?case by simp
next
  case (Suc n)
  define b where "b = fold (\<lambda>p b. cb_set p (f (cb_at b p)) b) (map (cb_pos buf) [0..<n]) buf"
  from Suc have b: "cb_wf b" "cb_sz b = cb_sz buf" "cb_head b = cb_head buf"
    "cb_tail b = cb_tail buf" "cb_list b = map f (take n (cb_list buf)) @ drop n (cb_list buf)"
    by (simp_all add: b_def)
  have len: "length (cb_entry b) = length (cb_entry buf)"
    using cb_wfD(2) [OF b(1)] cb_wfD(2) [OF assms(1)] b(2) by simp
  then have pos: "cb_pos buf = cb_pos b" and occ: "cb_occupancy b = cb_occupancy buf"
    using b by (simp_all add: cb_pos_def cb_occupancy_def it_diff_def Let_def fun_eq_iff)
  have "cb_at b (cb_pos b n) = cb_list buf ! n"
    using Suc.prems b(5) occ nth_cb_list [of n b] by (simp add: nth_append)
  moreover have "(map f (take n (cb_list buf)) @ drop n (cb_list buf))[n := f (cb_list buf ! n)]
      = map f (take (Suc n) (cb_list buf)) @ drop (Suc n) (cb_list buf)"
    using Suc.prems
    by (simp add: list_update_append take_Suc_conv_app_nth Cons_nth_drop_Suc [symmetric])
  moreover have "fold (\<lambda>p b. cb_set p (f (cb_at b p)) b) (map (cb_pos buf) [0..<Suc n]) buf
      = cb_set (cb_pos buf n) (f (cb_at b (cb_pos buf n))) b"
    by (simp add: b_def)
  ultimately show ?case
    using Suc.prems b occ pos by (simp add: cb_list_set del: upt_Suc)
qed

lemma cb_for_each:
  assumes "cb_wf buf"
  shows "cb_wf (cb_for_each f buf)" "cb_list (cb_for_each f buf) = map f (cb_list buf)"
    "cb_sz (cb_for_each f buf) = cb_sz buf" "cb_head (cb_for_each f buf) = cb_head buf"
    "cb_tail (cb_for_each f buf) = cb_tail buf"
  using cb_for_each_fold [OF assms order_refl, of f]
  by (simp_all add: cb_for_each_def cb_positions_def)

lemma cb_push_back_ok:
  assumes "cb_wf buf" "cb_occupancy buf < cb_sz buf"
  shows "\<exists>b. cb_push_back x buf = Inr b \<and> cb_wf b \<and> cb_list b = cb_list buf @ [x]
    \<and> cb_sz b = cb_sz buf \<and> cb_head b = cb_head buf
    \<and> (\<forall>k < cb_occupancy buf. cb_at b (cb_pos buf k) = cb_at buf (cb_pos buf k))"
proof -
  define b where "b = (cb_set (cb_tail buf) x buf)\<lparr>cb_tail := circ_inc (cb_tail buf) 1 buf\<rparr>"
  have inc: "circ_inc (cb_tail buf) 1 (cb_set (cb_tail buf) x buf) = circ_inc (cb_tail buf) 1 buf"
    by (simp add: circ_inc_def)
  have wf: "cb_wf b"
    using assms circ_inc_less [OF assms(1), of "cb_tail buf" 1]
    by (auto simp: b_def cb_wf_def)
  have pos: "cb_pos b = cb_pos buf"
    by (simp add: cb_pos_def b_def fun_eq_iff)
  have occ: "cb_occupancy b = Suc (cb_occupancy buf)"
    using assms wf by (auto simp: cb_occupancy_eq b_def circ_inc_1 cb_wf_def mod_if split: if_splits)
  have at: "cb_at b q = (if q = cb_tail buf then x else cb_at buf q)" for q
    using cb_at_set [OF cb_wfD(4) [OF assms(1)], of x q] by (simp add: b_def cb_at_def)
  have keep: "cb_at b (cb_pos buf k) = cb_at buf (cb_pos buf k)" if "k < cb_occupancy buf" for k
  proof -
    from that assms have "cb_pos buf k \<noteq> cb_pos buf (cb_occupancy buf)"
      using cb_pos_inj [OF assms(1), of k "cb_occupancy buf"] by auto
    with assms show ?thesis by (simp add: at cb_pos_occupancy)
  qed
  have "cb_list b = cb_list buf @ [x]"
    by (rule nth_equalityI)
      (auto simp: occ nth_cb_list nth_append pos keep assms less_Suc_eq,
        simp add: at cb_pos_occupancy assms)
  with wf keep assms show ?thesis
    by (simp add: cb_push_back_def cb_full_def Let_def inc) (simp add: b_def)
qed

lemma cb_push_back_full: "cb_occupancy buf = cb_sz buf \<Longrightarrow> cb_push_back x buf = Inl (AssertFailed ''!full()'')"
  by (simp add: cb_push_back_def cb_full_def)

lemma cb_pop_front_ok:
  assumes "cb_wf buf" "cb_list buf \<noteq> []"
  shows "\<exists>b. cb_pop_front buf = Inr b \<and> cb_wf b \<and> cb_list b = tl (cb_list buf)
    \<and> cb_sz b = cb_sz buf \<and> cb_entry b = cb_entry buf \<and> cb_tail b = cb_tail buf"
proof -
  define b where "b = buf\<lparr>cb_head := circ_inc (cb_head buf) 1 buf\<rparr>"
  from assms have n: "0 < cb_occupancy buf" by (simp flip: length_greater_0_conv)
  have wf: "cb_wf b"
    using assms circ_inc_less [OF assms(1), of "cb_head buf" 1] by (auto simp: b_def cb_wf_def)
  have occ: "cb_occupancy b = cb_occupancy buf - 1"
    using assms wf n by (auto simp: cb_occupancy_eq b_def circ_inc_1 cb_wf_def mod_if split: if_splits)
  have pos: "cb_pos b k = cb_pos buf (Suc k)" for k
    using assms by (simp add: cb_pos_def b_def circ_inc_1 cb_wfD mod_simps add.commute)
  have "cb_list b = tl (cb_list buf)"
    using n by (intro nth_equalityI) (auto simp: occ nth_cb_list nth_tl pos, simp add: cb_at_def b_def)
  with wf n show ?thesis
    by (simp add: cb_pop_front_def cb_empty_def) (simp add: b_def)
qed

lemma cb_pop_front_empty: "cb_list buf = [] \<Longrightarrow> cb_pop_front buf = Inl (AssertFailed ''!empty()'')"
  by (simp add: cb_pop_front_def flip: cb_list_empty_iff)

section \<open>The contract of a bounded queue\<close>

text \<open>
  What the components that hold a buffer use of it.  The operations fail exactly
  when the queue is full or empty, and otherwise act on the list of items.
\<close>

locale bounded_queue =
  fixes invar :: "'q \<Rightarrow> bool"
    and items :: "'q \<Rightarrow> 'a list"
    and capacity :: "'q \<Rightarrow> nat"
    and enq :: "'a \<Rightarrow> 'q \<Rightarrow> 'q result"
    and deq :: "'q \<Rightarrow> 'q result"
    and first :: "'q \<Rightarrow> 'a"
  assumes bounded: "invar q \<Longrightarrow> length (items q) \<le> capacity q"
    and enq_ok: "invar q \<Longrightarrow> length (items q) < capacity q \<Longrightarrow>
      \<exists>r. enq x q = Inr r \<and> invar r \<and> items r = items q @ [x] \<and> capacity r = capacity q"
    and enq_full: "invar q \<Longrightarrow> length (items q) = capacity q \<Longrightarrow> \<exists>e. enq x q = Inl e"
    and deq_ok: "invar q \<Longrightarrow> items q \<noteq> [] \<Longrightarrow>
      \<exists>r. deq q = Inr r \<and> invar r \<and> items r = tl (items q) \<and> capacity r = capacity q"
    and deq_empty: "invar q \<Longrightarrow> items q = [] \<Longrightarrow> \<exists>e. deq q = Inl e"
    and first_items: "invar q \<Longrightarrow> items q \<noteq> [] \<Longrightarrow> first q = hd (items q)"
begin

fun enq_all :: "'a list \<Rightarrow> 'q \<Rightarrow> 'q result" where
  "enq_all [] q = Inr q"
| "enq_all (x # xs) q = bindE (enq x q) (enq_all xs)"

fun drain :: "nat \<Rightarrow> 'q \<Rightarrow> ('a list \<times> 'q) result" where
  "drain 0 q = Inr ([], q)"
| "drain (Suc n) q = bindE (deq q) (\<lambda>r. bindE (drain n r) (\<lambda>(xs, t). Inr (first q # xs, t)))"

lemma enq_Inr_iff:
  assumes "invar q"
  shows "(\<exists>r. enq x q = Inr r) \<longleftrightarrow> length (items q) < capacity q"
  using assms enq_ok [of q x] enq_full [of q x] bounded [of q]
  by (metis Inl_Inr_False le_neq_implies_less)

lemma enqD:
  assumes "invar q" "enq x q = Inr r"
  shows "invar r" "items r = items q @ [x]" "capacity r = capacity q"
  using assms enq_ok [of q x] enq_Inr_iff [of q x] by auto

lemma deqD:
  assumes "invar q" "deq q = Inr r"
  shows "invar r" "items q = first q # items r" "capacity r = capacity q"
  using assms deq_ok [of q] deq_empty [of q] first_items [of q]
  by (cases "items q"; fastforce)+

lemma enq_all_ok:
  "invar q \<Longrightarrow> length (items q) + length xs \<le> capacity q \<Longrightarrow>
   \<exists>r. enq_all xs q = Inr r \<and> invar r \<and> items r = items q @ xs \<and> capacity r = capacity q"
proof (induction xs arbitrary: q)
  case (Cons x xs)
  then obtain r where "enq x q = Inr r" "invar r" "items r = items q @ [x]"
    "capacity r = capacity q"
    using enq_ok [of q x] by auto
  with Cons.IH [of r] Cons.prems show ?case by auto
qed simp

lemma drain_ok:
  "invar q \<Longrightarrow> n \<le> length (items q) \<Longrightarrow>
   \<exists>r. drain n q = Inr (take n (items q), r) \<and> invar r \<and> items r = drop n (items q)
     \<and> capacity r = capacity q"
proof (induction n arbitrary: q)
  case (Suc n)
  then have ne: "items q \<noteq> []" by auto
  then obtain r where r: "deq q = Inr r" "invar r" "items r = tl (items q)"
    "capacity r = capacity q"
    using deq_ok [OF Suc.prems(1)] by auto
  then have "n \<le> length (items r)" using Suc.prems(2) by simp
  with Suc.IH [OF r(2)] obtain t where
    "drain n r = Inr (take n (items r), t)" "invar t" "items t = drop n (items r)"
    "capacity t = capacity r"
    by auto
  with r ne Suc.prems show ?case
    by (auto simp: first_items take_Suc drop_Suc)
qed simp

lemma enq_all_drain:
  assumes "invar q" "items q = []" "length xs \<le> capacity q"
  shows "\<exists>r s. enq_all xs q = Inr r \<and> drain (length xs) r = Inr (xs, s) \<and> items s = []"
proof -
  from assms enq_all_ok [of q xs] obtain r where
    "enq_all xs q = Inr r" "invar r" "items r = xs" by auto
  with drain_ok [of r "length xs"] show ?thesis by auto
qed

end

interpretation cbq: bounded_queue cb_wf cb_list cb_sz cb_push_back cb_pop_front cb_front
proof unfold_locales
  fix q :: "'a circular_buffer" and x
  assume "cb_wf q"
  then show "length (cb_list q) \<le> cb_sz q" by (simp add: cb_occupancy_le)
  show "\<exists>r. cb_push_back x q = Inr r \<and> cb_wf r \<and> cb_list r = cb_list q @ [x] \<and> cb_sz r = cb_sz q"
    if "length (cb_list q) < cb_sz q"
    using cb_push_back_ok [OF \<open>cb_wf q\<close>, of x] that by auto
  show "\<exists>e. cb_push_back x q = Inl e" if "length (cb_list q) = cb_sz q"
    using cb_push_back_full [of q x] that by simp
  show "\<exists>r. cb_pop_front q = Inr r \<and> cb_wf r \<and> cb_list r = tl (cb_list q) \<and> cb_sz r = cb_sz q"
    if "cb_list q \<noteq> []"
    using cb_pop_front_ok [OF \<open>cb_wf q\<close> that] by auto
  show "\<exists>e. cb_pop_front q = Inl e" if "cb_list q = []"
    using cb_pop_front_empty [OF that] by simp
  show "cb_front q = hd (cb_list q)" if "cb_list q \<noteq> []"
    using cb_front_list [OF \<open>cb_wf q\<close> that] .
qed

section \<open>Sequences of operations\<close>

text \<open>
  The specification: a list of at most \<open>n\<close> items with \<open>push_back\<close>, \<open>pop_front\<close>
  and \<open>clear\<close>, undefined when the capacity is exceeded or the list is empty.
\<close>

datatype 'a qop = Push 'a | Pop | Clear

fun cb_run :: "'a qop list \<Rightarrow> 'a circular_buffer \<Rightarrow> 'a circular_buffer result" where
  "cb_run [] b = Inr b"
| "cb_run (Push x # ops) b = bindE (cb_push_back x b) (cb_run ops)"
| "cb_run (Pop # ops) b = bindE (cb_pop_front b) (cb_run ops)"
| "cb_run (Clear # ops) b = cb_run ops (cb_clear b)"

fun lq_run :: "nat \<Rightarrow> 'a qop list \<Rightarrow> 'a list \<Rightarrow> 'a list option" where
  "lq_run n [] xs = Some xs"
| "lq_run n (Push x # ops) xs = (if length xs < n then lq_run n ops (xs @ [x]) else None)"
| "lq_run n (Pop # ops) xs = (if xs = [] then None else lq_run n ops (tl xs))"
| "lq_run n (Clear # ops) xs = lq_run n ops []"

lemma cb_run_refines:
  "cb_wf b \<Longrightarrow>
   (case lq_run (cb_sz b) ops (cb_list b) of
      Some xs \<Rightarrow> \<exists>r. cb_run ops b = Inr r \<and> cb_wf r \<and> cb_list r = xs \<and> cb_sz r = cb_sz b
    | None \<Rightarrow> \<exists>m. cb_run ops b = Inl (AssertFailed m))"
proof (induction ops b rule: cb_run.induct)
  case (2 x ops b)
  show ?case
  proof (cases "cb_occupancy b < cb_sz b")
    case True
    then obtain r where r: "cb_push_back x b = Inr r" "cb_wf r" "cb_list r = cb_list b @ [x]"
      "cb_sz r = cb_sz b"
      using cb_push_back_ok [OF 2(2)] by blast
    with 2(1) [OF r(2)] True show ?thesis by (auto split: option.splits)
  next
    case False
    then show ?thesis
      using cb_occupancy_le [OF 2(2)] cb_push_back_full [of b x] by simp
  qed
next
  case (3 ops b)
  show ?case
  proof (cases "cb_list b = []")
    case False
    then obtain r where r: "cb_pop_front b = Inr r" "cb_wf r" "cb_list r = tl (cb_list b)"
      "cb_sz r = cb_sz b"
      using cb_pop_front_ok [OF 3(2)] by blast
    with 3(1) [OF r(2)] False show ?thesis by (auto split: option.splits)
  qed (simp add: cb_pop_front_empty)
next
  case (4 ops b)
  then show ?case
    using cb_clear_wf [of b] by (auto simp: cb_clear_sz split: option.splits)
qed auto

lemma cb_push_back_pos:
  assumes "cb_push_back x b = Inr r"
  shows "cb_pos r = cb_pos b"
  using assms by (auto simp: cb_push_back_def errs Let_def cb_pos_def fun_eq_iff)

lemma cb_pop_front_pos:
  assumes "cb_wf b" "cb_pop_front b = Inr r"
  shows "cb_pos r k = cb_pos b (Suc k)"
proof -
  from assms(2) have r: "r = b\<lparr>cb_head := circ_inc (cb_head b) 1 b\<rparr>"
    by (auto simp: cb_pop_front_def errs)
  show ?thesis
    using assms(1) by (simp add: r cb_pos_def circ_inc_1 cb_wfD mod_simps add.commute)
qed

lemma cb_run_stable:
  "cb_wf b \<Longrightarrow> k < cb_occupancy b \<Longrightarrow> Clear \<notin> set ops \<Longrightarrow> count_if ((=) Pop) ops \<le> k \<Longrightarrow>
   cb_run ops b = Inr r \<Longrightarrow>
   k - count_if ((=) Pop) ops < cb_occupancy r
   \<and> cb_pos r (k - count_if ((=) Pop) ops) = cb_pos b k
   \<and> cb_at r (cb_pos b k) = cb_at b (cb_pos b k)"
proof (induction ops b arbitrary: k rule: cb_run.induct)
  case (2 x ops b)
  from 2(6) obtain c where c: "cb_push_back x b = Inr c" "cb_run ops c = Inr r"
    by (auto simp: errs)
  with cbq.enqD [OF 2(2) c(1)] have "cb_wf c" "cb_occupancy c = Suc (cb_occupancy b)"
    by (simp_all flip: length_cb_list)
  moreover have "cb_at c (cb_pos b k) = cb_at b (cb_pos b k)"
    using nth_cb_list [of k c] nth_cb_list [of k b] cbq.enqD(2) [OF 2(2) c(1)] 2(3)
      calculation(2) cb_push_back_pos [OF c(1)]
    by (simp add: nth_append)
  ultimately show ?case
    using 2(1) [of c k] 2(3-5) c(2) cb_push_back_pos [OF c(1)] by (simp add: count_if_def)
next
  case (3 ops b)
  from 3(6) obtain c where c: "cb_pop_front b = Inr c" "cb_run ops c = Inr r"
    by (auto simp: errs)
  from 3(5) obtain j where j: "k = Suc j" "count_if ((=) Pop) ops \<le> j"
    by (cases k) (auto simp: count_if_def)
  from cbq.deqD [OF 3(2) c(1)] 3(3) j have "cb_wf c" "j < cb_occupancy c"
    by (auto simp flip: length_cb_list)
  moreover have "cb_entry c = cb_entry b" using c(1) by (auto simp: cb_pop_front_def errs)
  ultimately show ?case
    using 3(1) [of c j] 3(4) j c(2) cb_pop_front_pos [OF 3(2) c(1), of j]
    by (simp add: count_if_def cb_at_def)
qed (auto simp: count_if_def)

lemma it_lt_backward:
  assumes "cb_wf b" "j < k" "k \<le> cb_sz b"
  shows "it_lt b (cb_pos b k) (cb_pos b j) \<longleftrightarrow> cb_head b + j \<le> cb_sz b \<and> cb_sz b < cb_head b + k"
  using assms by (auto simp: it_lt_def it_diff_def Let_def cb_pos_wrap cb_wf_def)

section \<open>Properties\<close>

text \<open>
  C11: Every sequence of \<open>push_back\<close>, \<open>pop_front\<close> and \<open>clear\<close> on a freshly
  constructed buffer of capacity \<open>n\<close> does what it does on a list of at most
  \<open>n\<close> items: it fails an assertion exactly when the list specification is
  undefined, and otherwise the elements from \<open>begin()\<close> to \<open>end()\<close> are the list
  and \<open>occupancy()\<close> is its length.
\<close>

theorem circular_buffer_refines_list:
  "case lq_run n ops [] of
     Some xs \<Rightarrow> \<exists>b. cb_run ops (cb_new d n) = Inr b \<and> cb_list b = xs
       \<and> cb_occupancy b = length xs \<and> length xs \<le> n
   | None \<Rightarrow> \<exists>m. cb_run ops (cb_new d n) = Inl (AssertFailed m)"
proof -
  have "cb_sz (cb_new d n) = n" by (simp add: cb_new_def)
  with cb_run_refines [of "cb_new d n" ops] show ?thesis
    by (auto split: option.splits) (metis cb_occupancy_le length_cb_list)+
qed

text \<open>
  An iterator stays valid until its element is popped: if it refers to the
  \<open>k\<close>-th element, then after any pushes and at most \<open>k\<close> pops it still holds the
  same element, which is now \<open>k\<close> minus the number of pops from the front.
\<close>

theorem circular_buffer_iterators_stable:
  assumes "cb_wf b" "k < cb_occupancy b" "Clear \<notin> set ops"
    "count_if ((=) Pop) ops \<le> k" "cb_run ops b = Inr r"
  shows "cb_at r (cb_pos b k) = cb_list b ! k
    \<and> cb_list r ! (k - count_if ((=) Pop) ops) = cb_list b ! k"
  using cb_run_stable [OF assms] assms(2) by (simp add: nth_cb_list)

theorem circular_buffer_iterators_stable_witness:
  "let b = the_ok (cb_run [Push 1, Push 2, Pop, Push 3] (cb_new 0 2)) :: int circular_buffer
   in \<exists>r. cb_run [Pop, Push 4] b = Inr r
      \<and> cb_at r (cb_pos b 1) = cb_list b ! 1 \<and> cb_list r ! (1 - 1) = cb_list b ! 1"
proof -
  let ?b = "the_ok (cb_run [Push 1, Push 2, Pop, Push 3] (cb_new 0 2)) :: int circular_buffer"
  let ?r = "the_ok (cb_run [Pop, Push 4] ?b)"
  have "cb_wf ?b" "1 < cb_occupancy ?b" "cb_run [Pop, Push 4] ?b = Inr ?r"
    by code_simp+
  moreover have "count_if ((=) Pop) [Pop, Push (4::int)] = 1" by (simp add: count_if_def)
  ultimately show ?thesis
    using circular_buffer_iterators_stable [of ?b 1 "[Pop, Push 4]" ?r]
    by (auto simp: Let_def)
qed

text \<open>
  C12: The order of two iterators, \<open>it < other\<close>.  Forward it is right: an
  iterator to an earlier element is always less than one to a later element.
  Backward it is not: once the later element has wrapped to the start of the
  storage and the earlier one has not, the later iterator is less than the
  earlier one as well, because the second adjustment of \<open>operator-\<close> subtracts
  the difference where it should add it; it is wrong in exactly those cases.
\<close>

theorem circular_buffer_iterator_order:
  assumes "cb_wf b" "j < k" "k \<le> cb_sz b"
  shows "it_lt b (cb_pos b j) (cb_pos b k)
    \<and> (it_lt b (cb_pos b k) (cb_pos b j) \<longleftrightarrow> cb_pos b k < cb_head b \<and> cb_head b \<le> cb_pos b j)"
  using assms it_lt_backward [OF assms] it_lt_forward [of b j k]
  by (auto simp: cb_pos_wrap cb_wf_def)

theorem circular_buffer_iterator_order_witness:
  "let b = the_ok (cb_run [Push 1, Push 2, Pop, Pop, Push 3, Push 4] (cb_new 0 2)) :: int circular_buffer
   in it_lt b (cb_pos b 0) (cb_pos b 1) \<and> it_lt b (cb_pos b 1) (cb_pos b 0)"
proof -
  let ?b = "the_ok (cb_run [Push 1, Push 2, Pop, Pop, Push 3, Push 4] (cb_new 0 2)) :: int circular_buffer"
  have "cb_wf ?b" "1 \<le> cb_sz ?b" "cb_pos ?b 1 < cb_head ?b" "cb_head ?b \<le> cb_pos ?b 0"
    by code_simp+
  then show ?thesis
    using circular_buffer_iterator_order [of ?b 0 1] by (simp add: Let_def)
qed

end
