(* ===== verification/Memory.thy ===== *)
theory Memory
  imports Util CircularBuffer
begin

text \<open>
  The data the memory hierarchy exchanges: the constants of the generated
  header \<open>champsim_constants.h\<close>, which are a parameter of the model, request
  packets and cache blocks (\<open>inc/block.h\<close>, \<open>inc/memory_class.h\<close>), and the
  merging of the dependants of two packets.  An iterator into the load or
  store queue is an index; an iterator into a reorder buffer is the number of
  the buffer and a position; a pointer to a producer is the number of the
  producer, in the order of the addresses.
\<close>

section \<open>Constants of the build\<close>

record constants =
  BLOCK_SIZE :: nat
  PAGE_SIZE :: nat
  NUM_CPUS :: nat
  DRAM_CHANNELS :: nat
  DRAM_RANKS :: nat
  DRAM_BANKS :: nat
  DRAM_ROWS :: nat
  DRAM_COLUMNS :: nat
  DRAM_WQ_SIZE :: nat
  DRAM_RQ_SIZE :: nat
  DRAM_CHANNEL_WIDTH :: nat

abbreviation LOG2_BLOCK_SIZE :: "constants \<Rightarrow> nat" where
  "LOG2_BLOCK_SIZE c \<equiv> lg2 (BLOCK_SIZE c)"

abbreviation LOG2_PAGE_SIZE :: "constants \<Rightarrow> nat" where
  "LOG2_PAGE_SIZE c \<equiv> lg2 (PAGE_SIZE c)"

section \<open>Access types and levels\<close>

abbreviation (input) LOAD :: nat where "LOAD \<equiv> 0"
abbreviation (input) RFO :: nat where "RFO \<equiv> 1"
abbreviation (input) PREFETCH :: nat where "PREFETCH \<equiv> 2"
abbreviation (input) WRITEBACK :: nat where "WRITEBACK \<equiv> 3"
abbreviation (input) TRANSLATION :: nat where "TRANSLATION \<equiv> 4"
abbreviation (input) NUM_TYPES :: nat where "NUM_TYPES \<equiv> 5"

abbreviation (input) INFLIGHT :: nat where "INFLIGHT \<equiv> 1"
abbreviation (input) COMPLETED :: nat where "COMPLETED \<equiv> 2"

abbreviation (input) FILL_L1 :: nat where "FILL_L1 \<equiv> 1"
abbreviation (input) FILL_L2 :: nat where "FILL_L2 \<equiv> 2"
abbreviation (input) FILL_LLC :: nat where "FILL_LLC \<equiv> 4"
abbreviation (input) FILL_DRC :: nat where "FILL_DRC \<equiv> 8"
abbreviation (input) FILL_DRAM :: nat where "FILL_DRAM \<equiv> 16"

section \<open>Packets and blocks\<close>

type_synonym rob_it = "nat \<times> nat"

record PACKET =
  p_scheduled :: bool
  p_asid :: "u8 \<times> u8"
  p_type :: nat
  p_fill_level :: nat
  p_pf_origin_level :: nat
  p_pf_metadata :: u32
  p_cpu :: nat
  p_address :: u64
  p_v_address :: u64
  p_data :: u64
  p_instr_id :: u64
  p_ip :: u64
  p_event_cycle :: u64
  p_cycle_enqueued :: u64
  p_lq_dep :: "nat list"
  p_sq_dep :: "nat list"
  p_instr_dep :: "rob_it list"
  p_to_return :: "nat list"
  p_translation_level :: nat
  p_init_translation_level :: nat

text \<open>
  The default member initialisers.  \<open>pf_metadata\<close> has none in the source, so
  its initial value is a parameter.
\<close>

definition PACKET_new :: "constants \<Rightarrow> u32 \<Rightarrow> PACKET" where
  "PACKET_new c meta =
     \<lparr>p_scheduled = False, p_asid = (- 1, - 1), p_type = 0, p_fill_level = 0,
      p_pf_origin_level = 0, p_pf_metadata = meta, p_cpu = NUM_CPUS c, p_address = 0,
      p_v_address = 0, p_data = 0, p_instr_id = 0, p_ip = 0, p_event_cycle = - 1,
      p_cycle_enqueued = 0, p_lq_dep = [], p_sq_dep = [], p_instr_dep = [], p_to_return = [],
      p_translation_level = 0, p_init_translation_level = 0\<rparr>"

definition is_valid_PACKET :: "PACKET \<Rightarrow> bool" where
  "is_valid_PACKET test \<longleftrightarrow> p_address test \<noteq> 0"

definition eq_addr_PACKET :: "u64 \<Rightarrow> nat \<Rightarrow> PACKET \<Rightarrow> bool" where
  "eq_addr_PACKET = eq_addr is_valid_PACKET p_address"

record BLOCK =
  b_valid :: bool
  b_prefetch :: bool
  b_dirty :: bool
  b_address :: u64
  b_v_address :: u64
  b_tag :: u64
  b_data :: u64
  b_ip :: u64
  b_cpu :: nat
  b_instr_id :: u64
  b_lru :: u32

definition BLOCK_new :: BLOCK where
  "BLOCK_new =
     \<lparr>b_valid = False, b_prefetch = False, b_dirty = False, b_address = 0, b_v_address = 0,
      b_tag = 0, b_data = 0, b_ip = 0, b_cpu = 0, b_instr_id = 0, b_lru = drop_bit 1 (- 1)\<rparr>"

section \<open>Merging dependants\<close>

text \<open>\<open>std::unique\<close> drops an element equal to the last one it kept.\<close>

fun unique_by :: "('a \<Rightarrow> 'a \<Rightarrow> bool) \<Rightarrow> 'a list \<Rightarrow> 'a list" where
  "unique_by eq [] = []"
| "unique_by eq [x] = [x]"
| "unique_by eq (x # y # ys) =
     (if eq x y then unique_by eq (x # ys) else x # unique_by eq (y # ys))"

definition packet_dep_merge :: "('a \<Rightarrow> 'a \<Rightarrow> bool) \<Rightarrow> ('a \<Rightarrow> 'a \<Rightarrow> bool) \<Rightarrow> 'a list \<Rightarrow> 'a list \<Rightarrow> 'a list" where
  "packet_dep_merge lt eq dest src = unique_by eq (merge_by lt dest src)"

abbreviation dep_merge :: "nat list \<Rightarrow> nat list \<Rightarrow> nat list" where
  "dep_merge \<equiv> packet_dep_merge (<) (=)"

text \<open>
  Iterators into reorder buffers compare through \<open>circular_buffer_iterator\<close>;
  \<open>operator==\<close> is defined from \<open>operator<\<close>, so it also holds of iterators into
  two different buffers.
\<close>

definition instr_dep_merge :: "(rob_it \<Rightarrow> rob_it \<Rightarrow> bool) \<Rightarrow> rob_it list \<Rightarrow> rob_it list \<Rightarrow> rob_it list" where
  "instr_dep_merge lt = packet_dep_merge lt (\<lambda>a b. \<not> lt b a \<and> \<not> lt a b)"

definition merge_deps :: "(rob_it \<Rightarrow> rob_it \<Rightarrow> bool) \<Rightarrow> PACKET \<Rightarrow> PACKET \<Rightarrow> PACKET" where
  "merge_deps lt dest src =
     dest\<lparr>p_lq_dep := dep_merge (p_lq_dep dest) (p_lq_dep src),
          p_sq_dep := dep_merge (p_sq_dep dest) (p_sq_dep src),
          p_instr_dep := instr_dep_merge lt (p_instr_dep dest) (p_instr_dep src),
          p_to_return := dep_merge (p_to_return dest) (p_to_return src)\<rparr>"

lemma set_unique_by_eq [simp]: "set (unique_by (=) xs) = set xs"
  by (induction "(=) :: 'a \<Rightarrow> 'a \<Rightarrow> bool" xs rule: unique_by.induct) auto

lemma sorted_unique_by:
  fixes xs :: "'a::linorder list"
  shows "sorted xs \<Longrightarrow> sorted (unique_by (=) xs) \<and> distinct (unique_by (=) xs)"
proof (induction "(=) :: 'a \<Rightarrow> 'a \<Rightarrow> bool" xs rule: unique_by.induct)
  case (3 x y ys)
  show ?case
  proof (cases "x = y")
    case False
    with 3 have "\<forall>z \<in> set (unique_by (=) (y # ys)). x < z" by auto
    with 3 False show ?thesis by (fastforce simp: less_imp_le)
  qed (use 3 in auto)
qed auto

lemma dep_merge_set: "set (dep_merge xs ys) = set xs \<union> set ys"
  by (simp add: packet_dep_merge_def)

lemma dep_merge_sorted:
  "sorted xs \<Longrightarrow> sorted ys \<Longrightarrow> sorted (dep_merge xs ys) \<and> distinct (dep_merge xs ys)"
  unfolding packet_dep_merge_def by (intro sorted_unique_by sorted_merge_by)

section \<open>The contract of a memory request consumer\<close>

text \<open>
  The return values of \<open>add_rq\<close>, \<open>add_wq\<close> and \<open>add_pq\<close> as the comment in
  \<open>inc/memory_class.h\<close> documents them: -2 the queue is full, -1 the packet was
  answered at once, 0 it was merged with one in the queue, and a positive value
  is the new occupancy.
\<close>

locale request_consumer =
  fixes invar :: "'s \<Rightarrow> bool"
    and queue :: "'s \<Rightarrow> PACKET list"
    and capacity :: "'s \<Rightarrow> nat"
    and add_q :: "PACKET \<Rightarrow> 's \<Rightarrow> (int \<times> 's) result"
  assumes bounded: "invar s \<Longrightarrow> length (queue s) \<le> capacity s"
    and kept: "invar s \<Longrightarrow> add_q pkt s = Inr (r, t) \<Longrightarrow> invar t \<and> capacity t = capacity s \<and> - 2 \<le> r"
    and rejected: "invar s \<Longrightarrow> add_q pkt s = Inr (- 2, t) \<Longrightarrow>
      queue t = queue s \<and> length (queue s) = capacity s"
    and merged: "invar s \<Longrightarrow> add_q pkt s = Inr (r, t) \<Longrightarrow> r = - 1 \<or> r = 0 \<Longrightarrow>
      length (queue t) = length (queue s)"
    and accepted: "invar s \<Longrightarrow> add_q pkt s = Inr (r, t) \<Longrightarrow> 0 < r \<Longrightarrow>
      queue t = queue s @ [pkt] \<and> r = int (length (queue t))"
begin

fun offer :: "PACKET list \<Rightarrow> 's \<Rightarrow> (int list \<times> 's) result" where
  "offer [] s = Inr ([], s)"
| "offer (p # ps) s = bindE (add_q p s) (\<lambda>(r, t). bindE (offer ps t) (\<lambda>(rs, u). Inr (r # rs, u)))"

lemma add_length:
  assumes "invar s" "add_q p s = Inr (r, t)"
  shows "length (queue t) = length (queue s) + (if 0 < r then 1 else 0)"
proof -
  consider "r = - 2" | "r = - 1 \<or> r = 0" | "0 < r" using kept [OF assms] by linarith
  then show ?thesis
    using rejected [of s p t] merged [OF assms] accepted [OF assms] assms by cases auto
qed

text \<open>Whatever is offered, the occupancy is what was accepted, and never above the capacity.\<close>

lemma offer_occupancy:
  "invar s \<Longrightarrow> offer ps s = Inr (rs, t) \<Longrightarrow>
   invar t \<and> capacity t = capacity s
   \<and> length (queue t) = length (queue s) + count_if (\<lambda>r. 0 < r) rs
   \<and> length (queue t) \<le> capacity s"
proof (induction ps arbitrary: s rs)
  case Nil
  then show ?case using bounded by (simp add: count_if_def)
next
  case (Cons p ps)
  from Cons.prems(2) obtain r u rs' where
    u: "add_q p s = Inr (r, u)" "offer ps u = Inr (rs', t)" "rs = r # rs'"
    by (auto simp: errs)
  have k: "invar u" "capacity u = capacity s" using kept [OF Cons.prems(1) u(1)] by auto
  from Cons.IH [OF k(1) u(2)] add_length [OF Cons.prems(1) u(1)] k(2) u(3) show ?case
    by (auto simp: count_if_def)
qed

end

section \<open>Property\<close>

text \<open>
  C16: \<open>packet_dep_merge\<close> of two sorted vectors leaves in \<open>dest\<close> the union of
  both, sorted and without duplicates, so that no load, store or requester
  waiting for a packet is lost or signalled twice when packets are merged.
\<close>

theorem packet_dep_merge_union:
  assumes "sorted dest" "sorted src"
  shows "dep_merge dest src = sorted_list_of_set (set dest \<union> set src)"
proof (rule sorted_distinct_set_unique)
  show "set (dep_merge dest src) = set (sorted_list_of_set (set dest \<union> set src))"
    by (simp add: dep_merge_set)
qed (use dep_merge_sorted [OF assms] in auto)

theorem packet_dep_merge_union_witness:
  "dep_merge [1, 4, 9] [2, 4] = sorted_list_of_set ({1, 4, 9} \<union> {2, 4})"
  using packet_dep_merge_union [of "[1, 4, 9]" "[2, 4]"] by simp

end
