(* ===== verification/Replacement.thy ===== *)
theory Replacement
  imports Memory
begin

text \<open>
  Replacement policies: the interface the cache calls (\<open>find_victim\<close> and
  \<open>update_replacement_state\<close>, declared by the generated
  \<open>cache_modules.inc\<close>), with its contract as a locale, and the policies of
  \<open>replacement/lru\<close> and \<open>replacement/srrip\<close>.  A policy sees the whole array
  \<open>block\<close> of the cache and its own state; only the field \<open>lru\<close> of the blocks
  is a policy's to change.
\<close>

section \<open>Interface\<close>

type_synonym 's find_victim =
  "nat \<Rightarrow> u64 \<Rightarrow> nat \<Rightarrow> u64 \<Rightarrow> u64 \<Rightarrow> nat \<Rightarrow> BLOCK list \<times> 's \<Rightarrow> nat \<times> BLOCK list \<times> 's"

type_synonym 's update_replacement =
  "nat \<Rightarrow> nat \<Rightarrow> nat \<Rightarrow> u64 \<Rightarrow> u64 \<Rightarrow> u64 \<Rightarrow> nat \<Rightarrow> bool \<Rightarrow> BLOCK list \<times> 's \<Rightarrow> BLOCK list \<times> 's"

definition same_but_lru :: "BLOCK \<Rightarrow> BLOCK \<Rightarrow> bool" where
  "same_but_lru x y \<longleftrightarrow> x\<lparr>b_lru := 0\<rparr> = y\<lparr>b_lru := 0\<rparr>"

text \<open>Writing the rank of one block, and mapping over one set.\<close>

definition set_lru :: "nat \<Rightarrow> u32 \<Rightarrow> BLOCK list \<Rightarrow> BLOCK list" where
  "set_lru i v bs = bs[i := (bs ! i)\<lparr>b_lru := v\<rparr>]"

definition only_lru :: "BLOCK list \<Rightarrow> BLOCK list \<Rightarrow> bool" where
  "only_lru bs bs' \<longleftrightarrow> list_all2 same_but_lru bs bs'"

text \<open>
  What a cache relies on: a victim is a way of the set, the contents of the
  blocks are left alone, and the invariant of the policy, which depends on the
  ranks only, is kept.
\<close>

locale replacement_policy =
  fixes NUM_SET NUM_WAY :: nat
    and policy_inv :: "BLOCK list \<times> 's \<Rightarrow> bool"
    and find_victim :: "'s find_victim"
    and update_state :: "'s update_replacement"
  assumes inv_cong: "policy_inv (bs, s) \<Longrightarrow> map b_lru bs = map b_lru bs' \<Longrightarrow> policy_inv (bs', s)"
    and victim: "policy_inv (bs, s) \<Longrightarrow> length bs = NUM_SET * NUM_WAY \<Longrightarrow> st < NUM_SET \<Longrightarrow>
      0 < NUM_WAY \<Longrightarrow> find_victim cpu i st ip a t (bs, s) = (w, bs', s') \<Longrightarrow>
      w < NUM_WAY \<and> policy_inv (bs', s') \<and> only_lru bs bs'"
    and update: "policy_inv (bs, s) \<Longrightarrow> length bs = NUM_SET * NUM_WAY \<Longrightarrow> st < NUM_SET \<Longrightarrow>
      w < NUM_WAY \<Longrightarrow> update_state cpu st w a ip v t h (bs, s) = (bs', s') \<Longrightarrow>
      policy_inv (bs', s') \<and> only_lru bs bs'"

lemma same_but_lru_refl [simp]: "same_but_lru x x"
  by (simp add: same_but_lru_def)

lemma same_but_lru_update [simp]: "same_but_lru x (x\<lparr>b_lru := v\<rparr>)"
  by (simp add: same_but_lru_def)

lemma same_but_lru_trans: "same_but_lru x y \<Longrightarrow> same_but_lru y z \<Longrightarrow> same_but_lru x z"
  by (simp add: same_but_lru_def)

lemma same_but_lruD:
  assumes "same_but_lru x y"
  shows "b_valid x = b_valid y" "b_prefetch x = b_prefetch y" "b_dirty x = b_dirty y"
    "b_address x = b_address y" "b_v_address x = b_v_address y" "b_tag x = b_tag y"
    "b_data x = b_data y" "b_cpu x = b_cpu y"
proof -
  from assms have e: "x\<lparr>b_lru := 0\<rparr> = y\<lparr>b_lru := 0\<rparr>" by (simp add: same_but_lru_def)
  show "b_valid x = b_valid y" using arg_cong [OF e, of b_valid] by simp
  show "b_prefetch x = b_prefetch y" using arg_cong [OF e, of b_prefetch] by simp
  show "b_dirty x = b_dirty y" using arg_cong [OF e, of b_dirty] by simp
  show "b_address x = b_address y" using arg_cong [OF e, of b_address] by simp
  show "b_v_address x = b_v_address y" using arg_cong [OF e, of b_v_address] by simp
  show "b_tag x = b_tag y" using arg_cong [OF e, of b_tag] by simp
  show "b_data x = b_data y" using arg_cong [OF e, of b_data] by simp
  show "b_cpu x = b_cpu y" using arg_cong [OF e, of b_cpu] by simp
qed

lemma only_lru_refl [simp, intro]: "only_lru bs bs"
  by (simp add: only_lru_def list_all2_same)

lemma only_lru_trans: "only_lru a b \<Longrightarrow> only_lru b c \<Longrightarrow> only_lru a c"
  unfolding only_lru_def by (rule list_all2_trans [of same_but_lru same_but_lru same_but_lru])
    (auto intro: same_but_lru_trans)

lemma only_lruD: "only_lru bs bs' \<Longrightarrow> length bs' = length bs \<and> (\<forall>i < length bs. same_but_lru (bs ! i) (bs' ! i))"
  by (auto simp: only_lru_def list_all2_conv_all_nth)

lemma only_lru_set [simp, intro]: "only_lru bs (set_lru i v bs)"
  by (cases "i < length bs")
    (auto simp: only_lru_def set_lru_def list_all2_conv_all_nth nth_list_update list_update_beyond)

lemma only_lru_map_slice:
  assumes "b + n \<le> length bs" "\<And>x. same_but_lru x (f x)"
  shows "only_lru bs (map_slice b n f bs)"
  using assms by (auto simp: only_lru_def list_all2_conv_all_nth length_map_slice nth_map_slice)

lemma length_set_lru [simp]: "length (set_lru i v bs) = length bs"
  by (simp add: set_lru_def)

lemma nth_set_lru: "i < length bs \<Longrightarrow> set_lru i v bs ! j = (if i = j then (bs ! i)\<lparr>b_lru := v\<rparr> else bs ! j)"
  by (simp add: set_lru_def nth_list_update)

section \<open>LRU\<close>

definition lru_find_victim :: "nat \<Rightarrow> unit find_victim" where
  "lru_find_victim NUM_WAY cpu instr_id st ip full_addr type = (\<lambda>(block, s).
     let current_set = slice (st * NUM_WAY) NUM_WAY block
     in (max_element (lru_comparator b_valid b_lru) current_set, block, s))"

definition lru_update :: "nat \<Rightarrow> unit update_replacement" where
  "lru_update NUM_WAY cpu st way full_addr ip victim_addr type hit = (\<lambda>(block, s).
     if hit \<and> type = WRITEBACK then (block, s)
     else
       let b = st * NUM_WAY;
           hit_lru = b_lru (block ! (b + way));
           block = map_slice b NUM_WAY
             (\<lambda>x. if b_lru x \<le> hit_lru then x\<lparr>b_lru := b_lru x + 1\<rparr> else x) block
       in (set_lru (b + way) 0 block, s))"

lemma set_range: "st < NUM_SET \<Longrightarrow> length bs = NUM_SET * NUM_WAY \<Longrightarrow> st * NUM_WAY + NUM_WAY \<le> length bs"
  by (simp add: set_index_bound)

lemma lru_update_only_lru:
  assumes "length bs = NUM_SET * NUM_WAY" "st < NUM_SET"
  shows "only_lru bs (fst (lru_update NUM_WAY cpu st way a ip v t h (bs, s)))"
proof -
  let ?f = "\<lambda>x. if b_lru x \<le> b_lru (bs ! (st * NUM_WAY + way)) then x\<lparr>b_lru := b_lru x + 1\<rparr> else x"
  have "only_lru bs (map_slice (st * NUM_WAY) NUM_WAY ?f bs)"
    by (rule only_lru_map_slice) (use set_range [OF assms(2,1)] in auto)
  then show ?thesis
    by (auto simp: lru_update_def Let_def intro: only_lru_trans)
qed

interpretation lru_policy: replacement_policy NUM_SET NUM_WAY "\<lambda>_. True"
  "lru_find_victim NUM_WAY" "lru_update NUM_WAY" for NUM_SET NUM_WAY
proof unfold_locales
  fix bs bs' :: "BLOCK list" and s s' :: unit and st w cpu t :: nat and i ip a v :: u64 and h
  assume len: "length bs = NUM_SET * NUM_WAY" and st: "st < NUM_SET"
  show "w < NUM_WAY \<and> True \<and> only_lru bs bs'"
    if "0 < NUM_WAY" "lru_find_victim NUM_WAY cpu i st ip a t (bs, s) = (w, bs', s')"
  proof -
    have "slice (st * NUM_WAY) NUM_WAY bs \<noteq> []"
      using that set_range [OF st len] by (simp add: length_slice flip: length_greater_0_conv)
    with max_element_less [OF this] set_range [OF st len] that show ?thesis
      by (auto simp: lru_find_victim_def Let_def length_slice)
  qed
  show "True \<and> only_lru bs bs'" if "lru_update NUM_WAY cpu st w a ip v t h (bs, s) = (bs', s')"
    using lru_update_only_lru [OF len st] that by (metis fst_conv)
qed auto

text \<open>
  The specification of LRU: the ways of a set that have been used, the most
  recent one first.  A rank is the position in that list; the ways never used
  share a rank above all of them, \<open>2 ^ 31 - 1\<close> (the initial value) plus the
  number of ways used.
\<close>

definition touch :: "nat \<Rightarrow> nat list \<Rightarrow> nat list" where
  "touch w rs = w # remove1 w rs"

definition recency_rank :: "nat list \<Rightarrow> nat \<Rightarrow> nat" where
  "recency_rank rs i = (if i \<in> set rs then find_if ((=) i) rs else 2 ^ 31 - 1 + length rs)"

definition lru_rep :: "nat \<Rightarrow> nat list \<Rightarrow> BLOCK list \<Rightarrow> bool" where
  "lru_rep n rs bs \<longleftrightarrow> length bs = n \<and> distinct rs \<and> set rs \<subseteq> {..<n}
     \<and> (\<forall>i < n. unat (b_lru (bs ! i)) = recency_rank rs i)"

lemma find_if_eq_less: "i \<in> set rs \<Longrightarrow> find_if ((=) i) rs < length rs"
  by (auto simp: find_if_less_iff)

lemma find_if_eq_inj:
  assumes "i \<in> set rs" "w \<in> set rs" "find_if ((=) i) rs = find_if ((=) w) rs"
  shows "i = w"
  using find_if_nth [OF find_if_eq_less [OF assms(1)]] find_if_nth [OF find_if_eq_less [OF assms(2)]]
    assms(3) by simp

lemma find_if_remove1:
  "distinct rs \<Longrightarrow> w \<in> set rs \<Longrightarrow> j \<in> set rs \<Longrightarrow> j \<noteq> w \<Longrightarrow>
   find_if ((=) j) (remove1 w rs) =
    (if find_if ((=) j) rs < find_if ((=) w) rs then find_if ((=) j) rs
     else find_if ((=) j) rs - 1)"
proof (induction rs)
  case (Cons a rs)
  consider "a = w" | "a = j" | "a \<noteq> w" "a \<noteq> j" by blast
  then show ?case
  proof cases
    case 3
    with Cons.prems have "w \<in> set rs" "j \<in> set rs" "distinct rs" by auto
    moreover from this have "find_if ((=) j) rs \<noteq> find_if ((=) w) rs"
      using find_if_eq_inj [of j rs w] Cons.prems(4) by metis
    ultimately show ?thesis using 3 Cons.IH Cons.prems(4) by simp
  qed (use Cons.prems in simp_all)
qed simp

lemma length_distinct_le: "distinct rs \<Longrightarrow> set rs \<subseteq> {..<n} \<Longrightarrow> length rs \<le> n"
  using card_mono [of "{..<n}" "set rs"] by (simp add: distinct_card)

lemma touch_keeps: "distinct rs \<Longrightarrow> set rs \<subseteq> {..<n} \<Longrightarrow> w < n \<Longrightarrow>
  distinct (touch w rs) \<and> set (touch w rs) \<subseteq> {..<n}"
  by (auto simp: touch_def)

text \<open>Touching a way increments exactly the ranks up to its own.\<close>

lemma recency_rank_touch:
  assumes "distinct rs" "set rs \<subseteq> {..<n}" "n < 2 ^ 31" "w < n" "i < n" "i \<noteq> w"
  shows "recency_rank (touch w rs) i =
    (if recency_rank rs i \<le> recency_rank rs w then recency_rank rs i + 1 else recency_rank rs i)"
proof -
  have len: "length rs < 2 ^ 31" using length_distinct_le [OF assms(1,2)] assms(3) by simp
  have ne: "find_if ((=) i) rs \<noteq> find_if ((=) w) rs" if "i \<in> set rs" "w \<in> set rs"
    using find_if_eq_inj [OF that] assms(6) by metis
  show ?thesis
  proof (cases "w \<in> set rs")
    case True
    with assms ne find_if_eq_less [OF True] len show ?thesis
      by (auto simp: recency_rank_def touch_def find_if_remove1 length_remove1)
  next
    case False
    with assms find_if_eq_less [of i rs] len show ?thesis
      by (auto simp: recency_rank_def touch_def remove1_idem)
  qed
qed

lemma recency_rank_bound:
  assumes "distinct rs" "set rs \<subseteq> {..<n}" "n < 2 ^ 31"
  shows "recency_rank rs i + 1 < 2 ^ 32"
  using length_distinct_le [OF assms(1,2)] assms(3) find_if_eq_less [of i rs]
  by (auto simp: recency_rank_def)

lemma lru_rep_update:
  assumes "lru_rep n rs bs" "n < 2 ^ 31" "w < n"
  shows "lru_rep n (touch w rs)
    (set_lru w 0 (map (\<lambda>x. if b_lru x \<le> b_lru (bs ! w) then x\<lparr>b_lru := b_lru x + 1\<rparr> else x) bs))"
proof -
  from assms have bs: "length bs = n" "distinct rs" "set rs \<subseteq> {..<n}"
    "\<And>i. i < n \<Longrightarrow> unat (b_lru (bs ! i)) = recency_rank rs i"
    by (auto simp: lru_rep_def)
  have inc: "unat (b_lru (bs ! i) + 1) = recency_rank rs i + 1" if "i < n" for i
    using recency_rank_bound [OF bs(2,3) assms(2), of i] bs(4) [OF that]
    by (simp add: unat_word_ariths)
  have le: "b_lru (bs ! i) \<le> b_lru (bs ! w) \<longleftrightarrow> recency_rank rs i \<le> recency_rank rs w" if "i < n" for i
    using bs(4) that assms(3) by (simp add: word_le_nat_alt)
  have "recency_rank (touch w rs) w = 0" by (simp add: recency_rank_def touch_def)
  then show ?thesis
    using bs assms touch_keeps [OF bs(2,3) assms(3)]
    by (auto simp: lru_rep_def nth_set_lru inc le recency_rank_touch)
qed

lemma max_element_unique:
  assumes "k < length xs" "\<forall>x \<in> set xs. v x" "\<And>j. j < length xs \<Longrightarrow> lru (xs ! j) \<le> lru (xs ! k)"
    "\<And>j. j < k \<Longrightarrow> lru (xs ! j) < lru (xs ! k)"
  shows "max_element (lru_comparator v lru) xs = k"
proof -
  let ?m = "max_element (lru_comparator v lru) xs"
  have ne: "xs \<noteq> []" using assms(1) by auto
  note m = max_element_less [OF ne, of "lru_comparator v lru"]
  note max = max_element_lru [OF ne assms(2), of lru]
  have "lru (xs ! ?m) = lru (xs ! k)"
    using max(1) assms(1,3) m by (meson antisym nth_mem)
  then have "\<not> ?m < k" "\<not> k < ?m"
    using assms(4) [of ?m] max(2) by auto
  then show ?thesis by simp
qed

definition lru_victim_spec :: "nat \<Rightarrow> nat list \<Rightarrow> nat" where
  "lru_victim_spec n rs = (if length rs < n then find_if (\<lambda>w. w \<notin> set rs) [0..<n] else last rs)"

lemma recency_rank_le: "recency_rank rs j \<le> 2 ^ 31 - 1 + length rs"
  using find_if_eq_less [of j rs] by (auto simp: recency_rank_def)

lemma recency_rank_used: "j \<in> set rs \<Longrightarrow> recency_rank rs j < 2 ^ 31 - 1 + length rs"
  using find_if_eq_less [of j rs] by (simp add: recency_rank_def)

lemma lru_spec_unused:
  assumes "distinct rs" "length rs < n"
  shows "lru_victim_spec n rs < n" "lru_victim_spec n rs \<notin> set rs"
    "\<And>j. j < lru_victim_spec n rs \<Longrightarrow> j \<in> set rs"
proof -
  let ?P = "\<lambda>w. w \<notin> set rs"
  have "\<exists>w < n. w \<notin> set rs"
  proof (rule ccontr)
    assume "\<not> (\<exists>w < n. w \<notin> set rs)"
    then have "{..<n} \<subseteq> set rs" by auto
    from card_mono [OF finite_set this] show False
      using assms by (simp add: distinct_card)
  qed
  then have fk: "find_if ?P [0..<n] < length [0..<n]"
    by (subst find_if_less_iff) auto
  have k: "lru_victim_spec n rs = find_if ?P [0..<n]"
    using assms by (simp add: lru_victim_spec_def)
  show "lru_victim_spec n rs < n" using fk k by simp
  show "lru_victim_spec n rs \<notin> set rs" using find_if_nth [OF fk] fk k by simp
  show "j \<in> set rs" if "j < lru_victim_spec n rs" for j
    using find_if_before [of j ?P "[0..<n]"] that fk k by simp
qed

lemma lru_spec_last:
  assumes "distinct rs" "length rs = n" "0 < n"
  shows "find_if ((=) (last rs)) rs = n - 1"
    "\<And>j. j \<in> set rs \<Longrightarrow> j \<noteq> last rs \<Longrightarrow> find_if ((=) j) rs < n - 1"
proof -
  have ne: "rs \<noteq> []" using assms by auto
  show "find_if ((=) (last rs)) rs = n - 1"
  proof (rule find_if_unique)
    show "\<not> last rs = rs ! j" if "j < n - 1" for j
      using that assms ne by (simp add: last_conv_nth nth_eq_iff_index_eq)
  qed (use assms ne in \<open>auto simp: last_conv_nth\<close>)
  show "find_if ((=) j) rs < n - 1" if "j \<in> set rs" "j \<noteq> last rs" for j
  proof -
    note l = find_if_eq_less [OF that(1)]
    have "find_if ((=) j) rs \<noteq> n - 1"
      using find_if_nth [OF l] that(2) ne assms(2) by (auto simp: last_conv_nth)
    with l assms(2) show ?thesis by simp
  qed
qed

lemma lru_spec_max:
  assumes "distinct rs" "set rs \<subseteq> {..<n}" "0 < n"
  shows "lru_victim_spec n rs < n"
    "\<And>j. j < n \<Longrightarrow> recency_rank rs j \<le> recency_rank rs (lru_victim_spec n rs)"
    "\<And>j. j < lru_victim_spec n rs \<Longrightarrow> recency_rank rs j < recency_rank rs (lru_victim_spec n rs)"
proof -
  let ?k = "lru_victim_spec n rs"
  have "?k < n \<and> (\<forall>j < n. recency_rank rs j \<le> recency_rank rs ?k)
    \<and> (\<forall>j < ?k. recency_rank rs j < recency_rank rs ?k)"
  proof (cases "length rs < n")
    case True
    note u = lru_spec_unused [OF assms(1) True]
    then have "recency_rank rs ?k = 2 ^ 31 - 1 + length rs" by (simp add: recency_rank_def)
    with u recency_rank_le recency_rank_used show ?thesis by metis
  next
    case False
    then have l: "length rs = n" using length_distinct_le [OF assms(1,2)] by simp
    then have all: "set rs = {..<n}" using assms by (simp add: card_subset_eq distinct_card)
    have k: "?k = last rs" "last rs \<in> set rs" using False l assms(3) by (auto simp: lru_victim_spec_def)
    have r: "recency_rank rs j = find_if ((=) j) rs" if "j < n" for j
      using that all by (simp add: recency_rank_def)
    have lt: "recency_rank rs j < n - 1" if "j < n" "j \<noteq> ?k" for j
      using that lru_spec_last(2) [OF assms(1) l assms(3)] k all r by simp
    have kn: "?k < n" using k all by simp
    moreover have rk: "recency_rank rs ?k = n - 1"
      using lru_spec_last(1) [OF assms(1) l assms(3)] r [OF kn] k by simp
    moreover have "recency_rank rs j \<le> n - 1" if "j < n" for j
      using lt [OF that] rk by (cases "j = ?k") auto
    ultimately show ?thesis using lt by auto
  qed
  then show "?k < n" "\<And>j. j < n \<Longrightarrow> recency_rank rs j \<le> recency_rank rs ?k"
    "\<And>j. j < ?k \<Longrightarrow> recency_rank rs j < recency_rank rs ?k" by auto
qed

lemma lru_rep_victim:
  assumes "lru_rep n rs bs" "0 < n" "\<forall>b \<in> set bs. b_valid b"
  shows "max_element (lru_comparator b_valid b_lru) bs = lru_victim_spec n rs"
proof -
  from assms have bs: "length bs = n" "distinct rs" "set rs \<subseteq> {..<n}"
    "\<And>i. i < n \<Longrightarrow> unat (b_lru (bs ! i)) = recency_rank rs i"
    by (auto simp: lru_rep_def)
  note k = lru_spec_max [OF bs(2,3) assms(2)]
  show ?thesis
    by (rule max_element_unique)
      (use assms(3) k bs in \<open>auto simp: word_le_nat_alt word_less_nat_alt\<close>)
qed

text \<open>
  A sequence of accesses to the cache: set, way, access type and whether it was
  a hit.  Only a write back that hits leaves the order alone.
\<close>

type_synonym access = "nat \<times> nat \<times> nat \<times> bool"

definition lru_access :: "nat \<Rightarrow> access \<Rightarrow> BLOCK list \<Rightarrow> BLOCK list" where
  "lru_access NUM_WAY = (\<lambda>(st, w, t, h) bs. fst (lru_update NUM_WAY 0 st w 0 0 0 t h (bs, ())))"

definition recency :: "nat \<Rightarrow> access list \<Rightarrow> nat list" where
  "recency st accs =
     fold (\<lambda>(s, w, t, h) rs. if s = st \<and> \<not> (h \<and> t = WRITEBACK) then touch w rs else rs) accs []"

lemma lru_access_nth:
  assumes "s * NUM_WAY + NUM_WAY \<le> length bs" "w < NUM_WAY" "i < length bs"
  shows "lru_access NUM_WAY (s, w, t, h) bs ! i =
    (if h \<and> t = WRITEBACK \<or> i < s * NUM_WAY \<or> s * NUM_WAY + NUM_WAY \<le> i then bs ! i
     else if i = s * NUM_WAY + w then (bs ! i)\<lparr>b_lru := 0\<rparr>
     else if b_lru (bs ! i) \<le> b_lru (bs ! (s * NUM_WAY + w)) then (bs ! i)\<lparr>b_lru := b_lru (bs ! i) + 1\<rparr>
     else bs ! i)"
proof -
  have "s * NUM_WAY + w < length bs" using assms by linarith
  with assms show ?thesis
    by (simp add: lru_access_def lru_update_def Let_def nth_set_lru nth_map_slice)
qed

lemma length_lru_access [simp]:
  "s * NUM_WAY + NUM_WAY \<le> length bs \<Longrightarrow> length (lru_access NUM_WAY (s, w, t, h) bs) = length bs"
  by (simp add: lru_access_def lru_update_def Let_def)

lemma lru_access_slice:
  assumes "length bs = NUM_SET * NUM_WAY" "s < NUM_SET" "st < NUM_SET" "w < NUM_WAY"
  defines "old \<equiv> slice (st * NUM_WAY) NUM_WAY bs"
  shows "slice (st * NUM_WAY) NUM_WAY (lru_access NUM_WAY (s, w, t, h) bs) =
    (if s = st \<and> \<not> (h \<and> t = WRITEBACK)
     then set_lru w 0 (map (\<lambda>x. if b_lru x \<le> b_lru (old ! w) then x\<lparr>b_lru := b_lru x + 1\<rparr> else x) old)
     else old)"
    (is "?lhs = ?rhs")
proof (rule nth_equalityI)
  have rng: "s * NUM_WAY + NUM_WAY \<le> length bs" "st * NUM_WAY + NUM_WAY \<le> length bs"
    using set_range [OF assms(2,1)] set_range [OF assms(3,1)] .
  show "length ?lhs = length ?rhs" using rng by (simp add: old_def length_slice)
  fix i assume "i < length ?lhs"
  then have i: "i < NUM_WAY" using rng by (simp add: length_slice)
  then have il: "st * NUM_WAY + i < length bs" using rng by linarith
  have lhs: "?lhs ! i = lru_access NUM_WAY (s, w, t, h) bs ! (st * NUM_WAY + i)"
    using i rng by (simp add: nth_slice)
  note acc = lru_access_nth [OF rng(1) assms(4) il, of t h]
  show "?lhs ! i = ?rhs ! i"
  proof (cases "s = st \<and> \<not> (h \<and> t = WRITEBACK)")
    case True
    have old: "length old = NUM_WAY" "old ! i = bs ! (st * NUM_WAY + i)"
      "old ! w = bs ! (st * NUM_WAY + w)"
      using i assms(4) nth_slice [OF rng(2)] length_slice [OF rng(2)] by (simp_all add: old_def)
    from True have "?rhs ! i = set_lru w 0
      (map (\<lambda>x. if b_lru x \<le> b_lru (old ! w) then x\<lparr>b_lru := b_lru x + 1\<rparr> else x) old) ! i"
      by simp
    also have "\<dots> = (if i = w then (old ! i)\<lparr>b_lru := 0\<rparr>
        else if b_lru (old ! i) \<le> b_lru (old ! w) then (old ! i)\<lparr>b_lru := b_lru (old ! i) + 1\<rparr>
        else old ! i)"
      using old(1) i assms(4) by (auto simp: nth_set_lru)
    finally show ?thesis
      using True i old(2,3) unfolding lhs acc by auto
  next
    case False
    then have "h \<and> t = WRITEBACK \<or> st * NUM_WAY + i < s * NUM_WAY
      \<or> s * NUM_WAY + NUM_WAY \<le> st * NUM_WAY + i"
      using slice_disjoint [of s st i NUM_WAY] i by blast
    then have "?lhs ! i = bs ! (st * NUM_WAY + i)"
      unfolding lhs acc by (simp only: if_True disj_assoc)
    moreover have "?rhs ! i = bs ! (st * NUM_WAY + i)"
      using nth_slice [OF rng(2) i] by (simp only: if_not_P [OF False] old_def)
    ultimately show ?thesis by simp
  qed
qed

lemma lru_access_only_lru:
  assumes "length bs = NUM_SET * NUM_WAY" "s < NUM_SET"
  shows "only_lru bs (lru_access NUM_WAY (s, w, t, h) bs)"
  using lru_update_only_lru [OF assms] by (simp add: lru_access_def)

lemma recency_snoc:
  "recency st (accs @ [(s, w, t, h)]) =
     (if s = st \<and> \<not> (h \<and> t = WRITEBACK) then touch w (recency st accs) else recency st accs)"
  by (auto simp: recency_def)

lemma lru_run_rep:
  assumes "length bs = NUM_SET * NUM_WAY" "NUM_WAY < 2 ^ 31" "st < NUM_SET"
    "\<forall>b \<in> set bs. b_lru b = 2 ^ 31 - 1"
  shows "\<forall>(s, w, t, h) \<in> set accs. s < NUM_SET \<and> w < NUM_WAY \<Longrightarrow>
    only_lru bs (fold (lru_access NUM_WAY) accs bs)
    \<and> lru_rep NUM_WAY (recency st accs)
        (slice (st * NUM_WAY) NUM_WAY (fold (lru_access NUM_WAY) accs bs))"
proof (induction accs rule: rev_induct)
  case Nil
  have "bs ! (st * NUM_WAY + i) \<in> set bs" if "i < NUM_WAY" for i
    using set_range [OF assms(3,1)] that by simp
  with set_range [OF assms(3,1)] assms(4) show ?case
    by (simp add: lru_rep_def recency_def recency_rank_def length_slice nth_slice)
next
  case (snoc a accs)
  obtain s w t h where a: "a = (s, w, t, h)" by (cases a)
  let ?b = "fold (lru_access NUM_WAY) accs bs"
  from snoc a have sw: "s < NUM_SET" "w < NUM_WAY" and
    ih: "only_lru bs ?b" "lru_rep NUM_WAY (recency st accs) (slice (st * NUM_WAY) NUM_WAY ?b)"
    by auto
  have len: "length ?b = NUM_SET * NUM_WAY" using only_lruD [OF ih(1)] assms(1) by simp
  show ?case
    using lru_access_only_lru [OF len sw(1)] lru_rep_update [OF ih(2) assms(2) sw(2)] ih
    by (auto simp: a recency_snoc lru_access_slice [OF len sw(1) assms(3) sw(2)]
        intro: only_lru_trans)
qed

section \<open>SRRIP\<close>

abbreviation (input) maxRRPV :: u32 where "maxRRPV \<equiv> 3"

text \<open>
  The loop of \<open>find_victim\<close> over the blocks of one set: age every block until
  one has the largest re-reference prediction value.  It ends on every set
  that has a block, at the latest when the counters wrap around.
\<close>

function rrip_victim :: "BLOCK list \<Rightarrow> nat \<times> BLOCK list" where
  "rrip_victim bs =
     (let victim = find_if (\<lambda>x. b_lru x = maxRRPV) bs in
      if victim = length bs \<and> bs \<noteq> []
      then rrip_victim (map (\<lambda>x. x\<lparr>b_lru := b_lru x + 1\<rparr>) bs)
      else (victim, bs))"
  by auto
termination
proof (relation "measure (\<lambda>bs. unat (maxRRPV - b_lru (hd bs)))")
  fix bs :: "BLOCK list" and victim
  assume "victim = find_if (\<lambda>x. b_lru x = maxRRPV) bs" "victim = length bs \<and> bs \<noteq> []"
  then have "bs \<noteq> []" "b_lru (hd bs) \<noteq> maxRRPV"
    using find_if_eq_length_iff [of "\<lambda>x. b_lru x = maxRRPV" bs] by auto
  then have "maxRRPV - b_lru (hd bs) \<noteq> 0" by auto
  from unat_minus_one [OF this] have "unat (maxRRPV - (b_lru (hd bs) + 1)) < unat (maxRRPV - b_lru (hd bs))"
    using \<open>maxRRPV - b_lru (hd bs) \<noteq> 0\<close>
    by (metis diff_diff_add diff_less less_one unat_gt_0)
  with \<open>bs \<noteq> []\<close> show "(map (\<lambda>x. x\<lparr>b_lru := b_lru x + 1\<rparr>) bs, bs)
      \<in> measure (\<lambda>bs. unat (maxRRPV - b_lru (hd bs)))"
    by (simp add: hd_map)
qed simp

declare rrip_victim.simps [simp del]

definition put_slice :: "nat \<Rightarrow> nat \<Rightarrow> 'a list \<Rightarrow> 'a list \<Rightarrow> 'a list" where
  "put_slice b n ys xs = take b xs @ ys @ drop (b + n) xs"

definition srrip_find_victim :: "nat \<Rightarrow> 's find_victim" where
  "srrip_find_victim NUM_WAY cpu instr_id st ip full_addr type = (\<lambda>(block, s).
     let (victim, ways) = rrip_victim (slice (st * NUM_WAY) NUM_WAY block)
     in (victim, put_slice (st * NUM_WAY) NUM_WAY ways block, s))"

definition srrip_initialize :: "BLOCK list \<Rightarrow> BLOCK list" where
  "srrip_initialize block = map (\<lambda>blk. blk\<lparr>b_lru := maxRRPV\<rparr>) block"

definition srrip_update :: "nat \<Rightarrow> unit update_replacement" where
  "srrip_update NUM_WAY cpu st way full_addr ip victim_addr type hit = (\<lambda>(block, s).
     if hit then (set_lru (st * NUM_WAY + way) 0 block, s)
     else (set_lru (st * NUM_WAY + way) (maxRRPV - 1) block, s))"

lemma rrip_victim_only_lru:
  "bs \<noteq> [] \<Longrightarrow> fst (rrip_victim bs) < length bs \<and> only_lru bs (snd (rrip_victim bs))"
proof (induction bs rule: rrip_victim.induct)
  case (1 bs)
  let ?aged = "map (\<lambda>x. x\<lparr>b_lru := b_lru x + 1\<rparr>) bs"
  have le: "find_if (\<lambda>x. b_lru x = maxRRPV) bs \<le> length bs" by (rule find_if_le)
  have aged: "only_lru bs ?aged" by (simp add: only_lru_def list_all2_conv_all_nth)
  show ?case
  proof (cases "find_if (\<lambda>x. b_lru x = maxRRPV) bs = length bs")
    case True
    with 1 have "fst (rrip_victim ?aged) < length ?aged \<and> only_lru ?aged (snd (rrip_victim ?aged))"
      by auto
    with True 1(2) aged show ?thesis
      by (subst (1 2) rrip_victim.simps) (auto intro: only_lru_trans)
  next
    case False
    with le show ?thesis by (subst (1 2) rrip_victim.simps) auto
  qed
qed

text \<open>
  With all counters in range, the victim is the first block whose counter is
  largest, and the whole set has aged by what that counter lacked.
\<close>

lemma rrip_victim_max:
  "bs \<noteq> [] \<Longrightarrow> \<forall>b \<in> set bs. unat (b_lru b) \<le> 3 \<Longrightarrow> m = Max (unat ` b_lru ` set bs) \<Longrightarrow>
   rrip_victim bs = (find_if (\<lambda>x. unat (b_lru x) = m) bs,
     map (\<lambda>x. x\<lparr>b_lru := b_lru x + of_nat (3 - m)\<rparr>) bs)"
proof (induction bs arbitrary: m rule: rrip_victim.induct)
  case (1 bs)
  let ?aged = "map (\<lambda>x. x\<lparr>b_lru := b_lru x + 1\<rparr>) bs"
  have three: "b_lru x = maxRRPV \<longleftrightarrow> unat (b_lru x) = 3" for x
    by (simp add: word_unat_eq_iff)
  have mem: "m \<in> unat ` b_lru ` set bs" using 1(2,4) by (simp add: Max_in)
  have ub: "unat (b_lru b) \<le> m" if "b \<in> set bs" for b using that 1(4) by simp
  show ?case
  proof (cases "find_if (\<lambda>x. b_lru x = maxRRPV) bs = length bs")
    case True
    then have lt: "\<forall>b \<in> set bs. unat (b_lru b) < 3"
      using 1(3) by (auto simp: find_if_eq_length_iff three le_less)
    have inc: "unat (b_lru b + 1) = unat (b_lru b) + 1" if "b \<in> set bs" for b
      using bspec [OF lt that] by (simp add: unat_word_ariths)
    have m: "m < 3" using mem lt by auto
    have "Suc m = Max (unat ` b_lru ` set ?aged)"
    proof (rule Max_eqI [symmetric])
      show "Suc m \<in> unat ` b_lru ` set ?aged" using mem inc by (force simp: image_iff)
      show "y \<le> Suc m" if "y \<in> unat ` b_lru ` set ?aged" for y
        using that ub inc by auto
    qed simp
    moreover have "\<forall>b \<in> set ?aged. unat (b_lru b) \<le> 3" using lt inc by auto
    ultimately have "rrip_victim ?aged = (find_if (\<lambda>x. unat (b_lru x) = Suc m) ?aged,
        map (\<lambda>x. x\<lparr>b_lru := b_lru x + of_nat (3 - Suc m)\<rparr>) ?aged)"
      using True 1(2) by (intro 1(1) [OF refl]) (simp_all only: list.map_disc_iff simp_thms)
    moreover have "find_if (\<lambda>x. unat (b_lru x) = Suc m) ?aged = find_if (\<lambda>x. unat (b_lru x) = m) bs"
      using inc by (auto simp: find_if_map comp_def intro!: find_if_cong)
    moreover have "1 + of_nat (3 - Suc m) = (of_nat (3 - m) :: u32)"
      using m by (simp add: of_nat_diff)
    ultimately show ?thesis
      using True 1(2) by (subst rrip_victim.simps) (simp add: add.assoc)
  next
    case False
    then obtain b where "b \<in> set bs" "unat (b_lru b) = 3"
      by (auto simp: find_if_eq_length_iff three)
    with ub [of b] have "3 \<le> m" by simp
    moreover have "m \<le> 3" using mem 1(3) by auto
    ultimately have "m = 3" by simp
    with False show ?thesis by (subst rrip_victim.simps) (simp add: three)
  qed
qed

lemma length_put_slice:
  "b + n \<le> length xs \<Longrightarrow> length ys = n \<Longrightarrow> length (put_slice b n ys xs) = length xs"
  by (simp add: put_slice_def)

lemma nth_put_slice:
  assumes "b + n \<le> length xs" "length ys = n" "i < length xs"
  shows "put_slice b n ys xs ! i = (if b \<le> i \<and> i < b + n then ys ! (i - b) else xs ! i)"
  using assms by (auto simp: put_slice_def nth_append min_def)

lemma only_lru_put_slice:
  assumes "b + n \<le> length bs" "only_lru (slice b n bs) ys"
  shows "only_lru bs (put_slice b n ys bs)"
proof -
  have len: "length ys = n" using only_lruD [OF assms(2)] length_slice [OF assms(1)] by simp
  have "same_but_lru (bs ! i) (ys ! (i - b))" if "b \<le> i" "i < b + n" for i
  proof -
    from that have "i - b < n" by simp
    with only_lruD [OF assms(2)] length_slice [OF assms(1)]
    have "same_but_lru (slice b n bs ! (i - b)) (ys ! (i - b))" by simp
    with nth_slice [OF assms(1) \<open>i - b < n\<close>] that show ?thesis by simp
  qed
  then show ?thesis
    using assms(1) len
    by (auto simp: only_lru_def list_all2_conv_all_nth length_put_slice nth_put_slice)
qed

lemma srrip_find_victim_contract:
  assumes "length bs = NUM_SET * NUM_WAY" "st < NUM_SET" "0 < NUM_WAY"
    "srrip_find_victim NUM_WAY cpu i st ip a t (bs, s) = (w, bs', s')"
  shows "w < NUM_WAY \<and> s' = s \<and> only_lru bs bs'"
proof -
  note rng = set_range [OF assms(2,1)]
  have "slice (st * NUM_WAY) NUM_WAY bs \<noteq> []"
    using assms(3) rng by (simp add: length_slice flip: length_greater_0_conv)
  from rrip_victim_only_lru [OF this] show ?thesis
    using assms(4) only_lru_put_slice [OF rng] length_slice [OF rng]
    by (auto simp: srrip_find_victim_def split: prod.splits)
qed

definition rrpv_inv :: "BLOCK list \<Rightarrow> bool" where
  "rrpv_inv bs \<longleftrightarrow> (\<forall>b \<in> set bs. unat (b_lru b) \<le> 3)"

lemma rrpv_inv_lrus: "rrpv_inv bs \<longleftrightarrow> (\<forall>l \<in> set (map b_lru bs). unat l \<le> 3)"
  by (simp add: rrpv_inv_def)

lemma rrpv_inv_set_lru:
  assumes "rrpv_inv bs" "unat v \<le> 3"
  shows "rrpv_inv (set_lru i v bs)"
proof -
  have "set (set_lru i v bs) \<subseteq> insert ((bs ! i)\<lparr>b_lru := v\<rparr>) (set bs)"
    by (simp add: set_lru_def set_update_subset_insert)
  with assms show ?thesis by (auto simp: rrpv_inv_def)
qed

lemma rrpv_inv_victim:
  assumes "bs \<noteq> []" "rrpv_inv bs"
  shows "rrpv_inv (snd (rrip_victim bs))"
proof -
  let ?m = "Max (unat ` b_lru ` set bs)"
  from assms have "?m \<in> unat ` b_lru ` set bs" by (simp add: Max_in)
  with assms(2) have m3: "?m \<le> 3" by (auto simp: rrpv_inv_def)
  have "unat (b_lru b + of_nat (3 - ?m)) \<le> 3" if "b \<in> set bs" for b
  proof -
    have "unat (b_lru b) \<le> ?m" using that by simp
    then have "unat (b_lru b) + (3 - ?m) \<le> 3" using m3 by simp
    moreover from this have "unat (b_lru b + of_nat (3 - ?m)) = unat (b_lru b) + (3 - ?m)"
      by (simp add: unat_word_ariths unat_of_nat)
    ultimately show ?thesis by simp
  qed
  with assms show ?thesis
    by (subst rrip_victim_max [OF assms(1) _ refl]) (auto simp: rrpv_inv_def)
qed

lemma rrpv_inv_put_slice:
  "rrpv_inv ys \<Longrightarrow> rrpv_inv bs \<Longrightarrow> rrpv_inv (put_slice b n ys bs)"
  by (auto simp: rrpv_inv_def put_slice_def dest: in_set_takeD in_set_dropD)

lemma srrip_find_victim_rrpv:
  assumes "rrpv_inv bs" "length bs = NUM_SET * NUM_WAY" "st < NUM_SET" "0 < NUM_WAY"
    "srrip_find_victim NUM_WAY cpu i st ip a t (bs, s) = (w, bs', s')"
  shows "rrpv_inv bs'"
proof -
  have "slice (st * NUM_WAY) NUM_WAY bs \<noteq> []"
    using assms(4) set_range [OF assms(3,2)] by (simp add: length_slice flip: length_greater_0_conv)
  moreover have "rrpv_inv (slice (st * NUM_WAY) NUM_WAY bs)"
    using assms(1) set_slice_subset [of "st * NUM_WAY" NUM_WAY bs] by (auto simp: rrpv_inv_def)
  ultimately show ?thesis
    using assms(1,5) rrpv_inv_victim rrpv_inv_put_slice
    by (fastforce simp: srrip_find_victim_def split: prod.splits)
qed

interpretation srrip_policy: replacement_policy NUM_SET NUM_WAY "\<lambda>(bs, _). rrpv_inv bs"
  "srrip_find_victim NUM_WAY" "srrip_update NUM_WAY" for NUM_SET NUM_WAY
proof unfold_locales
  fix bs bs' :: "BLOCK list" and s :: unit
  assume "case (bs, s) of (bs, _) \<Rightarrow> rrpv_inv bs" "map b_lru bs = map b_lru bs'"
  then show "case (bs', s) of (bs, _) \<Rightarrow> rrpv_inv bs" by (simp only: rrpv_inv_lrus prod.case)
next
  fix bs bs' :: "BLOCK list" and s s' :: unit and st w cpu t :: nat and i ip a :: u64
  assume "case (bs, s) of (bs, _) \<Rightarrow> rrpv_inv bs" "length bs = NUM_SET * NUM_WAY"
    "st < NUM_SET" "0 < NUM_WAY" "srrip_find_victim NUM_WAY cpu i st ip a t (bs, s) = (w, bs', s')"
  then show "w < NUM_WAY \<and> (case (bs', s') of (bs, _) \<Rightarrow> rrpv_inv bs) \<and> only_lru bs bs'"
    using srrip_find_victim_contract [of bs NUM_SET NUM_WAY st cpu i ip a t s w bs' s']
      srrip_find_victim_rrpv [of bs NUM_SET NUM_WAY st cpu i ip a t s w bs' s'] by auto
next
  fix bs bs' :: "BLOCK list" and s s' :: unit and st w cpu t :: nat and a ip v :: u64 and h
  assume "case (bs, s) of (bs, _) \<Rightarrow> rrpv_inv bs" "srrip_update NUM_WAY cpu st w a ip v t h (bs, s) = (bs', s')"
  then show "(case (bs', s') of (bs, _) \<Rightarrow> rrpv_inv bs) \<and> only_lru bs bs'"
    by (auto simp: srrip_update_def rrpv_inv_set_lru split: if_splits)
qed

section \<open>Properties\<close>

text \<open>
  C17: LRU evicts the least recently used way.  From a cache whose ranks are
  initial, after any sequence of accesses to any sets, the victim that
  \<open>find_victim\<close> chooses in a set of valid blocks is the first way never used,
  and once all ways have been used the one whose last use lies furthest back
  (a write back that hits does not count as a use).
\<close>

theorem lru_evicts_least_recently_used:
  assumes "length bs = NUM_SET * NUM_WAY" "0 < NUM_WAY" "NUM_WAY < 2 ^ 31" "st < NUM_SET"
    "\<forall>b \<in> set bs. b_valid b \<and> b_lru b = 2 ^ 31 - 1"
    "\<forall>(s, w, t, h) \<in> set accs. s < NUM_SET \<and> w < NUM_WAY"
  shows "fst (lru_find_victim NUM_WAY cpu i st ip a t (fold (lru_access NUM_WAY) accs bs, ()))
    = lru_victim_spec NUM_WAY (recency st accs)"
proof -
  let ?b = "fold (lru_access NUM_WAY) accs bs"
  from assms lru_run_rep [of bs NUM_SET NUM_WAY st accs] have
    r: "only_lru bs ?b" "lru_rep NUM_WAY (recency st accs) (slice (st * NUM_WAY) NUM_WAY ?b)"
    by auto
  have "b_valid b" if "b \<in> set ?b" for b
    using that only_lruD [OF r(1)] same_but_lruD(1) assms(5) by (metis in_set_conv_nth nth_mem)
  then have "\<forall>b \<in> set (slice (st * NUM_WAY) NUM_WAY ?b). b_valid b"
    using set_slice_subset [of "st * NUM_WAY" NUM_WAY ?b] by auto
  from lru_rep_victim [OF r(2) assms(2) this] show ?thesis
    by (simp add: lru_find_victim_def Let_def)
qed

theorem lru_evicts_least_recently_used_witness:
  "let bs = replicate 4 (BLOCK_new\<lparr>b_valid := True\<rparr>);
       accs = [(1, 0, LOAD, False), (1, 1, LOAD, False), (0, 1, LOAD, True), (1, 0, RFO, True)]
   in fst (lru_find_victim 2 0 0 1 0 0 LOAD (fold (lru_access 2) accs bs, ())) = 1"
proof -
  let ?bs = "replicate 4 (BLOCK_new\<lparr>b_valid := True\<rparr>)"
  let ?accs = "[(1, 0, LOAD, False), (1, 1, LOAD, False), (0, 1, LOAD, True), (1, 0, RFO, True)]"
  have "fst (lru_find_victim 2 0 0 1 0 0 LOAD (fold (lru_access 2) ?accs ?bs, ()))
      = lru_victim_spec 2 (recency 1 ?accs)"
    by (rule lru_evicts_least_recently_used [of _ 2])
      (auto simp: BLOCK_new_def mask_eq_exp_minus_1)
  then show ?thesis
    by (simp add: Let_def lru_victim_spec_def recency_def touch_def)
qed

text \<open>
  C18: On a set whose counters are at most 3, as \<open>initialize_replacement\<close> and
  \<open>update_replacement_state\<close> leave them, SRRIP's search for a victim ends,
  chooses the first block with the largest counter, and ages every block of
  the set by the same amount, so that the victim's counter is 3 and the order
  of the blocks is kept.
\<close>

theorem srrip_victim_is_most_distant:
  assumes "ways \<noteq> []" "rrpv_inv ways"
  defines "m \<equiv> Max (unat ` b_lru ` set ways)"
  shows "rrip_victim ways = (find_if (\<lambda>x. unat (b_lru x) = m) ways,
      map (\<lambda>x. x\<lparr>b_lru := b_lru x + of_nat (3 - m)\<rparr>) ways)
    \<and> fst (rrip_victim ways) < length ways \<and> rrpv_inv (snd (rrip_victim ways))"
  using rrip_victim_max [OF assms(1) _ refl] rrpv_inv_victim [OF assms(1,2)]
    rrip_victim_only_lru [OF assms(1)] assms(2)
  by (simp add: rrpv_inv_def m_def)

theorem srrip_victim_is_most_distant_witness:
  "let ways = map (\<lambda>v. BLOCK_new\<lparr>b_lru := v\<rparr>) [0, 2, 1, 2]
   in fst (rrip_victim ways) = 1 \<and> map b_lru (snd (rrip_victim ways)) = [1, 3, 2, 3]"
proof -
  let ?ways = "map (\<lambda>v. BLOCK_new\<lparr>b_lru := v\<rparr>) [0, 2, 1, 2]"
  have "?ways \<noteq> []" "rrpv_inv ?ways" by (simp_all add: rrpv_inv_def)
  from srrip_victim_is_most_distant [OF this] show ?thesis
    by (simp add: Let_def)
qed

end
