(* ===== verification/Drrip.thy ===== *)
theory Drrip
  imports Replacement
begin

text \<open>
  The set-duelling policy of \<open>replacement/drrip/drrip.cc\<close>: the random choice of
  the sampler sets, the insertion rules of the leader and follower sets, and
  the counters that choose between them.  The search for a victim is the one of
  SRRIP.  The file-scope maps keyed by cache are fields of the policy's state.
\<close>

section \<open>State and operations\<close>

record drrip =
  bip_counter :: u32
  rand_sets :: "nat list"
  PSEL :: "nat \<Rightarrow> u32"

abbreviation (input) NUM_POLICY :: nat where "NUM_POLICY \<equiv> 2"
abbreviation (input) SDM_SIZE :: nat where "SDM_SIZE \<equiv> 32"
abbreviation (input) BIP_MAX :: u32 where "BIP_MAX \<equiv> 32"
abbreviation (input) PSEL_MAX :: u32 where "PSEL_MAX \<equiv> 1023"
abbreviation (input) PSEL_THRS :: u32 where "PSEL_THRS \<equiv> 511"

definition next_seed :: "u64 \<Rightarrow> u64" where
  "next_seed seed = seed * 1103515245 + 12345"

definition seed_val :: "nat \<Rightarrow> u64 \<Rightarrow> nat" where
  "seed_val NUM_SET seed = (unat seed div 65536) mod NUM_SET"

definition lower_bound :: "nat \<Rightarrow> nat list \<Rightarrow> nat" where
  "lower_bound val xs = partition_point (\<lambda>x. x < val) xs"

text \<open>
  The inner loop draws until the set is a new one; with fewer sets than
  samples it does not end, so it runs on fuel.
\<close>

primrec draw_set :: "nat \<Rightarrow> nat \<Rightarrow> nat list \<Rightarrow> u64 \<Rightarrow> (nat \<times> u64) option" where
  "draw_set 0 NUM_SET sets seed = None"
| "draw_set (Suc fuel) NUM_SET sets seed =
     (let val = seed_val NUM_SET seed; loc = lower_bound val sets in
      if loc \<noteq> length sets \<and> sets ! loc = val then draw_set fuel NUM_SET sets (next_seed seed)
      else Some (val, seed))"

fun sample_sets :: "nat \<Rightarrow> nat \<Rightarrow> nat \<Rightarrow> nat list \<Rightarrow> u64 \<Rightarrow> nat list option" where
  "sample_sets fuel NUM_SET 0 sets seed = Some sets"
| "sample_sets fuel NUM_SET (Suc n) sets seed =
     (case draw_set fuel NUM_SET sets seed of
        None \<Rightarrow> None
      | Some (val, seed) \<Rightarrow>
          let loc = lower_bound val sets
          in sample_sets fuel NUM_SET n (take loc sets @ val # drop loc sets) seed)"

definition drrip_initialize :: "nat \<Rightarrow> nat \<Rightarrow> nat \<Rightarrow> drrip option" where
  "drrip_initialize fuel cpus NUM_SET =
     (case sample_sets fuel NUM_SET (cpus * NUM_POLICY * SDM_SIZE) [] (1103515245 + 12345) of
        None \<Rightarrow> None
      | Some sets \<Rightarrow> Some \<lparr>bip_counter = 0, rand_sets = sets, PSEL = (\<lambda>_. 0)\<rparr>)"

text \<open>Bimodal insertion: distant, except once in \<open>BIP_MAX\<close> times.\<close>

definition bip_insert :: "nat \<Rightarrow> BLOCK list \<times> drrip \<Rightarrow> BLOCK list \<times> drrip" where
  "bip_insert i = (\<lambda>(block, s).
     let block = set_lru i maxRRPV block;
         c = bip_counter s + 1;
         c = (if c = BIP_MAX then 0 else c);
         block = (if c = 0 then set_lru i (maxRRPV - 1) block else block)
     in (block, s\<lparr>bip_counter := c\<rparr>))"

definition drrip_update :: "nat \<Rightarrow> drrip update_replacement" where
  "drrip_update NUM_WAY cpu st way full_addr ip victim_addr type hit = (\<lambda>(block, s).
     let i = st * NUM_WAY + way in
     if type = WRITEBACK then (set_lru i (maxRRPV - 1) block, s)
     else if hit then (set_lru i 0 block, s)
     else
       let sdm = slice (cpu * NUM_POLICY * SDM_SIZE) (NUM_POLICY * SDM_SIZE) (rand_sets s);
           leader = find_if ((=) st) sdm
       in if leader = length sdm then
            if PSEL s cpu > PSEL_THRS then bip_insert i (block, s)
            else (set_lru i (maxRRPV - 1) block, s)
          else if leader = 0 then
            bip_insert i (block,
              if PSEL s cpu > 0 then s\<lparr>PSEL := (PSEL s)(cpu := PSEL s cpu - 1)\<rparr> else s)
          else if leader = 1 then
            (set_lru i (maxRRPV - 1) block,
              if PSEL s cpu < PSEL_MAX then s\<lparr>PSEL := (PSEL s)(cpu := PSEL s cpu + 1)\<rparr> else s)
          else (block, s))"

section \<open>Sampler sets\<close>

lemma lower_bound_parts:
  assumes "sorted xs"
  shows "lower_bound v xs \<le> length xs" "\<And>x. x \<in> set (take (lower_bound v xs) xs) \<Longrightarrow> x < v"
    "\<And>x. x \<in> set (drop (lower_bound v xs) xs) \<Longrightarrow> v \<le> x"
proof -
  have s: "sorted_wrt (\<lambda>x y. y < v \<longrightarrow> x < v) xs"
    using assms by (rule sorted_wrt_mono_rel [rotated]) auto
  from partition_point_takeWhile [OF this] have
    k: "lower_bound v xs = length (takeWhile (\<lambda>x. x < v) xs)" by (simp add: lower_bound_def)
  show "lower_bound v xs \<le> length xs" by (simp add: k length_takeWhile_le)
  show "x < v" if "x \<in> set (take (lower_bound v xs) xs)" for x
    using that by (auto simp: k takeWhile_eq_take [symmetric] dest: set_takeWhileD)
  show "v \<le> x" if "x \<in> set (drop (lower_bound v xs) xs)" for x
    using that dropWhile_not [OF s, of x] by (simp add: k dropWhile_eq_drop [symmetric] not_less)
qed

lemma lower_bound_found:
  assumes "sorted xs" "v \<in> set xs"
  shows "lower_bound v xs < length xs \<and> xs ! lower_bound v xs = v"
proof -
  let ?l = "lower_bound v xs"
  note lb = lower_bound_parts [OF assms(1), where v = v]
  have "set xs = set (take ?l xs) \<union> set (drop ?l xs)"
    by (metis append_take_drop_id set_append)
  with assms(2) lb(2) [of v] have v: "v \<in> set (drop ?l xs)" by auto
  then have l: "?l < length xs" by (cases "?l < length xs") auto
  then have "drop ?l xs = xs ! ?l # drop (Suc ?l) xs" by (simp add: Cons_nth_drop_Suc)
  moreover have "sorted (drop ?l xs)" using assms(1) by (rule sorted_wrt_drop)
  ultimately have "xs ! ?l \<le> v" "xs ! ?l \<in> set (drop ?l xs)" using v by auto
  with lb(3) [of "xs ! ?l"] have "xs ! ?l = v" by auto
  with l show ?thesis by simp
qed

lemma draw_set_fresh:
  assumes "sorted sets" "0 < NUM_SET"
  shows "draw_set fuel NUM_SET sets seed = Some (val, seed') \<Longrightarrow> val \<notin> set sets \<and> val < NUM_SET"
proof (induction fuel arbitrary: seed)
  case (Suc fuel)
  let ?v = "seed_val NUM_SET seed"
  show ?case
  proof (cases "lower_bound ?v sets \<noteq> length sets \<and> sets ! lower_bound ?v sets = ?v")
    case True
    with Suc show ?thesis by simp
  next
    case False
    with Suc.prems have "val = ?v" by (auto simp: Let_def split: if_splits)
    with False lower_bound_found [OF assms(1), of ?v] assms(2) show ?thesis
      by (auto simp: seed_val_def)
  qed
qed simp

definition sampled :: "nat \<Rightarrow> nat list \<Rightarrow> bool" where
  "sampled NUM_SET sets \<longleftrightarrow> sorted sets \<and> distinct sets \<and> (\<forall>s \<in> set sets. s < NUM_SET)"

lemma sampled_insert:
  assumes "sampled NUM_SET sets" "v \<notin> set sets" "v < NUM_SET"
  defines "l \<equiv> lower_bound v sets"
  shows "sampled NUM_SET (take l sets @ v # drop l sets)"
proof -
  from assms have s: "sorted sets" "distinct sets" by (auto simp: sampled_def)
  note lb = lower_bound_parts [OF s(1), where v = v, folded l_def]
  have set: "set (take l sets) \<union> set (drop l sets) = set sets"
    by (metis append_take_drop_id set_append)
  have "set (take l sets) \<inter> set (drop l sets) = {}"
    using s(2) by (simp add: set_take_disj_set_drop_if_distinct)
  then have "distinct (take l sets @ v # drop l sets)" using assms(2) set s(2) by auto
  moreover have "x \<le> y" if "x \<in> set (take l sets)" "y \<in> set (drop l sets)" for x y
    using lb(2) [OF that(1)] lb(3) [OF that(2)] by simp
  then have "sorted (take l sets @ v # drop l sets)"
    using s(1) lb by (auto simp: sorted_append less_imp_le sorted_wrt_take sorted_wrt_drop)
  ultimately show ?thesis
    using assms(1,3) set by (auto simp: sampled_def)
qed

lemma sample_sets_sampled:
  "sampled NUM_SET sets \<Longrightarrow> 0 < NUM_SET \<Longrightarrow> sample_sets fuel NUM_SET n sets seed = Some r \<Longrightarrow>
   sampled NUM_SET r \<and> length r = length sets + n"
proof (induction n arbitrary: sets seed)
  case (Suc n)
  then obtain v seed' where d: "draw_set fuel NUM_SET sets seed = Some (v, seed')"
    and r: "sample_sets fuel NUM_SET n
      (take (lower_bound v sets) sets @ v # drop (lower_bound v sets) sets) seed' = Some r"
    by (auto simp: Let_def split: option.splits)
  have "v \<notin> set sets" "v < NUM_SET"
    using draw_set_fresh [OF _ Suc.prems(2) d] Suc.prems(1) by (auto simp: sampled_def)
  from Suc.IH [OF sampled_insert [OF Suc.prems(1) this] Suc.prems(2) r] show ?case by auto
qed simp

section \<open>Counters\<close>

definition drrip_inv :: "drrip \<Rightarrow> bool" where
  "drrip_inv s \<longleftrightarrow> bip_counter s < BIP_MAX \<and> (\<forall>c. PSEL s c \<le> PSEL_MAX)"

lemma bip_insert_contract:
  assumes "bip_insert i (bs, s) = (bs', s')"
  shows "only_lru bs bs'" "PSEL s' = PSEL s" "rand_sets s' = rand_sets s"
    "bip_counter s < BIP_MAX \<Longrightarrow> bip_counter s' < BIP_MAX"
proof -
  have "c + 1 \<noteq> (32 :: u32) \<Longrightarrow> c < 32 \<Longrightarrow> c + 1 < (32 :: u32)" for c :: u32
    by (metis inc_le word_le_less_eq)
  with assms show "bip_counter s < BIP_MAX \<Longrightarrow> bip_counter s' < BIP_MAX"
    by (auto simp: bip_insert_def Let_def split: if_splits)
qed (use assms in \<open>auto simp: bip_insert_def Let_def intro: only_lru_trans split: if_splits\<close>)

lemma psel_dec: "p \<le> PSEL_MAX \<Longrightarrow> 0 < p \<Longrightarrow> p - 1 \<le> (PSEL_MAX :: u32)"
  using unat_minus_one [of p] by (auto simp: word_le_nat_alt word_gt_0)

lemma psel_inc: "p < PSEL_MAX \<Longrightarrow> p + 1 \<le> (PSEL_MAX :: u32)"
  by (rule inc_le)

lemma drrip_update_contract:
  assumes "drrip_inv s" "drrip_update NUM_WAY cpu st w a ip v t h (bs, s) = (bs', s')"
  shows "drrip_inv s'" "only_lru bs bs'"
proof -
  show "drrip_inv s'"
    using assms psel_dec psel_inc
    by (auto simp: drrip_update_def Let_def drrip_inv_def dest: bip_insert_contract(2,4) split: if_splits)
  show "only_lru bs bs'"
    using assms(2) by (auto simp: drrip_update_def Let_def dest: bip_insert_contract(1) split: if_splits)
qed

interpretation drrip_policy: replacement_policy NUM_SET NUM_WAY "\<lambda>(_, s). drrip_inv s"
  "srrip_find_victim NUM_WAY" "drrip_update NUM_WAY" for NUM_SET NUM_WAY
proof unfold_locales
  fix bs bs' :: "BLOCK list" and s s' :: drrip and st w cpu t :: nat and i ip a :: u64
  assume "case (bs, s) of (_, s) \<Rightarrow> drrip_inv s" "length bs = NUM_SET * NUM_WAY"
    "st < NUM_SET" "0 < NUM_WAY" "srrip_find_victim NUM_WAY cpu i st ip a t (bs, s) = (w, bs', s')"
  then show "w < NUM_WAY \<and> (case (bs', s') of (_, s) \<Rightarrow> drrip_inv s) \<and> only_lru bs bs'"
    using srrip_find_victim_contract [of bs NUM_SET NUM_WAY st cpu i ip a t s w bs' s'] by auto
next
  fix bs bs' :: "BLOCK list" and s s' :: drrip and st w cpu t :: nat and a ip v :: u64 and h
  assume "case (bs, s) of (_, s) \<Rightarrow> drrip_inv s" "drrip_update NUM_WAY cpu st w a ip v t h (bs, s) = (bs', s')"
  then show "(case (bs', s') of (_, s) \<Rightarrow> drrip_inv s) \<and> only_lru bs bs'"
    using drrip_update_contract [of s NUM_WAY cpu st w a ip v t h bs bs' s'] by simp
qed simp

section \<open>Properties\<close>



end
