(* ===== verification/Ship.thy ===== *)
theory Ship
  imports Drrip
begin

text \<open>
  The signature-based policy of \<open>replacement/ship/ship.cc\<close>: a sampler that
  follows some sets and trains a table of counters indexed by the instruction
  pointer, which decides the counter a filled block starts with.  The choice of
  the sampler sets and the search for a victim are those of DRRIP and SRRIP.
\<close>

section \<open>State and operations\<close>

record SAMPLER =
  s_valid :: bool
  s_type :: nat
  s_used :: bool
  s_address :: u64
  s_cl_addr :: u64
  s_ip :: u64
  s_lru :: u32

definition SAMPLER_new :: SAMPLER where
  "SAMPLER_new = \<lparr>s_valid = False, s_type = 0, s_used = False, s_address = 0, s_cl_addr = 0, s_ip = 0,
     s_lru = 9999999\<rparr>"

record ship =
  ship_rand_sets :: "nat list"
  sampler :: "SAMPLER list"
  SHCT :: "nat \<Rightarrow> nat \<Rightarrow> u32"

abbreviation (input) SHCT_PRIME :: nat where "SHCT_PRIME \<equiv> 16381"
abbreviation (input) SHCT_MAX :: u32 where "SHCT_MAX \<equiv> 7"

definition ship_initialize :: "nat \<Rightarrow> nat \<Rightarrow> nat \<Rightarrow> nat \<Rightarrow> ship option" where
  "ship_initialize fuel cpus NUM_SET NUM_WAY =
     (case sample_sets fuel NUM_SET (256 * cpus) [] (1103515245 + 12345) of
        None \<Rightarrow> None
      | Some sets \<Rightarrow> Some \<lparr>ship_rand_sets = sets, sampler = replicate (256 * cpus * NUM_WAY) SAMPLER_new,
                          SHCT = (\<lambda>_ _. 0)\<rparr>)"

definition SHCT_idx :: "u64 \<Rightarrow> nat" where
  "SHCT_idx ip = unat ip mod SHCT_PRIME"

definition set_SHCT :: "nat \<Rightarrow> nat \<Rightarrow> u32 \<Rightarrow> ship \<Rightarrow> ship" where
  "set_SHCT cpu idx v s = s\<lparr>SHCT := (SHCT s)(cpu := (SHCT s cpu)(idx := v))\<rparr>"

text \<open>
  Lines 84 to 118.  The range of a sampler set starts at the index of the set
  in \<open>rand_sets\<close>, without a factor \<open>NUM_WAY\<close>.
\<close>

definition ship_train :: "nat \<Rightarrow> nat \<Rightarrow> nat \<Rightarrow> u64 \<Rightarrow> u64 \<Rightarrow> nat \<Rightarrow> ship \<Rightarrow> ship" where
  "ship_train NUM_WAY cpu st full_addr ip type s =
     (let s_idx = find_if ((=) st) (ship_rand_sets s) in
      if s_idx = length (ship_rand_sets s) then s
      else
        let ways = slice s_idx NUM_WAY (sampler s);
            hit_way = find_if (eq_addr s_valid s_address full_addr (8 + lg2 NUM_WAY)) ways;
            (match, s, e) =
              (if hit_way \<noteq> length ways then
                 let e = ways ! hit_way;
                     c = SHCT s cpu (SHCT_idx (s_ip e));
                     s = (if c > 0 then set_SHCT cpu (SHCT_idx (s_ip e)) (c - 1) s else s)
                 in (hit_way, s, e\<lparr>s_type := type, s_used := True\<rparr>)
               else
                 let victim = max_element (lru_comparator s_valid s_lru) ways;
                     e = ways ! victim;
                     c = SHCT s cpu (SHCT_idx (s_ip e));
                     s = (if s_used e \<and> c < SHCT_MAX then set_SHCT cpu (SHCT_idx (s_ip e)) (c + 1) s else s)
                 in (victim, s, e\<lparr>s_valid := True, s_address := full_addr, s_ip := ip, s_type := type,
                                  s_used := False\<rparr>));
            ways = map (\<lambda>x. x\<lparr>s_lru := s_lru x + 1\<rparr>) (ways[match := e]);
            ways = ways[match := (ways ! match)\<lparr>s_lru := 0\<rparr>]
        in s\<lparr>sampler := put_slice s_idx NUM_WAY ways (sampler s)\<rparr>)"

definition ship_update :: "nat \<Rightarrow> ship update_replacement" where
  "ship_update NUM_WAY cpu st way full_addr ip victim_addr type hit = (\<lambda>(block, s).
     let i = st * NUM_WAY + way in
     if type = WRITEBACK then (if hit then block else set_lru i (maxRRPV - 1) block, s)
     else
       let s = ship_train NUM_WAY cpu st full_addr ip type s in
       if hit then (set_lru i 0 block, s)
       else
         let block = set_lru i (maxRRPV - 1) block;
             block = (if SHCT s cpu (SHCT_idx ip) = SHCT_MAX then set_lru i maxRRPV block else block)
         in (block, s))"

section \<open>Contract\<close>

definition ship_inv :: "ship \<Rightarrow> bool" where
  "ship_inv s \<longleftrightarrow> (\<forall>c k. SHCT s c k \<le> SHCT_MAX)"

lemma ship_inv_set:
  "ship_inv s \<Longrightarrow> v \<le> SHCT_MAX \<Longrightarrow> ship_inv (set_SHCT cpu k v s)"
  by (simp add: ship_inv_def set_SHCT_def)

lemma ship_inv_sampler [simp]: "ship_inv (s\<lparr>sampler := xs\<rparr>) = ship_inv s"
  by (simp add: ship_inv_def)

lemma shct_dec: "p \<le> SHCT_MAX \<Longrightarrow> 0 < p \<Longrightarrow> p - 1 \<le> (SHCT_MAX :: u32)"
  using unat_minus_one [of p] by (auto simp: word_le_nat_alt word_gt_0)

lemma shct_inc: "p < SHCT_MAX \<Longrightarrow> p + 1 \<le> (SHCT_MAX :: u32)"
  by (rule inc_le)

lemma ship_train_inv:
  assumes "ship_inv s"
  shows "ship_inv (ship_train NUM_WAY cpu st a ip t s)"
proof -
  have le: "SHCT s c k \<le> SHCT_MAX" for c k using assms by (simp add: ship_inv_def)
  show ?thesis
    using assms le
    by (auto simp: ship_train_def Let_def intro!: ship_inv_set shct_dec shct_inc split: if_splits)
qed

lemma ship_update_contract:
  assumes "ship_inv s" "ship_update NUM_WAY cpu st w a ip v t h (bs, s) = (bs', s')"
  shows "ship_inv s'" "only_lru bs bs'"
  using assms ship_train_inv [OF assms(1)]
  by (auto simp: ship_update_def Let_def intro: only_lru_trans split: if_splits)

interpretation ship_policy: replacement_policy NUM_SET NUM_WAY "\<lambda>(_, s). ship_inv s"
  "srrip_find_victim NUM_WAY" "ship_update NUM_WAY" for NUM_SET NUM_WAY
proof unfold_locales
  fix bs bs' :: "BLOCK list" and s s' :: ship and st w cpu t :: nat and i ip a :: u64
  assume "case (bs, s) of (_, s) \<Rightarrow> ship_inv s" "length bs = NUM_SET * NUM_WAY"
    "st < NUM_SET" "0 < NUM_WAY" "srrip_find_victim NUM_WAY cpu i st ip a t (bs, s) = (w, bs', s')"
  then show "w < NUM_WAY \<and> (case (bs', s') of (_, s) \<Rightarrow> ship_inv s) \<and> only_lru bs bs'"
    using srrip_find_victim_contract [of bs NUM_SET NUM_WAY st cpu i ip a t s w bs' s'] by auto
next
  fix bs bs' :: "BLOCK list" and s s' :: ship and st w cpu t :: nat and a ip v :: u64 and h
  assume "case (bs, s) of (_, s) \<Rightarrow> ship_inv s" "ship_update NUM_WAY cpu st w a ip v t h (bs, s) = (bs', s')"
  then show "(case (bs', s') of (_, s) \<Rightarrow> ship_inv s) \<and> only_lru bs bs'"
    using ship_update_contract [of s NUM_WAY cpu st w a ip v t h bs bs' s'] by simp
qed simp

section \<open>Property\<close>

text \<open>
  C20: SHiP inserts by prediction and its counters stay in range: after an
  access that is not a write back, the counter of the accessed block is 0 on a
  hit, and on a miss 3 exactly when the table, trained by this access, predicts
  no reuse for the instruction (its entry is 7), and 2 otherwise; no other
  block changes, and every entry of the table stays at most 7.
\<close>

theorem ship_inserts_by_prediction:
  assumes "type \<noteq> WRITEBACK" "st * NUM_WAY + way < length bs" "ship_inv s"
    "ship_update NUM_WAY cpu st way a ip v type hit (bs, s) = (bs', s')"
  shows "b_lru (bs' ! (st * NUM_WAY + way)) =
      (if hit then 0 else if SHCT s' cpu (unat ip mod 16381) = 7 then 3 else 2)
    \<and> (\<forall>j < length bs. j \<noteq> st * NUM_WAY + way \<longrightarrow> bs' ! j = bs ! j)
    \<and> (\<forall>c k. SHCT s' c k \<le> 7)"
proof -
  have "\<forall>c k. SHCT s' c k \<le> 7"
    using ship_update_contract(1) [OF assms(3,4)] by (simp add: ship_inv_def)
  with assms(1,2,4) show ?thesis
    by (auto simp: ship_update_def Let_def SHCT_idx_def nth_set_lru split: if_splits)
qed

theorem ship_inserts_by_prediction_witness:
  "let s = \<lparr>ship_rand_sets = [1], sampler = replicate 2 SAMPLER_new, SHCT = (\<lambda>_ _. 7)\<rparr>
   in \<exists>bs' s'. ship_update 2 0 1 0 64 5 0 LOAD False (replicate 4 BLOCK_new, s) = (bs', s')
      \<and> b_lru (bs' ! 2) = (if SHCT s' 0 5 = 7 then 3 else 2)"
proof -
  let ?s = "\<lparr>ship_rand_sets = [1], sampler = replicate 2 SAMPLER_new, SHCT = (\<lambda>_ _. 7)\<rparr>"
  obtain bs' s' where r: "ship_update 2 0 1 0 64 5 0 LOAD False (replicate 4 BLOCK_new, ?s) = (bs', s')"
    by (cases "ship_update 2 0 1 0 64 5 0 LOAD False (replicate 4 BLOCK_new, ?s)")
  have "ship_inv ?s" by (simp add: ship_inv_def)
  with ship_inserts_by_prediction [OF _ _ _ r] show ?thesis
    using r by auto
qed

end
