(* ===== verification/VirtualMemory.thy ===== *)
theory VirtualMemory
  imports Memory "HOL-Library.Multiset"
begin

text \<open>
  The allocator of physical pages and page table pages, \<open>inc/vmem.h\<close> and
  \<open>src/vmem.cc\<close>.  \<open>std::shuffle\<close> with a seeded generator is the parameter
  \<open>shuffle\<close>, of which only that it permutes its argument is used.  The two
  \<open>std::map\<close>s are maps; \<open>insert\<close> returns the entry that is there, or the new
  one, and whether it was new.
\<close>

section \<open>State and operations\<close>

record VirtualMemory =
  vpage_to_ppage_map :: "nat \<times> u64 \<rightharpoonup> u64"
  page_table :: "nat \<times> u64 \<times> nat \<rightharpoonup> u64"
  next_pte_page :: u64
  minor_fault_penalty :: u64
  pt_levels :: nat
  page_size :: nat
  ppage_free_list :: "u64 list"

abbreviation (input) VMEM_RESERVE_CAPACITY :: nat where "VMEM_RESERVE_CAPACITY \<equiv> 1048576"
abbreviation (input) PTE_BYTES :: nat where "PTE_BYTES \<equiv> 8"

fun partial_sum :: "u64 \<Rightarrow> u64 list \<Rightarrow> u64 list" where
  "partial_sum acc [] = []"
| "partial_sum acc (x # xs) = (acc + x) # partial_sum (acc + x) xs"

definition populate :: "constants \<Rightarrow> nat \<Rightarrow> u64 list" where
  "populate c capacity =
     (case replicate ((capacity - VMEM_RESERVE_CAPACITY) div PAGE_SIZE c) (of_nat (PAGE_SIZE c)) of
        [] \<Rightarrow> []
      | _ # xs \<Rightarrow> partial_sum 0 (of_nat VMEM_RESERVE_CAPACITY # xs))"

definition VirtualMemory_new ::
  "constants \<Rightarrow> (u64 \<Rightarrow> u64 list \<Rightarrow> u64 list) \<Rightarrow> nat \<Rightarrow> nat \<Rightarrow> nat \<Rightarrow> u64 \<Rightarrow> u64 \<Rightarrow> VirtualMemory result" where
  "VirtualMemory_new c shuffle capacity pg_size levels seed penalty =
     bindE (assertE ''capacity % PAGE_SIZE == 0'' (capacity mod PAGE_SIZE c = 0)) (\<lambda>_.
     bindE (assertE ''pg_size == (1ul << lg2(pg_size)) && pg_size > 1024''
              (pg_size = 2 ^ lg2 pg_size \<and> 1024 < pg_size)) (\<lambda>_.
     case shuffle seed (populate c capacity) of
       [] \<Rightarrow> Inl (Undefined ''front() of an empty free list'')
     | p # ps \<Rightarrow> Inr \<lparr>vpage_to_ppage_map = Map.empty, page_table = Map.empty, next_pte_page = p,
                     minor_fault_penalty = penalty, pt_levels = levels, page_size = pg_size,
                     ppage_free_list = ps\<rparr>))"

definition shamt :: "constants \<Rightarrow> VirtualMemory \<Rightarrow> nat \<Rightarrow> nat" where
  "shamt c vm level = LOG2_PAGE_SIZE c + lg2 (page_size vm div PTE_BYTES) * level"

definition get_offset :: "constants \<Rightarrow> VirtualMemory \<Rightarrow> u64 \<Rightarrow> nat \<Rightarrow> u64" where
  "get_offset c vm vaddr level =
     drop_bit (shamt c vm level) vaddr AND bitmask (lg2 (page_size vm div PTE_BYTES)) 0"

definition va_to_pa :: "constants \<Rightarrow> nat \<Rightarrow> u64 \<Rightarrow> VirtualMemory \<Rightarrow> (u64 \<times> bool \<times> VirtualMemory) result" where
  "va_to_pa c cpu_num vaddr vm =
     (case ppage_free_list vm of
        [] \<Rightarrow> Inl (Undefined ''front() of an empty free list'')
      | front # rest \<Rightarrow>
          let key = (cpu_num, drop_bit (LOG2_PAGE_SIZE c) vaddr) in
          (case vpage_to_ppage_map vm key of
             Some ppage \<Rightarrow> Inr (splice_bits ppage vaddr (LOG2_PAGE_SIZE c), False, vm)
           | None \<Rightarrow> Inr (splice_bits front vaddr (LOG2_PAGE_SIZE c), True,
                       vm\<lparr>vpage_to_ppage_map := (vpage_to_ppage_map vm)(key \<mapsto> front),
                          ppage_free_list := rest\<rparr>)))"

definition get_pte_pa :: "constants \<Rightarrow> nat \<Rightarrow> u64 \<Rightarrow> nat \<Rightarrow> VirtualMemory \<Rightarrow> (u64 \<times> bool \<times> VirtualMemory) result" where
  "get_pte_pa c cpu_num vaddr level vm =
     (let key = (cpu_num, drop_bit (shamt c vm (level + 1)) vaddr, level);
          pa = (\<lambda>ppage. splice_bits ppage (get_offset c vm vaddr level * of_nat PTE_BYTES) (lg2 (page_size vm)))
      in case page_table vm key of
           Some ppage \<Rightarrow> Inr (pa ppage, False, vm)
         | None \<Rightarrow>
             let ppage = next_pte_page vm;
                 vm = vm\<lparr>page_table := (page_table vm)(key \<mapsto> ppage),
                         next_pte_page := ppage + of_nat (page_size vm)\<rparr>
             in if unat (next_pte_page vm) mod PAGE_SIZE c \<noteq> 0 then
                  (case ppage_free_list vm of
                     [] \<Rightarrow> Inl (Undefined ''front() of an empty free list'')
                   | front # rest \<Rightarrow>
                       Inr (pa ppage, True, vm\<lparr>next_pte_page := front, ppage_free_list := rest\<rparr>))
                else Inr (pa ppage, True, vm))"

section \<open>The free list\<close>

lemma partial_sum_replicate:
  "partial_sum acc (replicate n p) = map (\<lambda>i. acc + of_nat (Suc i) * p) [0..<n]"
proof (induction n arbitrary: acc)
  case (Suc n)
  have "[0..<Suc n] = 0 # map Suc [0..<n]" by (simp add: map_Suc_upt upt_conv_Cons)
  with Suc show ?case by (simp add: algebra_simps comp_def del: upt_Suc)
qed simp

lemma populate_pages:
  "populate c capacity = map (\<lambda>i. of_nat (VMEM_RESERVE_CAPACITY + i * PAGE_SIZE c))
     [0..<(capacity - VMEM_RESERVE_CAPACITY) div PAGE_SIZE c]"
proof (cases "(capacity - VMEM_RESERVE_CAPACITY) div PAGE_SIZE c")
  case (Suc n)
  have "[0..<Suc n] = 0 # map Suc [0..<n]" by (simp add: map_Suc_upt upt_conv_Cons)
  with Suc show ?thesis
    by (simp add: populate_def partial_sum_replicate comp_def algebra_simps del: upt_Suc)
qed (simp add: populate_def)

lemma reserve_page_bound:
  assumes "i < (capacity - VMEM_RESERVE_CAPACITY) div PAGE_SIZE c"
  shows "VMEM_RESERVE_CAPACITY + i * PAGE_SIZE c + PAGE_SIZE c \<le> capacity"
proof -
  have "Suc i * PAGE_SIZE c \<le> (capacity - VMEM_RESERVE_CAPACITY) div PAGE_SIZE c * PAGE_SIZE c"
    using assms by (intro mult_le_mono1) simp
  also have "\<dots> \<le> capacity - VMEM_RESERVE_CAPACITY" by simp
  finally show ?thesis using assms by (cases "VMEM_RESERVE_CAPACITY \<le> capacity") auto
qed

text \<open>A page the allocator may hand out: aligned, above the reserve, below the capacity.\<close>

definition page_ok :: "constants \<Rightarrow> nat \<Rightarrow> u64 \<Rightarrow> bool" where
  "page_ok c capacity p \<longleftrightarrow> (\<exists>i. unat p = VMEM_RESERVE_CAPACITY + i * PAGE_SIZE c
     \<and> unat p + PAGE_SIZE c \<le> capacity)"

lemma populate_ok:
  assumes "capacity < 2 ^ 64" "0 < PAGE_SIZE c"
  shows "distinct (populate c capacity)" "\<forall>p \<in> set (populate c capacity). page_ok c capacity p"
proof -
  let ?n = "(capacity - VMEM_RESERVE_CAPACITY) div PAGE_SIZE c"
  have u: "unat (of_nat (VMEM_RESERVE_CAPACITY + i * PAGE_SIZE c) :: u64) = VMEM_RESERVE_CAPACITY + i * PAGE_SIZE c"
    if "i < ?n" for i
    by (rule unat_of_nat_less) (use reserve_page_bound [OF that] assms in simp)
  show "\<forall>p \<in> set (populate c capacity). page_ok c capacity p"
    using u reserve_page_bound by (auto simp: populate_pages page_ok_def simp del: of_nat_add of_nat_mult)
  have "i = j" if "i < ?n" "j < ?n"
    "(of_nat (VMEM_RESERVE_CAPACITY + i * PAGE_SIZE c) :: u64) = of_nat (VMEM_RESERVE_CAPACITY + j * PAGE_SIZE c)"
    for i j
    using arg_cong [OF that(3), of unat] u [OF that(1)] u [OF that(2)] assms(2)
    by (simp del: of_nat_add of_nat_mult)
  then show "distinct (populate c capacity)"
    by (auto simp: populate_pages distinct_map inj_on_def simp del: of_nat_add of_nat_mult)
qed

lemma page_ok_aligned:
  assumes "page_ok c capacity p" "PAGE_SIZE c = 2 ^ k" "k \<le> 20"
  shows "take_bit k p = 0"
proof -
  from assms obtain i where "unat p = 1048576 + i * 2 ^ k" by (auto simp: page_ok_def)
  moreover have "(1048576 :: nat) = 2 ^ (20 - k) * 2 ^ k"
    using assms(3) by (simp flip: power_add)
  ultimately have "unat p mod 2 ^ k = 0" by (metis mod_mult_self2_is_0 add_mult_distrib)
  then show ?thesis by (metis unat_eq_zero unat_take_bit)
qed

lemma page_ok_eq_iff:
  assumes "page_ok c cap p" "page_ok c cap q" "PAGE_SIZE c = 2 ^ k" "k \<le> 20"
  shows "drop_bit k p = drop_bit k q \<longleftrightarrow> p = q"
  using page_ok_aligned [OF assms(1,3,4)] page_ok_aligned [OF assms(2,3,4)]
  by (auto intro: word_parts_eqI)

section \<open>Invariant\<close>

definition vm_inv :: "constants \<Rightarrow> nat \<Rightarrow> VirtualMemory \<Rightarrow> bool" where
  "vm_inv c capacity vm \<longleftrightarrow> distinct (ppage_free_list vm)
     \<and> (\<forall>p \<in> set (ppage_free_list vm). page_ok c capacity p)
     \<and> (\<forall>k p. vpage_to_ppage_map vm k = Some p \<longrightarrow> page_ok c capacity p \<and> p \<notin> set (ppage_free_list vm))
     \<and> inj_on (vpage_to_ppage_map vm) (dom (vpage_to_ppage_map vm))"

datatype vm_op = VaToPa nat u64 | GetPte nat u64 nat

fun vm_run :: "constants \<Rightarrow> vm_op list \<Rightarrow> VirtualMemory \<Rightarrow> VirtualMemory result" where
  "vm_run c [] vm = Inr vm"
| "vm_run c (VaToPa cpu va # ops) vm = bindE (va_to_pa c cpu va vm) (\<lambda>(_, _, vm). vm_run c ops vm)"
| "vm_run c (GetPte cpu va l # ops) vm = bindE (get_pte_pa c cpu va l vm) (\<lambda>(_, _, vm). vm_run c ops vm)"

lemma vm_inv_new:
  assumes "capacity < 2 ^ 64" "0 < PAGE_SIZE c" "\<And>xs. mset (shuffle seed xs) = mset xs"
    "VirtualMemory_new c shuffle capacity pg_size levels seed penalty = Inr vm"
  shows "vm_inv c capacity vm"
proof -
  from assms(4) obtain p ps where ps: "shuffle seed (populate c capacity) = p # ps"
    and vm: "ppage_free_list vm = ps" "vpage_to_ppage_map vm = Map.empty"
    by (auto simp: VirtualMemory_new_def errs split: list.splits)
  have m: "mset (p # ps) = mset (populate c capacity)" using assms(3) ps by metis
  then have "distinct (p # ps)" "set (p # ps) = set (populate c capacity)"
    using populate_ok(1) [OF assms(1,2)] by (metis mset_eq_imp_distinct_iff, metis mset_eq_setD)
  then show ?thesis
    using vm populate_ok(2) [OF assms(1,2)] by (auto simp: vm_inv_def)
qed

lemma va_to_pa_cases:
  assumes "va_to_pa c cpu va vm = Inr (pa, fault, vm')"
  obtains p where "vpage_to_ppage_map vm (cpu, drop_bit (LOG2_PAGE_SIZE c) va) = Some p" "vm' = vm"
      "\<not> fault" "pa = splice_bits p va (LOG2_PAGE_SIZE c)"
  | p ps where "vpage_to_ppage_map vm (cpu, drop_bit (LOG2_PAGE_SIZE c) va) = None"
      "ppage_free_list vm = p # ps" "fault" "pa = splice_bits p va (LOG2_PAGE_SIZE c)"
      "vm' = vm\<lparr>vpage_to_ppage_map := (vpage_to_ppage_map vm)((cpu, drop_bit (LOG2_PAGE_SIZE c) va) \<mapsto> p),
               ppage_free_list := ps\<rparr>"
  using assms by (auto simp: va_to_pa_def Let_def split: list.splits option.splits)

lemma vm_inv_alloc:
  assumes "vm_inv c capacity vm" "ppage_free_list vm = p # ps" "vpage_to_ppage_map vm k = None"
  shows "vm_inv c capacity (vm\<lparr>vpage_to_ppage_map := (vpage_to_ppage_map vm)(k \<mapsto> p), ppage_free_list := ps\<rparr>)"
proof -
  let ?m = "vpage_to_ppage_map vm"
  have fresh: "?m j \<noteq> Some p" for j
    using assms(1,2) by (cases j) (auto simp: vm_inv_def)
  have inj: "inj_on ?m (dom ?m)" using assms(1) by (simp add: vm_inv_def)
  have "inj_on (?m(k \<mapsto> p)) (insert k (dom ?m))"
  proof (rule inj_onI)
    fix i j assume ij: "i \<in> insert k (dom ?m)" "j \<in> insert k (dom ?m)"
      "(?m(k \<mapsto> p)) i = (?m(k \<mapsto> p)) j"
    show "i = j"
    proof (cases "i = k \<or> j = k")
      case True
      with ij(3) fresh [of i] fresh [of j] show ?thesis by (auto split: if_splits)
    next
      case False
      with ij inj_onD [OF inj, of i j] show ?thesis by auto
    qed
  qed
  with assms show ?thesis
    by (simp add: vm_inv_def)
qed

lemma va_to_pa_map:
  assumes "va_to_pa c cpu va vm = Inr (pa, fault, vm')"
  shows "vpage_to_ppage_map vm \<subseteq>\<^sub>m vpage_to_ppage_map vm'"
    "\<exists>p. vpage_to_ppage_map vm' (cpu, drop_bit (LOG2_PAGE_SIZE c) va) = Some p
       \<and> pa = splice_bits p va (LOG2_PAGE_SIZE c)"
  using assms by (cases rule: va_to_pa_cases; auto simp: map_le_def dom_def)+

lemma va_to_pa_inv:
  assumes "vm_inv c capacity vm" "va_to_pa c cpu va vm = Inr (pa, fault, vm')"
  shows "vm_inv c capacity vm'"
  using assms(2)
proof (cases rule: va_to_pa_cases)
  case (2 p ps)
  with vm_inv_alloc [OF assms(1) 2(2,1)] show ?thesis by simp
qed (use assms(1) in simp)

lemma get_pte_pa_map:
  "get_pte_pa c cpu va l vm = Inr (pa, fault, vm') \<Longrightarrow> vpage_to_ppage_map vm' = vpage_to_ppage_map vm"
  by (auto simp: get_pte_pa_def Let_def split: option.splits list.splits if_splits)

lemma get_pte_pa_inv:
  assumes "vm_inv c capacity vm" "get_pte_pa c cpu va l vm = Inr (pa, fault, vm')"
  shows "vm_inv c capacity vm'"
  using assms by (auto simp: get_pte_pa_def Let_def vm_inv_def split: option.splits list.splits if_splits)

lemma vm_run_inv:
  "vm_inv c capacity vm \<Longrightarrow> vm_run c ops vm = Inr vm' \<Longrightarrow>
   vm_inv c capacity vm' \<and> vpage_to_ppage_map vm \<subseteq>\<^sub>m vpage_to_ppage_map vm'"
proof (induction c ops vm rule: vm_run.induct)
  case (2 c cpu va ops vm)
  then obtain pa f vm1 where v: "va_to_pa c cpu va vm = Inr (pa, f, vm1)" "vm_run c ops vm1 = Inr vm'"
    by (auto simp: errs)
  from 2(1) [OF va_to_pa_inv [OF 2(2) v(1)] v(2)] va_to_pa_map(1) [OF v(1)] show ?case
    by (auto intro: map_le_trans)
next
  case (3 c cpu va l ops vm)
  then obtain pa f vm1 where v: "get_pte_pa c cpu va l vm = Inr (pa, f, vm1)" "vm_run c ops vm1 = Inr vm'"
    by (auto simp: errs)
  from 3(1) [OF get_pte_pa_inv [OF 3(2) v(1)] v(2)] get_pte_pa_map [OF v(1)] show ?case by simp
qed auto

lemma translation_page:
  assumes "vm_inv c capacity vm" "va_to_pa c cpu va vm = Inr (pa, f, vm')"
    "PAGE_SIZE c = 2 ^ k" "k \<le> 20"
  obtains p where "vpage_to_ppage_map vm' (cpu, drop_bit k va) = Some p" "page_ok c capacity p"
    "drop_bit k pa = drop_bit k p" "take_bit k pa = take_bit k va" "pa = splice_bits p va k"
proof -
  have k: "LOG2_PAGE_SIZE c = k" using assms(3) by simp
  from va_to_pa_inv [OF assms(1,2)] va_to_pa_map [OF assms(2)] k obtain p where
    "vm_inv c capacity vm'" "vpage_to_ppage_map vm' (cpu, drop_bit k va) = Some p" "pa = splice_bits p va k"
    by auto
  then show thesis using that [of p] by (auto simp: vm_inv_def)
qed

lemma splice_page_bound:
  assumes "page_ok c capacity p" "PAGE_SIZE c = 2 ^ k" "k \<le> 20"
  shows "unat p \<le> unat (splice_bits p va k) \<and> unat (splice_bits p va k) < unat p + 2 ^ k"
proof -
  let ?s = "splice_bits p va k"
  have d: "unat ?s div 2 ^ k = unat p div 2 ^ k"
    by (metis drop_bit_splice_bits unat_drop_bit)
  have "unat p mod 2 ^ k = 0"
    using arg_cong [OF page_ok_aligned [OF assms], of unat] by (simp add: unat_take_bit)
  then have "unat p div 2 ^ k * 2 ^ k = unat p"
    using div_mult_mod_eq [of "unat p" "2 ^ k"] by simp
  moreover have "unat p div 2 ^ k * 2 ^ k + unat ?s mod 2 ^ k = unat ?s"
    using div_mult_mod_eq [of "unat ?s" "2 ^ k"] unfolding d .
  moreover have "unat ?s mod 2 ^ k < 2 ^ k" by simp
  ultimately have "unat p + unat ?s mod 2 ^ k = unat ?s" "unat ?s mod 2 ^ k < 2 ^ k" by simp_all
  then show ?thesis by linarith
qed

section \<open>Properties\<close>

text \<open>
  C23: Address translation gives every virtual page of every core a physical
  page of its own, for good.  However the free list is shuffled and whatever
  translations and page table accesses happen before and in between, two
  translated addresses lie in the same physical page exactly when they belong
  to the same core and the same virtual page; the offset in the page is kept,
  and the address lies between the reserved megabyte and the capacity.
\<close>

theorem vmem_translation_is_injective:
  assumes "PAGE_SIZE c = 2 ^ k" "k \<le> 20" "capacity < 2 ^ 64" "\<And>xs. mset (shuffle seed xs) = mset xs"
    "VirtualMemory_new c shuffle capacity pg_size levels seed penalty = Inr vm0"
    "vm_run c ops vm0 = Inr vm1" "va_to_pa c cpu1 va1 vm1 = Inr (pa1, f1, vm2)"
    "vm_run c ops' vm2 = Inr vm3" "va_to_pa c cpu2 va2 vm3 = Inr (pa2, f2, vm4)"
  shows "(drop_bit k pa1 = drop_bit k pa2 \<longleftrightarrow> cpu1 = cpu2 \<and> drop_bit k va1 = drop_bit k va2)
    \<and> take_bit k pa1 = take_bit k va1 \<and> 1048576 \<le> unat pa1 \<and> unat pa1 < capacity"
proof -
  have i0: "vm_inv c capacity vm0" by (rule vm_inv_new [OF assms(3) _ assms(4,5)]) (simp add: assms(1))
  have i1: "vm_inv c capacity vm1" using vm_run_inv [OF i0 assms(6)] by simp
  have i2: "vm_inv c capacity vm2" using va_to_pa_inv [OF i1 assms(7)] by simp
  have i3: "vm_inv c capacity vm3" "vpage_to_ppage_map vm2 \<subseteq>\<^sub>m vpage_to_ppage_map vm3"
    using vm_run_inv [OF i2 assms(8)] by simp_all
  note i4 = va_to_pa_inv [OF i3(1) assms(9)] va_to_pa_map(1) [OF assms(9)]
  obtain p where p: "vpage_to_ppage_map vm2 (cpu1, drop_bit k va1) = Some p" "page_ok c capacity p"
    "drop_bit k pa1 = drop_bit k p" "take_bit k pa1 = take_bit k va1" "pa1 = splice_bits p va1 k"
    by (rule translation_page [OF i1 assms(7,1,2)])
  obtain q where q: "vpage_to_ppage_map vm4 (cpu2, drop_bit k va2) = Some q" "page_ok c capacity q"
    "drop_bit k pa2 = drop_bit k q"
    by (rule translation_page [OF i3(1) assms(9,1,2)])
  have p4: "vpage_to_ppage_map vm4 (cpu1, drop_bit k va1) = Some p"
    using map_le_trans [OF i3(2) i4(2)] p(1) by (force simp: map_le_def dom_def)
  have "inj_on (vpage_to_ppage_map vm4) (dom (vpage_to_ppage_map vm4))"
    using i4(1) by (simp add: vm_inv_def)
  from inj_onD [OF this, of "(cpu1, drop_bit k va1)" "(cpu2, drop_bit k va2)"] p4 q(1)
  have "p = q \<longleftrightarrow> cpu1 = cpu2 \<and> drop_bit k va1 = drop_bit k va2" by auto
  moreover have "1048576 \<le> unat p" "unat p + 2 ^ k \<le> capacity"
    using p(2) assms(1) by (auto simp: page_ok_def)
  ultimately show ?thesis
    using p q(3) page_ok_eq_iff [OF p(2) q(2) assms(1,2)] splice_page_bound [OF p(2) assms(1,2), of va1]
    by auto
qed

definition constants_default :: constants where
  "constants_default =
     \<lparr>BLOCK_SIZE = 64, PAGE_SIZE = 4096, NUM_CPUS = 1, DRAM_CHANNELS = 1, DRAM_RANKS = 1,
      DRAM_BANKS = 8, DRAM_ROWS = 65536, DRAM_COLUMNS = 128, DRAM_WQ_SIZE = 64, DRAM_RQ_SIZE = 64,
      DRAM_CHANNEL_WIDTH = 8\<rparr>"

lemma lg2_defaults [simp]: "lg2 4096 = 12" "lg2 64 = 6" "lg2 512 = 9" "lg2 2048 = 11" "lg2 8 = 3"
  using lg2_pow2 [of 12] lg2_pow2 [of 6] lg2_pow2 [of 9] lg2_pow2 [of 11] lg2_pow2 [of 3] by simp_all

definition small_vmem :: VirtualMemory where
  "small_vmem =
     \<lparr>vpage_to_ppage_map = Map.empty, page_table = Map.empty, next_pte_page = 1048576,
      minor_fault_penalty = 200, pt_levels = 5, page_size = 4096,
      ppage_free_list = [1052672, 1056768, 1060864]\<rparr>"

lemma small_vmem_new:
  "VirtualMemory_new constants_default (\<lambda>_ xs. xs) 1064960 4096 5 1 200 = Inr small_vmem"
proof -
  have "populate constants_default 1064960 = [1048576, 1052672, 1056768, 1060864]"
    by (simp add: populate_pages constants_default_def upt_rec)
  then show ?thesis
    by (simp add: VirtualMemory_new_def small_vmem_def constants_default_def)
qed

theorem vmem_translation_is_injective_witness:
  "\<exists>pa1 pa2 f1 f2 vm2 vm3. va_to_pa constants_default 0 8192 small_vmem = Inr (pa1, f1, vm2)
    \<and> va_to_pa constants_default 0 4100 vm2 = Inr (pa2, f2, vm3)
    \<and> drop_bit 12 pa1 \<noteq> drop_bit 12 pa2 \<and> unat pa1 < 1064960"
proof -
  let ?c = constants_default
  obtain pa1 f1 vm2 where a: "va_to_pa ?c 0 8192 small_vmem = Inr (pa1, f1, vm2)"
    "vm2 = small_vmem\<lparr>vpage_to_ppage_map := [(0, 2) \<mapsto> 1052672], ppage_free_list := [1056768, 1060864]\<rparr>"
    by (simp add: va_to_pa_def small_vmem_def constants_default_def drop_bit_eq_div)
  obtain pa2 f2 vm3 where b: "va_to_pa ?c 0 4100 vm2 = Inr (pa2, f2, vm3)"
    by (simp add: a(2) va_to_pa_def small_vmem_def constants_default_def drop_bit_eq_div)
  have "PAGE_SIZE ?c = 2 ^ 12" by (simp add: constants_default_def)
  moreover have "drop_bit 12 (8192 :: u64) \<noteq> drop_bit 12 4100" by (simp add: drop_bit_eq_div)
  ultimately show ?thesis
    using vmem_translation_is_injective [OF _ _ _ _ small_vmem_new, of 12 "[]" small_vmem 0 8192 pa1 f1
        vm2 "[]" vm2 0 4100 pa2 f2 vm3] a(1) b by auto
qed


end
