(* ===== verification/DelayQueue.thy ===== *)
theory DelayQueue
  imports CircularBuffer
begin

text \<open>
  The queue of \<open>inc/delay_queue.hpp\<close> that releases its members after a fixed
  delay: a buffer of items, a buffer of the cycles each item still has to wait,
  and the iterator \<open>_end_ready\<close> behind the last item that may be taken.  The
  specification is a list of items with the number of cycles each has spent in
  the queue.
\<close>

section \<open>State and operations\<close>

record 'a delay_queue =
  dq_buf :: "'a circular_buffer"
  dq_delays :: "int circular_buffer"
  dq_latency :: int
  dq_end_ready :: nat

definition dq_new :: "'a \<Rightarrow> nat \<Rightarrow> nat \<Rightarrow> 'a delay_queue" where
  "dq_new d sz latency =
     \<lparr>dq_buf = cb_new d sz, dq_delays = cb_new 0 sz, dq_latency = int latency,
      dq_end_ready = cb_end (cb_new d sz)\<rparr>"

definition dq_size :: "'a delay_queue \<Rightarrow> nat" where
  "dq_size q = cb_sz (dq_buf q)"

definition dq_occupancy :: "'a delay_queue \<Rightarrow> nat" where
  "dq_occupancy q = cb_occupancy (dq_buf q)"

definition dq_empty :: "'a delay_queue \<Rightarrow> bool" where
  "dq_empty q \<longleftrightarrow> dq_occupancy q = 0"

definition dq_full :: "'a delay_queue \<Rightarrow> bool" where
  "dq_full q \<longleftrightarrow> cb_full (dq_buf q)"

definition dq_has_ready :: "'a delay_queue \<Rightarrow> bool" where
  "dq_has_ready q \<longleftrightarrow> it_ne (dq_buf q) (cb_begin (dq_buf q)) (dq_end_ready q)"

definition dq_front :: "'a delay_queue \<Rightarrow> 'a" where
  "dq_front q = cb_front (dq_buf q)"

definition dq_back :: "'a delay_queue \<Rightarrow> 'a" where
  "dq_back q = cb_back (dq_buf q)"

definition dq_clear :: "'a delay_queue \<Rightarrow> 'a delay_queue" where
  "dq_clear q = q\<lparr>dq_buf := cb_clear (dq_buf q)\<rparr>"

definition dq_push_delay :: "int \<Rightarrow> 'a \<Rightarrow> 'a delay_queue \<Rightarrow> 'a delay_queue result" where
  "dq_push_delay delay item q =
     bindE (cb_push_back item (dq_buf q)) (\<lambda>buf.
     bindE (cb_push_back delay (dq_delays q)) (\<lambda>delays.
     Inr (q\<lparr>dq_buf := buf, dq_delays := delays\<rparr>)))"

definition dq_push_back :: "'a \<Rightarrow> 'a delay_queue \<Rightarrow> 'a delay_queue result" where
  "dq_push_back item q = dq_push_delay (dq_latency q) item q"

definition dq_push_back_ready :: "'a \<Rightarrow> 'a delay_queue \<Rightarrow> 'a delay_queue result" where
  "dq_push_back_ready item q = dq_push_delay 0 item q"

definition dq_pop_front :: "'a delay_queue \<Rightarrow> 'a delay_queue result" where
  "dq_pop_front q =
     bindE (cb_pop_front (dq_buf q)) (\<lambda>buf.
     bindE (cb_pop_front (dq_delays q)) (\<lambda>delays.
     Inr (q\<lparr>dq_buf := buf, dq_delays := delays\<rparr>)))"

definition dq_operate :: "'a delay_queue \<Rightarrow> 'a delay_queue" where
  "dq_operate q =
     (let delays = cb_for_each (\<lambda>x. x - 1) (dq_delays q);
          delay_it = partition_point (\<lambda>x. x \<le> 0) (cb_list delays)
      in q\<lparr>dq_delays := delays,
           dq_end_ready := it_add (dq_buf q) (cb_begin (dq_buf q)) (int delay_it)\<rparr>)"

text \<open>Writing through an iterator to the \<open>k\<close>-th item.\<close>

definition dq_set :: "nat \<Rightarrow> 'a \<Rightarrow> 'a delay_queue \<Rightarrow> 'a delay_queue" where
  "dq_set k x q = q\<lparr>dq_buf := cb_set (cb_pos (dq_buf q) k) x (dq_buf q)\<rparr>"

section \<open>Invariant\<close>

text \<open>The number of ready items: the distance from \<open>begin()\<close> to \<open>end_ready()\<close>.\<close>

definition dq_ready :: "'a delay_queue \<Rightarrow> nat" where
  "dq_ready q = nat (it_diff (dq_buf q) (dq_end_ready q) (cb_begin (dq_buf q)))"

definition dq_list :: "'a delay_queue \<Rightarrow> 'a list" where
  "dq_list q = cb_list (dq_buf q)"

definition dq_wf :: "'a delay_queue \<Rightarrow> bool" where
  "dq_wf q \<longleftrightarrow> cb_wf (dq_buf q) \<and> cb_wf (dq_delays q) \<and> cb_sz (dq_delays q) = cb_sz (dq_buf q)
     \<and> cb_occupancy (dq_delays q) = cb_occupancy (dq_buf q) \<and> 0 \<le> dq_latency q"

lemma dq_wfD:
  assumes "dq_wf q"
  shows "cb_wf (dq_buf q)" "cb_wf (dq_delays q)" "cb_sz (dq_delays q) = cb_sz (dq_buf q)"
    "length (cb_list (dq_delays q)) = length (dq_list q)" "0 \<le> dq_latency q"
  using assms by (auto simp: dq_wf_def dq_list_def)

lemma dq_occupancy_list: "dq_occupancy q = length (dq_list q)"
  by (simp add: dq_occupancy_def dq_list_def)

lemma dq_full_list: "dq_full q \<longleftrightarrow> length (dq_list q) = dq_size q"
  by (simp add: dq_full_def cb_full_def dq_list_def dq_size_def)

lemma dq_set_ok:
  assumes "dq_wf q" "k < length (dq_list q)"
  shows "dq_wf (dq_set k x q)" "dq_list (dq_set k x q) = (dq_list q)[k := x]"
    "dq_size (dq_set k x q) = dq_size q"
  using assms by (simp_all add: dq_wf_def dq_set_def dq_list_def dq_size_def cb_list_set)

lemma dq_operate_ok:
  assumes "dq_wf q"
  shows "dq_wf (dq_operate q)" "dq_list (dq_operate q) = dq_list q" "dq_size (dq_operate q) = dq_size q"
proof -
  note d = cb_for_each [OF dq_wfD(2) [OF assms], of "\<lambda>x. x - 1"]
  have "cb_occupancy (cb_for_each (\<lambda>x. x - 1) (dq_delays q)) = cb_occupancy (dq_delays q)"
    using d(2) by (metis length_cb_list length_map)
  with assms d show "dq_wf (dq_operate q)"
    by (simp add: dq_wf_def dq_operate_def Let_def)
qed (simp_all add: dq_operate_def Let_def dq_list_def dq_size_def)

lemma dq_new_not_ready [simp]: "\<not> dq_has_ready (dq_new d n l)"
  by (simp add: dq_has_ready_def dq_new_def it_defs cb_begin_def cb_end_def cb_new_def)

lemma dq_new_wf: "dq_wf (dq_new d n l)"
  by (simp add: dq_wf_def dq_new_def) (simp add: cb_new_def)

lemma dq_push_delay_ok:
  assumes "dq_wf q" "length (dq_list q) < dq_size q"
  shows "\<exists>r. dq_push_delay w x q = Inr r \<and> dq_wf r \<and> dq_list r = dq_list q @ [x]
    \<and> cb_list (dq_delays r) = cb_list (dq_delays q) @ [w]
    \<and> dq_size r = dq_size q \<and> dq_latency r = dq_latency q \<and> dq_end_ready r = dq_end_ready q
    \<and> cb_pos (dq_buf r) = cb_pos (dq_buf q) \<and> cb_head (dq_buf r) = cb_head (dq_buf q)"
proof -
  note wf = dq_wfD [OF assms(1)]
  from assms wf obtain b d where
    b: "cb_push_back x (dq_buf q) = Inr b" "cb_wf b" "cb_list b = dq_list q @ [x]"
       "cb_sz b = cb_sz (dq_buf q)" "cb_head b = cb_head (dq_buf q)" and
    d: "cb_push_back w (dq_delays q) = Inr d" "cb_wf d" "cb_list d = cb_list (dq_delays q) @ [w]"
       "cb_sz d = cb_sz (dq_delays q)"
    using cb_push_back_ok [OF wf(1), of x] cb_push_back_ok [OF wf(2), of w]
    by (auto simp: dq_size_def dq_list_def)
  have "cb_occupancy d = cb_occupancy b"
    using b(3) d(3) wf(4) by (simp flip: length_cb_list)
  then show ?thesis
    using b d wf cb_push_back_pos [OF b(1)]
    by (simp add: dq_push_delay_def dq_wf_def dq_list_def dq_size_def)
qed

lemma dq_pop_front_ok:
  assumes "dq_wf q" "dq_list q \<noteq> []"
  shows "\<exists>r. dq_pop_front q = Inr r \<and> dq_wf r \<and> dq_list r = tl (dq_list q)
    \<and> cb_list (dq_delays r) = tl (cb_list (dq_delays q))
    \<and> dq_size r = dq_size q \<and> dq_latency r = dq_latency q \<and> dq_end_ready r = dq_end_ready q
    \<and> (\<forall>k. cb_pos (dq_buf r) k = cb_pos (dq_buf q) (Suc k))"
proof -
  note wf = dq_wfD [OF assms(1)]
  have ne: "cb_list (dq_delays q) \<noteq> []" "cb_list (dq_buf q) \<noteq> []"
    using assms(2) wf(4) by (auto simp: dq_list_def simp flip: length_greater_0_conv)
  obtain b d where
    b: "cb_pop_front (dq_buf q) = Inr b" "cb_wf b" "cb_list b = tl (dq_list q)"
       "cb_sz b = cb_sz (dq_buf q)" and
    d: "cb_pop_front (dq_delays q) = Inr d" "cb_wf d" "cb_list d = tl (cb_list (dq_delays q))"
       "cb_sz d = cb_sz (dq_delays q)"
    using cb_pop_front_ok [OF wf(1) ne(2)] cb_pop_front_ok [OF wf(2) ne(1)]
    by (auto simp: dq_list_def)
  have "cb_occupancy d = cb_occupancy b"
    using b(3) d(3) wf(4) by (simp flip: length_cb_list)
  then show ?thesis
    using b d wf cb_pop_front_pos [OF wf(1) b(1)]
    by (simp add: dq_pop_front_def dq_wf_def dq_list_def dq_size_def)
qed

interpretation dqq: bounded_queue dq_wf dq_list dq_size dq_push_back dq_pop_front dq_front
proof unfold_locales
  fix q :: "'a delay_queue" and x
  assume q: "dq_wf q"
  note wf = dq_wfD [OF q]
  show "length (dq_list q) \<le> dq_size q"
    using cb_occupancy_le [OF wf(1)] by (simp add: dq_list_def dq_size_def)
  show "\<exists>r. dq_push_back x q = Inr r \<and> dq_wf r \<and> dq_list r = dq_list q @ [x] \<and> dq_size r = dq_size q"
    if "length (dq_list q) < dq_size q"
    using dq_push_delay_ok [OF q that, of "dq_latency q" x] by (auto simp: dq_push_back_def)
  show "\<exists>e. dq_push_back x q = Inl e" if "length (dq_list q) = dq_size q"
    using cb_push_back_full [of "dq_buf q" x] that
    by (simp add: dq_push_back_def dq_push_delay_def dq_size_def dq_list_def)
  show "\<exists>r. dq_pop_front q = Inr r \<and> dq_wf r \<and> dq_list r = tl (dq_list q) \<and> dq_size r = dq_size q"
    if "dq_list q \<noteq> []"
    using dq_pop_front_ok [OF q that] by auto
  show "\<exists>e. dq_pop_front q = Inl e" if "dq_list q = []"
    using cb_pop_front_empty [of "dq_buf q"] that by (simp add: dq_pop_front_def dq_list_def)
  show "dq_front q = hd (dq_list q)" if "dq_list q \<noteq> []"
    using cb_front_list [OF wf(1)] that by (simp add: dq_front_def dq_list_def)
qed

section \<open>Ready items are items\<close>

text \<open>
  \<open>end_ready()\<close> lies between \<open>begin()\<close> and \<open>end()\<close>, so that a queue with a
  ready item is not empty.  This holds for every use of the queue in which a
  pop is guarded by \<open>has_ready()\<close>, also with \<open>push_back_ready\<close>.
\<close>

definition dq_good :: "'a delay_queue \<Rightarrow> bool" where
  "dq_good q \<longleftrightarrow> dq_wf q \<and> (\<exists>r \<le> length (dq_list q). dq_end_ready q = cb_pos (dq_buf q) r)"

lemma dq_good_wf: "dq_good q \<Longrightarrow> dq_wf q"
  by (simp add: dq_good_def)

lemma dq_has_ready_pos:
  assumes "dq_wf q" "r \<le> length (dq_list q)" "dq_end_ready q = cb_pos (dq_buf q) r"
  shows "dq_has_ready q \<longleftrightarrow> 0 < r"
proof -
  note wf = dq_wfD(1) [OF assms(1)]
  have r: "r \<le> cb_sz (dq_buf q)" using assms(2) cb_occupancy_le [OF wf] by (simp add: dq_list_def)
  have "cb_pos (dq_buf q) 0 = cb_pos (dq_buf q) r \<longleftrightarrow> r = 0"
    using cb_pos_inj [OF wf, of 0 r] r by auto
  with assms(3) wf show ?thesis
    by (simp add: dq_has_ready_def it_ne_def cb_begin_def it_eq_iff [OF cb_wfD(3) [OF wf] cb_pos_less [OF wf]])
qed

lemma dq_good_ready_ne: "dq_good q \<Longrightarrow> dq_has_ready q \<Longrightarrow> dq_list q \<noteq> []"
  using dq_has_ready_pos by (fastforce simp: dq_good_def)

lemma dq_good_new: "dq_good (dq_new d n l)"
proof -
  have "dq_end_ready (dq_new d n l) = cb_pos (dq_buf (dq_new d n l)) 0"
    by (simp add: dq_new_def cb_end_def cb_pos_def cb_new_def)
  then show ?thesis unfolding dq_good_def using dq_new_wf by (metis le0)
qed

lemma dq_good_push:
  assumes "dq_good q" "dq_push_delay w x q = Inr r"
  shows "dq_good r" "dq_has_ready r = dq_has_ready q"
proof -
  from assms obtain k where k: "dq_wf q" "k \<le> length (dq_list q)" "dq_end_ready q = cb_pos (dq_buf q) k"
    by (auto simp: dq_good_def)
  have "length (dq_list q) \<noteq> dq_size q"
    using assms(2) cb_push_back_full [of "dq_buf q" x] by (auto simp: dq_push_delay_def dq_list_def dq_size_def)
  then have "length (dq_list q) < dq_size q" using dqq.bounded [OF k(1)] by simp
  from dq_push_delay_ok [OF k(1) this, of w x] assms(2) have
    r: "dq_wf r" "length (dq_list r) = Suc (length (dq_list q))" "dq_end_ready r = cb_pos (dq_buf r) k"
    using k(3) by auto
  then show "dq_good r" using k(2) by (auto simp: dq_good_def intro!: exI [of _ k])
  show "dq_has_ready r = dq_has_ready q"
    using dq_has_ready_pos [OF k] dq_has_ready_pos [OF r(1) _ r(3)] r(2) k(2) by simp
qed

lemma dq_good_pop:
  assumes "dq_good q" "dq_has_ready q" "dq_pop_front q = Inr r"
  shows "dq_good r"
proof -
  from assms obtain k where k: "dq_wf q" "k \<le> length (dq_list q)" "dq_end_ready q = cb_pos (dq_buf q) k"
    by (auto simp: dq_good_def)
  with dq_has_ready_pos [OF k] assms(2) obtain j where j: "k = Suc j" by (cases k) auto
  with k have ne: "dq_list q \<noteq> []" by auto
  from dq_pop_front_ok [OF k(1) ne] assms(3) k j have
    "dq_wf r" "length (dq_list r) = length (dq_list q) - 1" "dq_end_ready r = cb_pos (dq_buf r) j" by auto
  with k(2) j show ?thesis by (auto simp: dq_good_def intro!: exI [of _ j])
qed

lemma dq_good_set:
  assumes "dq_good q" "k < length (dq_list q)"
  shows "dq_good (dq_set k x q)" "dq_has_ready (dq_set k x q) = dq_has_ready q"
proof -
  from assms obtain r where r: "dq_wf q" "r \<le> length (dq_list q)" "dq_end_ready q = cb_pos (dq_buf q) r"
    by (auto simp: dq_good_def)
  have e: "dq_end_ready (dq_set k x q) = cb_pos (dq_buf (dq_set k x q)) r"
    using r(3) by (simp add: dq_set_def)
  with r(2) dq_set_ok [OF r(1) assms(2), of x] show "dq_good (dq_set k x q)"
    by (auto simp: dq_good_def intro!: exI [of _ r])
  show "dq_has_ready (dq_set k x q) = dq_has_ready q"
    using dq_has_ready_pos [OF r] dq_has_ready_pos [OF dq_set_ok(1) [OF r(1) assms(2)] _ e] r(2)
      dq_set_ok(2) [OF r(1) assms(2), of x] by simp
qed

lemma dq_good_operate:
  assumes "dq_wf q"
  shows "dq_good (dq_operate q)"
proof -
  let ?d = "cb_list (cb_for_each (\<lambda>x. x - 1) (dq_delays q))"
  let ?k = "partition_point (\<lambda>x. x \<le> 0) ?d"
  note wf = dq_wfD(1) [OF assms]
  have "?k \<le> length (dq_list q)"
    using partition_point_le [of "\<lambda>x. x \<le> 0" ?d] cb_for_each(2) [OF dq_wfD(2) [OF assms], of "\<lambda>x. x - 1"]
      dq_wfD(4) [OF assms] by simp
  moreover have "dq_end_ready (dq_operate q) = cb_pos (dq_buf (dq_operate q)) ?k"
    using circ_inc_nat [OF wf, of "cb_head (dq_buf q)" ?k] cb_wfD(2) [OF wf]
    by (simp add: dq_operate_def Let_def it_add_def cb_begin_def cb_pos_def)
  ultimately show ?thesis
    using dq_operate_ok [OF assms] by (auto simp: dq_good_def intro!: exI [of _ ?k])
qed

section \<open>Sequences of operations\<close>

text \<open>
  The specification of the delay: every item carries its age, the number of
  \<open>operate()\<close> calls since it was pushed, and after \<open>operate()\<close> the items that
  may be taken are the leading ones whose age has reached the latency.  A
  client may only pop an item that is ready, as the comment on \<open>pop_front\<close>
  asks.
\<close>

datatype 'a dop = DPush 'a | DPop | DOperate

fun dq_run :: "'a dop list \<Rightarrow> 'a delay_queue \<Rightarrow> 'a delay_queue result" where
  "dq_run [] q = Inr q"
| "dq_run (DPush x # ops) q = bindE (dq_push_back x q) (dq_run ops)"
| "dq_run (DPop # ops) q = bindE (dq_pop_front q) (dq_run ops)"
| "dq_run (DOperate # ops) q = dq_run ops (dq_operate q)"

definition aged :: "('a \<times> nat) list \<Rightarrow> ('a \<times> nat) list" where
  "aged xs = map (\<lambda>(x, a). (x, a + 1)) xs"

definition ripe :: "nat \<Rightarrow> ('a \<times> nat) list \<Rightarrow> nat" where
  "ripe latency xs = length (takeWhile (\<lambda>(x, a). latency \<le> a) xs)"

fun ds_run :: "nat \<Rightarrow> nat \<Rightarrow> 'a dop list \<Rightarrow> ('a \<times> nat) list \<times> nat \<Rightarrow> (('a \<times> nat) list \<times> nat) option" where
  "ds_run n l [] s = Some s"
| "ds_run n l (DPush x # ops) (xs, r) =
     (if length xs < n then ds_run n l ops (xs @ [(x, 0)], r) else None)"
| "ds_run n l (DPop # ops) (xs, r) = (if r = 0 then None else ds_run n l ops (tl xs, r - 1))"
| "ds_run n l (DOperate # ops) (xs, r) = ds_run n l ops (aged xs, ripe l (aged xs))"

definition dq_sim :: "nat \<Rightarrow> nat \<Rightarrow> 'a delay_queue \<Rightarrow> ('a \<times> nat) list \<times> nat \<Rightarrow> bool" where
  "dq_sim n l q s \<longleftrightarrow> (case s of (xs, r) \<Rightarrow>
     dq_wf q \<and> dq_size q = n \<and> dq_latency q = int l
     \<and> dq_list q = map fst xs \<and> cb_list (dq_delays q) = map (\<lambda>(x, a). int l - int a) xs
     \<and> sorted_wrt (\<lambda>x y. snd y \<le> snd x) xs
     \<and> r \<le> length xs \<and> dq_end_ready q = cb_pos (dq_buf q) r)"

lemma dq_sim_new: "dq_sim n l (dq_new d n l) ([], 0)"
  by (simp add: dq_sim_def dq_new_wf)
    (simp add: dq_new_def dq_size_def dq_list_def cb_new_def cb_end_def cb_pos_def
      cb_list_def cb_positions_def cb_occupancy_def it_diff_def)

lemma dq_sim_push:
  assumes "dq_sim n l q (xs, r)" "length xs < n"
  shows "\<exists>t. dq_push_back x q = Inr t \<and> dq_sim n l t (xs @ [(x, 0)], r)"
proof -
  from assms have "dq_wf q" "length (dq_list q) < dq_size q" by (auto simp: dq_sim_def)
  with dq_push_delay_ok [of q "dq_latency q" x] assms show ?thesis
    by (auto simp: dq_push_back_def dq_sim_def sorted_wrt_append)
qed

lemma dq_sim_pop:
  assumes "dq_sim n l q (xs, Suc r)"
  shows "\<exists>t. dq_pop_front q = Inr t \<and> dq_sim n l t (tl xs, r) \<and> dq_front q = fst (hd xs)"
proof -
  from assms obtain y ys where xs: "xs = y # ys" by (cases xs) (auto simp: dq_sim_def)
  with assms have "dq_wf q" "dq_list q \<noteq> []" by (auto simp: dq_sim_def)
  with dq_pop_front_ok [of q] dqq.first_items [of q] assms xs show ?thesis
    by (auto simp: dq_sim_def)
qed

lemma ripe_le: "ripe l xs \<le> length xs"
  by (simp add: ripe_def length_takeWhile_le)

lemma partition_point_ripe:
  assumes "sorted_wrt (\<lambda>x y. snd y \<le> snd x) xs"
  shows "partition_point (\<lambda>x. x \<le> 0) (map (\<lambda>(x, a). int l - int a) xs) = ripe l xs"
proof (rule partition_point_correct)
  have tk: "take (ripe l xs) xs = takeWhile (\<lambda>(x, a). l \<le> a) xs"
    by (simp add: ripe_def takeWhile_eq_take [symmetric])
  have dr: "drop (ripe l xs) xs = dropWhile (\<lambda>(x, a). l \<le> a) xs"
    by (simp add: ripe_def dropWhile_eq_drop [symmetric])
  show "\<forall>x \<in> set (take (ripe l xs) (map (\<lambda>(x, a). int l - int a) xs)). x \<le> 0"
    by (auto simp: take_map tk dest: set_takeWhileD)
  have "\<not> l \<le> a" if "(x, a) \<in> set (dropWhile (\<lambda>(x, a). l \<le> a) xs)" for x a
  proof (cases "dropWhile (\<lambda>(x, a). l \<le> a) xs")
    case (Cons z zs)
    have "sorted_wrt (\<lambda>x y. snd y \<le> snd x) (z # zs)"
      using sorted_wrt_drop [OF assms, of "ripe l xs"] dr Cons by simp
    moreover have "\<not> l \<le> snd z"
      using Cons hd_dropWhile [of "\<lambda>(x, a). l \<le> a" xs] by (auto simp: case_prod_beta)
    ultimately show ?thesis using that Cons by auto
  qed (use that in \<open>simp only: list.set empty_iff\<close>)
  then show "\<forall>x \<in> set (drop (ripe l xs) (map (\<lambda>(x, a). int l - int a) xs)). \<not> x \<le> 0"
    by (auto simp: drop_map dr)
qed (simp add: ripe_le)

lemma dq_sim_operate:
  assumes "dq_sim n l q (xs, r)"
  shows "dq_sim n l (dq_operate q) (aged xs, ripe l (aged xs))"
proof -
  from assms have q: "dq_wf q" "cb_list (dq_delays q) = map (\<lambda>(x, a). int l - int a) xs"
    "sorted_wrt (\<lambda>x y. snd y \<le> snd x) xs"
    by (auto simp: dq_sim_def)
  let ?d = "cb_for_each (\<lambda>x. x - 1) (dq_delays q)"
  have srt: "sorted_wrt (\<lambda>x y. snd y \<le> snd x) (aged xs)"
    using q(3) by (auto simp: aged_def sorted_wrt_map case_prod_beta)
  have d: "cb_list ?d = map (\<lambda>(x, a). int l - int a) (aged xs)"
    using cb_for_each(2) [OF dq_wfD(2) [OF q(1)], of "\<lambda>x. x - 1"] q(2)
    by (simp add: aged_def case_prod_beta)
  have "cb_occupancy ?d = cb_occupancy (dq_delays q)"
    using d q(2) by (simp add: aged_def flip: length_cb_list)
  then have "dq_wf (dq_operate q)"
    using q(1) cb_for_each [OF dq_wfD(2) [OF q(1)]]
    by (simp add: dq_wf_def dq_operate_def Let_def)
  moreover have "it_add (dq_buf q) (cb_begin (dq_buf q)) (int k) = cb_pos (dq_buf q) k" for k
    using dq_wfD(1) [OF q(1)]
    by (simp add: it_add_def cb_begin_def circ_inc_nat cb_pos_def cb_wfD)
  ultimately show ?thesis
    using assms d srt ripe_le [of l "aged xs"]
    by (simp add: dq_sim_def dq_operate_def Let_def partition_point_ripe dq_size_def dq_list_def)
      (simp add: aged_def case_prod_beta)
qed

lemma dq_run_sim:
  "dq_sim n l q s \<Longrightarrow> ds_run n l ops s = Some s' \<Longrightarrow> \<exists>t. dq_run ops q = Inr t \<and> dq_sim n l t s'"
proof (induction n l ops s arbitrary: q rule: ds_run.induct)
  case (2 n l x ops xs r)
  then obtain t where "dq_push_back x q = Inr t" "dq_sim n l t (xs @ [(x, 0)], r)"
    using dq_sim_push [of n l q xs r x] by (auto split: if_splits)
  with 2 show ?case by (auto split: if_splits)
next
  case (3 n l ops xs r)
  then obtain r' where "r = Suc r'" by (cases r) auto
  moreover with 3 obtain t where "dq_pop_front q = Inr t" "dq_sim n l t (tl xs, r')"
    using dq_sim_pop [of n l q xs r'] by auto
  ultimately show ?case using 3 by auto
qed (auto dest: dq_sim_operate)

lemma dq_sim_has_ready:
  assumes "dq_sim n l q (xs, r)"
  shows "dq_has_ready q \<longleftrightarrow> 0 < r" "dq_ready q = r"
proof -
  from assms have q: "cb_wf (dq_buf q)" "r \<le> cb_occupancy (dq_buf q)"
    "dq_end_ready q = cb_pos (dq_buf q) r"
    by (auto simp: dq_sim_def dq_wf_def dq_list_def simp flip: length_cb_list)
  with cb_occupancy_le [OF q(1)] have r: "r \<le> cb_sz (dq_buf q)" by simp
  have "cb_pos (dq_buf q) 0 = cb_pos (dq_buf q) r \<longleftrightarrow> r = 0"
    using cb_pos_inj [OF q(1), of 0 r] r by auto
  with q r show "dq_has_ready q \<longleftrightarrow> 0 < r"
    by (simp add: dq_has_ready_def it_ne_def cb_begin_def
        it_eq_iff [OF cb_wfD(3) [OF q(1)] cb_pos_less [OF q(1)]])
  show "dq_ready q = r"
    using it_diff_forward [OF q(1), of 0 r] r q by (simp add: dq_ready_def cb_begin_def)
qed

section \<open>Properties\<close>

text \<open>
  C13: A delay queue of latency \<open>l\<close> driven by \<open>push_back\<close>, \<open>operate\<close> and pops of
  ready items does what the specification by ages does: no operation fails,
  the items are those of the specification in order, \<open>has_ready()\<close> says whether
  an item may be taken, and the number of items before \<open>end_ready()\<close> is the
  number the specification releases: those that have waited \<open>l\<close> cycles.
\<close>

theorem delay_queue_refines_ages:
  assumes "ds_run n l ops ([], 0) = Some (xs, r)"
  shows "\<exists>q. dq_run ops (dq_new d n l) = Inr q \<and> dq_list q = map fst xs
    \<and> (dq_has_ready q \<longleftrightarrow> 0 < r) \<and> dq_ready q = r"
proof -
  from dq_run_sim [OF dq_sim_new assms] obtain q where
    "dq_run ops (dq_new d n l) = Inr q" "dq_sim n l q (xs, r)"
    by blast
  with dq_sim_has_ready [of n l q xs r] show ?thesis
    by (auto simp: dq_sim_def)
qed

theorem delay_queue_refines_ages_witness:
  "\<exists>q. dq_run [DPush (7::nat), DOperate, DPush 8, DOperate] (dq_new 0 4 2) = Inr q
    \<and> dq_list q = [7, 8] \<and> dq_has_ready q \<and> dq_ready q = 1"
proof -
  have "ds_run 4 2 [DPush (7::nat), DOperate, DPush 8, DOperate] ([], 0) = Some ([(7, 2), (8, 1)], 1)"
    by (simp add: aged_def ripe_def)
  from delay_queue_refines_ages [OF this, of 0] show ?thesis by auto
qed



end
