(* ===== verification/PageTableWalker.thy ===== *)
theory PageTableWalker
  imports VirtualMemory DelayQueue
begin

text \<open>
  The page table walker of \<open>inc/ptw.h\<close> and \<open>src/ptw.cc\<close> with its four paging
  structure caches.  The cache below the walker is a parameter: \<open>ll_add_rq\<close>
  gives the return code of \<open>lower_level->add_rq\<close>, the packets for which it
  called \<open>return_data\<close> of this walker before it returned, and the new state of
  the lower level.  Calls of \<open>return_data\<close> on the requesters of a translation
  are recorded in \<open>returned\<close>.
\<close>

section \<open>Paging structure caches\<close>

record psc_block =
  pb_valid :: bool
  pb_address :: u64
  pb_data :: u64
  pb_lru :: u32

record PSC =
  psc_NUM_SET :: nat
  psc_NUM_WAY :: nat
  psc_block :: "psc_block list"
  psc_level :: nat

text \<open>\<open>address\<close> and \<open>data\<close> of a new block have no initial value; they are parameters.\<close>

definition psc_block_new :: "u64 \<Rightarrow> u64 \<Rightarrow> psc_block" where
  "psc_block_new a d = \<lparr>pb_valid = False, pb_address = a, pb_data = d, pb_lru = drop_bit 1 (- 1)\<rparr>"

definition PSC_new :: "u64 \<Rightarrow> u64 \<Rightarrow> nat \<Rightarrow> nat \<Rightarrow> nat \<Rightarrow> PSC" where
  "PSC_new a d level sets ways =
     \<lparr>psc_NUM_SET = sets, psc_NUM_WAY = ways, psc_block = replicate (sets * ways) (psc_block_new a d),
      psc_level = level\<rparr>"

definition psc_set_idx :: "constants \<Rightarrow> VirtualMemory \<Rightarrow> PSC \<Rightarrow> u64 \<Rightarrow> nat" where
  "psc_set_idx c vm p address =
     unat (drop_bit (shamt c vm (psc_level p + 1)) address AND bitmask (lg2 (psc_NUM_SET p)) 0)"

definition fill_cache :: "constants \<Rightarrow> VirtualMemory \<Rightarrow> u64 \<Rightarrow> u64 \<Rightarrow> PSC \<Rightarrow> PSC" where
  "fill_cache c vm next_level_paddr vaddr p =
     (let set_begin = psc_set_idx c vm p vaddr * psc_NUM_WAY p;
          ways = slice set_begin (psc_NUM_WAY p) (psc_block p);
          fill_way = max_element (lru_comparator pb_valid pb_lru) ways;
          fill_lru = pb_lru (ways ! fill_way);
          block = (psc_block p)[set_begin + fill_way :=
            \<lparr>pb_valid = True, pb_address = vaddr, pb_data = next_level_paddr, pb_lru = fill_lru\<rparr>]
      in p\<lparr>psc_block := map_slice set_begin (psc_NUM_WAY p)
             (lru_updater pb_lru (\<lambda>v x. x\<lparr>pb_lru := v\<rparr>) fill_lru) block\<rparr>)"

definition check_hit :: "constants \<Rightarrow> VirtualMemory \<Rightarrow> u64 \<Rightarrow> PSC \<Rightarrow> u64 option" where
  "check_hit c vm address p =
     (let set_begin = psc_set_idx c vm p address * psc_NUM_WAY p;
          ways = slice set_begin (psc_NUM_WAY p) (psc_block p);
          hit_way = find_if (eq_addr pb_valid pb_address address (shamt c vm (psc_level p + 1))) ways
      in if hit_way \<noteq> length ways
         then Some (splice_bits (pb_data (ways ! hit_way))
                (get_offset c vm address (psc_level p) * of_nat PTE_BYTES) (LOG2_PAGE_SIZE c))
         else None)"

section \<open>The walker\<close>

record 'w ptw_lower =
  ll_add_rq :: "PACKET \<Rightarrow> 'w \<Rightarrow> (int \<times> PACKET list \<times> 'w) result"
  ll_fill_level :: nat

record PTW =
  ptw_id :: nat
  ptw_cpu :: nat
  ptw_MSHR_SIZE :: nat
  ptw_MAX_READ :: nat
  ptw_MAX_FILL :: nat
  ptw_RQ :: "PACKET delay_queue"
  ptw_MSHR :: "PACKET list"
  ptw_total_miss_latency :: u64
  PSCL5 :: PSC
  PSCL4 :: PSC
  PSCL3 :: PSC
  PSCL2 :: PSC
  CR3_addr :: u64
  ptw_current_cycle :: u64

record 'w ptw_state =
  ptw :: PTW
  vmem :: VirtualMemory
  lower :: 'w
  returned :: "(nat \<times> PACKET) list"

text \<open>
  The constructor; \<open>v2\<close> to \<open>v9\<close> are the sets and ways of the caches, \<open>v10\<close> the
  size of the read queue.
\<close>

definition PTW_new ::
  "constants \<Rightarrow> PACKET \<Rightarrow> u64 \<Rightarrow> u64 \<Rightarrow> nat \<Rightarrow> nat \<Rightarrow> nat \<times> nat \<Rightarrow> nat \<times> nat \<Rightarrow> nat \<times> nat \<Rightarrow> nat \<times> nat \<Rightarrow>
   nat \<Rightarrow> nat \<Rightarrow> nat \<Rightarrow> nat \<Rightarrow> nat \<Rightarrow> VirtualMemory \<Rightarrow> (PTW \<times> VirtualMemory) result" where
  "PTW_new c pkt a d this cpu s5 s4 s3 s2 rq mshr max_read max_fill latency vm =
     bindE (get_pte_pa c cpu 0 (pt_levels vm) vm) (\<lambda>(cr3, _, vm).
     Inr (\<lparr>ptw_id = this, ptw_cpu = cpu, ptw_MSHR_SIZE = mshr, ptw_MAX_READ = max_read,
           ptw_MAX_FILL = max_fill, ptw_RQ = dq_new pkt rq latency, ptw_MSHR = [],
           ptw_total_miss_latency = 0,
           PSCL5 = PSC_new a d 4 (fst s5) (snd s5), PSCL4 = PSC_new a d 3 (fst s4) (snd s4),
           PSCL3 = PSC_new a d 2 (fst s3) (snd s3), PSCL2 = PSC_new a d 1 (fst s2) (snd s2),
           CR3_addr = cr3, ptw_current_cycle = 0\<rparr>, vm))"

text \<open>
  \<open>return_data\<close> marks every entry waiting for the block and sorts the list,
  which \<open>std::list::sort\<close> does stably.
\<close>

definition ptw_wake :: "constants \<Rightarrow> u64 \<Rightarrow> PACKET \<Rightarrow> PACKET \<Rightarrow> PACKET" where
  "ptw_wake c now packet e =
     (if eq_addr_PACKET (p_address packet) (LOG2_BLOCK_SIZE c) e then e\<lparr>p_event_cycle := now\<rparr> else e)"

definition sort_mshr :: "PACKET list \<Rightarrow> PACKET list" where
  "sort_mshr = sort_by (ord_event_cycle is_valid_PACKET p_event_cycle)"

definition ptw_return_data :: "constants \<Rightarrow> PACKET \<Rightarrow> PTW \<Rightarrow> PTW" where
  "ptw_return_data c packet p =
     p\<lparr>ptw_MSHR := sort_mshr (map (ptw_wake c (ptw_current_cycle p) packet) (ptw_MSHR p))\<rparr>"

definition ptw_start :: "constants \<Rightarrow> VirtualMemory \<Rightarrow> PTW \<Rightarrow> u64 \<Rightarrow> u64 \<times> nat" where
  "ptw_start c vm p address =
     fold (\<lambda>pscl (ptw_addr, ptw_level).
             case check_hit c vm address pscl of
               Some a \<Rightarrow> (a, psc_level pscl - 1)
             | None \<Rightarrow> (ptw_addr, ptw_level))
       [PSCL5 p, PSCL4 p, PSCL3 p, PSCL2 p]
       (splice_bits (CR3_addr p) (get_offset c vm address (pt_levels vm - 1) * of_nat PTE_BYTES)
          (LOG2_PAGE_SIZE c), pt_levels vm - 1)"

fun ptw_handle_read ::
  "constants \<Rightarrow> 'w ptw_lower \<Rightarrow> nat \<Rightarrow> 'w ptw_state \<Rightarrow> 'w ptw_state result" where
  "ptw_handle_read c ll 0 s = Inr s"
| "ptw_handle_read c ll (Suc reads_this_cycle) s =
     (let p = ptw s in
      if dq_has_ready (ptw_RQ p) \<and> length (ptw_MSHR p) \<noteq> ptw_MSHR_SIZE p then
        let handle_pkt = dq_front (ptw_RQ p);
            (ptw_addr, ptw_level) = ptw_start c (vmem s) p (p_address handle_pkt);
            packet = handle_pkt\<lparr>p_fill_level := ll_fill_level ll, p_address := ptw_addr,
                       p_v_address := p_address handle_pkt, p_cpu := ptw_cpu p, p_type := TRANSLATION,
                       p_init_translation_level := ptw_level, p_translation_level := ptw_level,
                       p_to_return := [ptw_id p]\<rparr>
        in bindE (ll_add_rq ll packet (lower s)) (\<lambda>(rq_index, backs, w).
           let p = fold (ptw_return_data c) backs p;
               s = s\<lparr>ptw := p, lower := w\<rparr>
           in if rq_index = - 2 then Inr s
              else
                let packet = packet\<lparr>p_to_return := p_to_return handle_pkt, p_type := p_type handle_pkt,
                               p_cycle_enqueued := ptw_current_cycle p, p_event_cycle := - 1\<rparr>
                in bindE (dq_pop_front (ptw_RQ p)) (\<lambda>rq.
                     ptw_handle_read c ll reads_this_cycle
                       (s\<lparr>ptw := p\<lparr>ptw_MSHR := ptw_MSHR p @ [packet], ptw_RQ := rq\<rparr>\<rparr>)))
      else Inr s)"

text \<open>
  The caches filled when an access at \<open>level\<close> has returned (lines 114 to 121).
\<close>

definition ptw_fill_pscs :: "constants \<Rightarrow> VirtualMemory \<Rightarrow> nat \<Rightarrow> u64 \<Rightarrow> u64 \<Rightarrow> PTW \<Rightarrow> PTW" where
  "ptw_fill_pscs c vm level addr vaddr p =
     (let p = (if level = psc_level (PSCL5 p) then p\<lparr>PSCL5 := fill_cache c vm addr vaddr (PSCL5 p)\<rparr> else p);
          p = (if level = psc_level (PSCL4 p) then p\<lparr>PSCL4 := fill_cache c vm addr vaddr (PSCL4 p)\<rparr> else p);
          p = (if level = psc_level (PSCL2 p) then p\<lparr>PSCL3 := fill_cache c vm addr vaddr (PSCL3 p)\<rparr> else p);
          p = (if level = psc_level (PSCL2 p) then p\<lparr>PSCL2 := fill_cache c vm addr vaddr (PSCL2 p)\<rparr> else p)
      in p)"

text \<open>
  One iteration of \<open>handle_fill\<close> on the front entry \<open>e\<close> of the MSHR.  When the
  lower level answers within \<open>add_rq\<close>, the list is sorted while \<open>e\<close> is in it;
  as \<open>e\<close> then moves to the end, only the order of the others remains.
\<close>

definition ptw_finish :: "(nat \<Rightarrow> bool) \<Rightarrow> constants \<Rightarrow> PACKET \<Rightarrow> PACKET list \<Rightarrow> 'w ptw_state \<Rightarrow> 'w ptw_state result" where
  "ptw_finish warm c e rest s =
     (let p = ptw s in
      bindE (va_to_pa c (ptw_cpu p) (p_v_address e) (vmem s)) (\<lambda>(addr, fault, vm).
        if warm (ptw_cpu p) \<and> fault then
          let e = e\<lparr>p_event_cycle := ptw_current_cycle p + minor_fault_penalty vm\<rparr>
          in Inr (s\<lparr>ptw := p\<lparr>ptw_MSHR := sort_mshr (e # rest)\<rparr>, vmem := vm\<rparr>)
        else
          let e = e\<lparr>p_data := addr, p_address := p_v_address e\<rparr>;
              p = (if warm (ptw_cpu p)
                   then p\<lparr>ptw_total_miss_latency := ptw_total_miss_latency p + (ptw_current_cycle p - p_cycle_enqueued e)\<rparr>
                   else p)
          in Inr (s\<lparr>ptw := p\<lparr>ptw_MSHR := rest\<rparr>, vmem := vm,
                    returned := returned s @ map (\<lambda>r. (r, e)) (p_to_return e)\<rparr>)))"

definition ptw_step_level ::
  "(nat \<Rightarrow> bool) \<Rightarrow> constants \<Rightarrow> 'w ptw_lower \<Rightarrow> PACKET \<Rightarrow> PACKET list \<Rightarrow> 'w ptw_state \<Rightarrow> 'w ptw_state result" where
  "ptw_step_level warm c ll e rest s =
     (let p = ptw s in
      bindE (get_pte_pa c (ptw_cpu p) (p_v_address e) (p_translation_level e) (vmem s)) (\<lambda>(addr, fault, vm).
        if warm (ptw_cpu p) \<and> fault then
          let e = e\<lparr>p_event_cycle := ptw_current_cycle p + minor_fault_penalty vm\<rparr>
          in Inr (s\<lparr>ptw := p\<lparr>ptw_MSHR := sort_mshr (e # rest)\<rparr>, vmem := vm\<rparr>)
        else
          let p = ptw_fill_pscs c vm (p_translation_level e) addr (p_v_address e) p;
              packet = e\<lparr>p_cpu := ptw_cpu p, p_type := TRANSLATION, p_address := addr,
                         p_to_return := [ptw_id p], p_translation_level := p_translation_level e - 1\<rparr>
          in bindE (ll_add_rq ll packet (lower s)) (\<lambda>(rq_index, backs, w).
          let now = ptw_current_cycle p;
              wake_all = fold (\<lambda>b xs. sort_mshr (map (ptw_wake c now b) xs)) backs
          in if rq_index \<noteq> - 2 then
               let e = fold (ptw_wake c now) backs e;
                   e = e\<lparr>p_event_cycle := - 1, p_address := p_address packet,
                         p_translation_level := p_translation_level e - 1\<rparr>
               in Inr (s\<lparr>ptw := p\<lparr>ptw_MSHR := wake_all rest @ [e]\<rparr>, vmem := vm, lower := w\<rparr>)
             else Inr (s\<lparr>ptw := p\<lparr>ptw_MSHR := wake_all (e # rest)\<rparr>, vmem := vm, lower := w\<rparr>))))"

fun ptw_handle_fill ::
  "(nat \<Rightarrow> bool) \<Rightarrow> constants \<Rightarrow> 'w ptw_lower \<Rightarrow> nat \<Rightarrow> 'w ptw_state \<Rightarrow> 'w ptw_state result" where
  "ptw_handle_fill warm c ll 0 s = Inr s"
| "ptw_handle_fill warm c ll (Suc fill_this_cycle) s =
     (case ptw_MSHR (ptw s) of
        [] \<Rightarrow> Inr s
      | e # rest \<Rightarrow>
          if p_event_cycle e \<le> ptw_current_cycle (ptw s) then
            bindE (if p_translation_level e = 0 then ptw_finish warm c e rest s
                   else ptw_step_level warm c ll e rest s)
              (ptw_handle_fill warm c ll fill_this_cycle)
          else Inr s)"

definition ptw_operate :: "(nat \<Rightarrow> bool) \<Rightarrow> constants \<Rightarrow> 'w ptw_lower \<Rightarrow> 'w ptw_state \<Rightarrow> 'w ptw_state result" where
  "ptw_operate warm c ll s =
     bindE (ptw_handle_fill warm c ll (ptw_MAX_FILL (ptw s)) s) (\<lambda>s.
     bindE (ptw_handle_read c ll (ptw_MAX_READ (ptw s)) s) (\<lambda>s.
     Inr (s\<lparr>ptw := (ptw s)\<lparr>ptw_RQ := dq_operate (ptw_RQ (ptw s))\<rparr>\<rparr>)))"

definition ptw_add_rq :: "constants \<Rightarrow> PACKET \<Rightarrow> PTW \<Rightarrow> (int \<times> PTW) result" where
  "ptw_add_rq c packet p =
     bindE (assertE ''packet->address != 0'' (p_address packet \<noteq> 0)) (\<lambda>_.
     bindE (assertE ''found_rq == RQ.end()''
       (\<forall>q \<in> set (dq_list (ptw_RQ p)). \<not> eq_addr_PACKET (p_address packet) (LOG2_PAGE_SIZE c) q)) (\<lambda>_.
     if dq_full (ptw_RQ p) then Inr (- 2, p)
     else bindE (dq_push_back packet (ptw_RQ p)) (\<lambda>rq.
       Inr (int (dq_occupancy rq), p\<lparr>ptw_RQ := rq\<rparr>))))"

definition ptw_get_occupancy :: "nat \<Rightarrow> u64 \<Rightarrow> PTW \<Rightarrow> nat" where
  "ptw_get_occupancy queue_type address p =
     (if queue_type = 0 then count_if is_valid_PACKET (ptw_MSHR p)
      else if queue_type = 1 then dq_occupancy (ptw_RQ p) else 0)"

definition ptw_get_size :: "nat \<Rightarrow> u64 \<Rightarrow> PTW \<Rightarrow> nat" where
  "ptw_get_size queue_type address p =
     (if queue_type = 0 then ptw_MSHR_SIZE p else if queue_type = 1 then dq_size (ptw_RQ p) else 0)"

section \<open>Paging structure caches: hits and replacement\<close>

definition psc_wf :: "PSC \<Rightarrow> bool" where
  "psc_wf p \<longleftrightarrow> (\<exists>k. psc_NUM_SET p = 2 ^ k) \<and> 0 < psc_NUM_WAY p
     \<and> length (psc_block p) = psc_NUM_SET p * psc_NUM_WAY p"

abbreviation psc_ways :: "PSC \<Rightarrow> nat \<Rightarrow> psc_block list" where
  "psc_ways p st \<equiv> slice (st * psc_NUM_WAY p) (psc_NUM_WAY p) (psc_block p)"

lemma psc_set_idx_less: "psc_wf p \<Longrightarrow> psc_set_idx c vm p a < psc_NUM_SET p"
  by (auto simp: psc_wf_def psc_set_idx_def and_bitmask_unat)

lemma psc_range:
  assumes "psc_wf p" "st < psc_NUM_SET p"
  shows "st * psc_NUM_WAY p + psc_NUM_WAY p \<le> length (psc_block p)"
  using assms set_index_bound [OF assms(2), of "psc_NUM_WAY p"] by (simp add: psc_wf_def)

lemma psc_ways_ne:
  assumes "psc_wf p" "st < psc_NUM_SET p"
  shows "length (psc_ways p st) = psc_NUM_WAY p" "psc_ways p st \<noteq> []"
  using psc_range [OF assms] assms(1)
  by (auto simp: psc_wf_def length_slice simp flip: length_greater_0_conv)

text \<open>What a fill does to the sets of the cache.\<close>

definition psc_filled :: "u64 \<Rightarrow> u64 \<Rightarrow> psc_block list \<Rightarrow> psc_block list" where
  "psc_filled paddr vaddr ways =
     (let w = max_element (lru_comparator pb_valid pb_lru) ways; l = pb_lru (ways ! w)
      in map (lru_updater pb_lru (\<lambda>v x. x\<lparr>pb_lru := v\<rparr>) l)
           (ways[w := \<lparr>pb_valid = True, pb_address = vaddr, pb_data = paddr, pb_lru = l\<rparr>]))"

lemma fill_cache_sel [simp]:
  "psc_NUM_SET (fill_cache c vm pa va p) = psc_NUM_SET p"
  "psc_NUM_WAY (fill_cache c vm pa va p) = psc_NUM_WAY p"
  "psc_level (fill_cache c vm pa va p) = psc_level p"
  by (simp_all add: fill_cache_def Let_def)

lemma psc_set_idx_fill [simp]: "psc_set_idx c vm (fill_cache c vm' pa va p) a = psc_set_idx c vm p a"
  by (simp add: psc_set_idx_def)

lemma fill_cache_wf: "psc_wf p \<Longrightarrow> psc_wf (fill_cache c vm pa va p)"
  using psc_range [of p "psc_set_idx c vm p va"] psc_set_idx_less [of p c vm va]
  by (simp add: psc_wf_def fill_cache_def Let_def)

lemma fill_cache_ways:
  assumes "psc_wf p" "st < psc_NUM_SET p"
  shows "psc_ways (fill_cache c vm pa va p) st =
    (if st = psc_set_idx c vm p va then psc_filled pa va (psc_ways p st) else psc_ways p st)"
proof -
  let ?n = "psc_NUM_WAY p" and ?i = "psc_set_idx c vm p va"
  let ?w = "max_element (lru_comparator pb_valid pb_lru) (psc_ways p ?i)"
  note ir = psc_range [OF assms(1) psc_set_idx_less [OF assms(1), of c vm va]]
  have w: "?w < ?n"
    using max_element_less [OF psc_ways_ne(2)] psc_ways_ne(1) psc_set_idx_less assms(1) by metis
  show ?thesis
  proof (cases "st = ?i")
    case True
    with ir w show ?thesis
      by (simp add: fill_cache_def psc_filled_def Let_def slice_map_slice slice_update)
  next
    case False
    then have ne: "?i \<noteq> st" by simp
    show ?thesis
      using False w psc_range [OF assms] ir
      by (simp add: fill_cache_def Let_def slice_map_slice_other [OF ne] slice_other_set [OF ne])
  qed
qed

text \<open>
  A fresh cache gives all blocks of a set the same rank, and \<open>lru_updater\<close>
  resets every block whose rank equals that of the filled block.
\<close>

definition psc_uniform :: "PSC \<Rightarrow> bool" where
  "psc_uniform p \<longleftrightarrow> (\<forall>st < psc_NUM_SET p. \<forall>x \<in> set (psc_ways p st). \<forall>y \<in> set (psc_ways p st). pb_lru x = pb_lru y)"

lemma psc_uniform_new: "psc_uniform (PSC_new a d level sets ways)"
proof -
  have "x = psc_block_new a d" if "x \<in> set (psc_ways (PSC_new a d level sets ways) st)" for st x
    using that set_slice_subset [of "st * ways" ways "replicate (sets * ways) (psc_block_new a d)"]
    by (auto simp: PSC_new_def)
  then show ?thesis by (auto simp: psc_uniform_def)
qed

lemma psc_filled_lru:
  assumes "ways \<noteq> []" "\<forall>x \<in> set ways. \<forall>y \<in> set ways. pb_lru x = pb_lru y"
    "x \<in> set (psc_filled pa va ways)"
  shows "pb_lru x = 0"
proof -
  let ?w = "max_element (lru_comparator pb_valid pb_lru) ways"
  have w: "ways ! ?w \<in> set ways" using max_element_less [OF assms(1)] by simp
  from assms(3) obtain y where y: "x = lru_updater pb_lru (\<lambda>v x. x\<lparr>pb_lru := v\<rparr>) (pb_lru (ways ! ?w)) y"
    "y \<in> insert \<lparr>pb_valid = True, pb_address = va, pb_data = pa, pb_lru = pb_lru (ways ! ?w)\<rparr> (set ways)"
    using set_update_subset_insert [of ways ?w] by (auto simp: psc_filled_def Let_def)
  have "pb_lru z = pb_lru (ways ! ?w)" if "z \<in> set ways" for z
    using bspec [OF bspec [OF assms(2) that] w] .
  with y(2) have "pb_lru y = pb_lru (ways ! ?w)" by auto
  with y(1) show ?thesis by (simp add: lru_updater_def)
qed

lemma psc_uniform_fill:
  assumes "psc_wf p" "psc_uniform p"
  shows "psc_uniform (fill_cache c vm pa va p)"
proof -
  have eq: "pb_lru x = pb_lru y" if st: "st < psc_NUM_SET p"
    and xy: "x \<in> set (psc_ways (fill_cache c vm pa va p) st)" "y \<in> set (psc_ways (fill_cache c vm pa va p) st)"
    for st x y
  proof (cases "st = psc_set_idx c vm p va")
    case True
    have u: "\<forall>x \<in> set (psc_ways p st). \<forall>y \<in> set (psc_ways p st). pb_lru x = pb_lru y"
      using assms(2) st unfolding psc_uniform_def by blast
    from xy have "x \<in> set (psc_filled pa va (psc_ways p st))" "y \<in> set (psc_filled pa va (psc_ways p st))"
      using True unfolding fill_cache_ways [OF assms(1) st] by auto
    with psc_filled_lru [OF psc_ways_ne(2) [OF assms(1) st] u] show ?thesis by simp
  next
    case False
    with xy have "x \<in> set (psc_ways p st)" "y \<in> set (psc_ways p st)"
      unfolding fill_cache_ways [OF assms(1) st] by auto
    with assms(2) st show ?thesis unfolding psc_uniform_def by blast
  qed
  show ?thesis
    unfolding psc_uniform_def by (intro allI impI ballI) (rule eq, simp_all only: fill_cache_sel)
qed

lemma psc_fills:
  assumes "psc_wf p" "psc_uniform p"
  shows "psc_wf (fold (\<lambda>(pa, va). fill_cache c vm pa va) fills p)
    \<and> psc_uniform (fold (\<lambda>(pa, va). fill_cache c vm pa va) fills p)"
  using assms
  by (induction fills arbitrary: p) (auto intro: fill_cache_wf psc_uniform_fill)

lemma psc_filled_hit:
  assumes "ways \<noteq> []" "find_if (eq_addr pb_valid pb_address a n) ways = length ways"
    "drop_bit n va = drop_bit n a"
  defines "w \<equiv> max_element (lru_comparator pb_valid pb_lru) ways"
  shows "find_if (eq_addr pb_valid pb_address a n) (psc_filled pa va ways) = w"
    "w < length ways" "pb_data (psc_filled pa va ways ! w) = pa"
proof -
  show w: "w < length ways" using max_element_less [OF assms(1)] by (simp add: w_def)
  let ?u = "lru_updater pb_lru (\<lambda>v x. x\<lparr>pb_lru := v\<rparr>) (pb_lru (ways ! w))"
  have f: "psc_filled pa va ways = map ?u (ways[w := \<lparr>pb_valid = True, pb_address = va, pb_data = pa,
      pb_lru = pb_lru (ways ! w)\<rparr>])"
    by (simp add: psc_filled_def Let_def w_def)
  have miss: "\<not> eq_addr pb_valid pb_address a n (ways ! j)" if "j < length ways" for j
    using assms(2) that by (simp add: find_if_eq_length_iff)
  have keep: "eq_addr pb_valid pb_address a n (?u x) \<longleftrightarrow> eq_addr pb_valid pb_address a n x" for x
    by (simp add: eq_addr_def lru_updater_def)
  show "find_if (eq_addr pb_valid pb_address a n) (psc_filled pa va ways) = w"
  proof (rule find_if_unique)
    show "w < length (psc_filled pa va ways)" using w by (simp add: f)
    show "eq_addr pb_valid pb_address a n (psc_filled pa va ways ! w)"
      using w assms(3) by (simp add: f keep) (simp add: eq_addr_def)
    show "\<not> eq_addr pb_valid pb_address a n (psc_filled pa va ways ! j)" if "j < w" for j
      using that w miss [of j] by (simp add: f keep)
  qed
  show "pb_data (psc_filled pa va ways ! w) = pa"
    using w by (simp add: f lru_updater_def)
qed

lemma check_hit_fill:
  assumes "psc_wf p" "check_hit c vm a p = None"
    "drop_bit (shamt c vm (psc_level p + 1)) va = drop_bit (shamt c vm (psc_level p + 1)) a"
  shows "check_hit c vm a (fill_cache c vm pa va p) =
    Some (splice_bits pa (get_offset c vm a (psc_level p) * of_nat PTE_BYTES) (LOG2_PAGE_SIZE c))"
proof -
  let ?st = "psc_set_idx c vm p a"
  let ?ways = "psc_ways p ?st"
  let ?eq = "eq_addr pb_valid pb_address a (shamt c vm (psc_level p + 1))"
  have st: "psc_set_idx c vm p va = ?st" using assms(3) by (simp add: psc_set_idx_def)
  have ne: "?ways \<noteq> []" by (rule psc_ways_ne [OF assms(1) psc_set_idx_less [OF assms(1)]])
  have miss: "find_if ?eq ?ways = length ?ways"
    using assms(2) by (simp add: check_hit_def Let_def split: if_splits)
  note h = psc_filled_hit(1,3) [OF ne miss assms(3), of pa] psc_filled_hit(2) [OF ne miss assms(3)]
  have "psc_ways (fill_cache c vm pa va p) ?st = psc_filled pa va ?ways"
    using fill_cache_ways [OF assms(1) psc_set_idx_less [OF assms(1)], of c vm a c vm pa va] st by simp
  moreover have "length (psc_filled pa va ?ways) = length ?ways" by (simp add: psc_filled_def Let_def)
  ultimately show ?thesis
    using h by (simp add: check_hit_def Let_def)
qed

section \<open>The walker\<close>

lemma length_sort_mshr [simp]: "length (sort_mshr xs) = length xs"
  by (simp add: sort_mshr_def)

lemma set_sort_mshr [simp]: "set (sort_mshr xs) = set xs"
  by (simp add: sort_mshr_def)

lemma ptw_return_data_sel [simp]:
  "ptw_cpu (ptw_return_data c x p) = ptw_cpu p"
  "ptw_MSHR_SIZE (ptw_return_data c x p) = ptw_MSHR_SIZE p"
  "length (ptw_MSHR (ptw_return_data c x p)) = length (ptw_MSHR p)"
  by (simp_all add: ptw_return_data_def)

lemma ptw_return_fold [simp]:
  "ptw_cpu (fold (ptw_return_data c) backs p) = ptw_cpu p"
  "ptw_MSHR_SIZE (fold (ptw_return_data c) backs p) = ptw_MSHR_SIZE p"
  "length (ptw_MSHR (fold (ptw_return_data c) backs p)) = length (ptw_MSHR p)"
  by (induction backs arbitrary: p) simp_all

lemma ptw_wake_fold [simp]:
  "length (fold (\<lambda>b xs. sort_mshr (map (ptw_wake c now b) xs)) backs xs) = length xs"
  by (induction backs arbitrary: xs) simp_all

lemma ptw_fill_pscs_sel [simp]:
  "ptw_cpu (ptw_fill_pscs c vm l a v p) = ptw_cpu p"
  "ptw_MSHR_SIZE (ptw_fill_pscs c vm l a v p) = ptw_MSHR_SIZE p"
  "ptw_MSHR (ptw_fill_pscs c vm l a v p) = ptw_MSHR p"
  by (simp_all add: ptw_fill_pscs_def Let_def)

text \<open>
  What a step of the walker does to what others see: the configuration and the
  bound of the MSHR are kept, mappings are only added, and the packets it
  returns are finished translations.
\<close>

definition translated :: "constants \<Rightarrow> nat \<Rightarrow> VirtualMemory \<Rightarrow> PACKET \<Rightarrow> bool" where
  "translated c cpu vm e \<longleftrightarrow> p_translation_level e = 0 \<and> p_address e = p_v_address e
     \<and> (\<exists>p. vpage_to_ppage_map vm (cpu, drop_bit (LOG2_PAGE_SIZE c) (p_v_address e)) = Some p
            \<and> p_data e = splice_bits p (p_v_address e) (LOG2_PAGE_SIZE c))"

definition ptw_progress :: "constants \<Rightarrow> 'w ptw_state \<Rightarrow> 'w ptw_state \<Rightarrow> bool" where
  "ptw_progress c s t \<longleftrightarrow> ptw_cpu (ptw t) = ptw_cpu (ptw s)
     \<and> ptw_MSHR_SIZE (ptw t) = ptw_MSHR_SIZE (ptw s)
     \<and> (length (ptw_MSHR (ptw s)) \<le> ptw_MSHR_SIZE (ptw s) \<longrightarrow>
        length (ptw_MSHR (ptw t)) \<le> ptw_MSHR_SIZE (ptw t))
     \<and> vpage_to_ppage_map (vmem s) \<subseteq>\<^sub>m vpage_to_ppage_map (vmem t)
     \<and> (\<exists>new. returned t = returned s @ new
          \<and> (\<forall>(r, e) \<in> set new. translated c (ptw_cpu (ptw s)) (vmem t) e))"

lemma translated_mono:
  "translated c cpu vm e \<Longrightarrow> vpage_to_ppage_map vm \<subseteq>\<^sub>m vpage_to_ppage_map vm' \<Longrightarrow> translated c cpu vm' e"
  by (fastforce simp: translated_def map_le_def dom_def)

lemma ptw_progress_refl: "ptw_progress c s s"
  by (simp add: ptw_progress_def)

lemma ptw_progress_trans:
  assumes "ptw_progress c s t" "ptw_progress c t u"
  shows "ptw_progress c s u"
proof -
  from assms obtain n m where
    n: "returned t = returned s @ n" "\<forall>(r, e) \<in> set n. translated c (ptw_cpu (ptw s)) (vmem t) e" and
    m: "returned u = returned t @ m" "\<forall>(r, e) \<in> set m. translated c (ptw_cpu (ptw s)) (vmem u) e"
    by (auto simp: ptw_progress_def)
  have le: "vpage_to_ppage_map (vmem t) \<subseteq>\<^sub>m vpage_to_ppage_map (vmem u)"
    using assms(2) by (simp add: ptw_progress_def)
  have "\<forall>(r, e) \<in> set (n @ m). translated c (ptw_cpu (ptw s)) (vmem u) e"
    using n(2) m(2) translated_mono [OF _ le] by fastforce
  with assms n(1) m(1) show ?thesis
    unfolding ptw_progress_def by (auto intro: map_le_trans)
qed

lemma ptw_finish_progress:
  assumes "ptw_MSHR (ptw s) = e # rest" "p_translation_level e = 0" "ptw_finish warm c e rest s = Inr t"
  shows "ptw_progress c s t"
proof -
  let ?cpu = "ptw_cpu (ptw s)"
  from assms(3) obtain addr fault vm where
    v: "va_to_pa c ?cpu (p_v_address e) (vmem s) = Inr (addr, fault, vm)"
    by (auto simp: ptw_finish_def Let_def errs)
  note m = va_to_pa_map [OF v]
  show ?thesis
  proof (cases "warm ?cpu \<and> fault")
    case True
    with v assms m show ?thesis
      by (auto simp: ptw_finish_def Let_def ptw_progress_def)
  next
    case False
    let ?e = "e\<lparr>p_data := addr, p_address := p_v_address e\<rparr>"
    have "translated c ?cpu vm ?e" using m(2) assms(2) by (auto simp: translated_def)
    with False v assms m(1) show ?thesis
      by (auto simp: ptw_finish_def Let_def ptw_progress_def)
  qed
qed

lemma ptw_step_level_progress:
  assumes "ptw_MSHR (ptw s) = e # rest" "ptw_step_level warm c ll e rest s = Inr t"
  shows "ptw_progress c s t"
proof -
  from assms(2) obtain addr fault vm where
    v: "get_pte_pa c (ptw_cpu (ptw s)) (p_v_address e) (p_translation_level e) (vmem s) = Inr (addr, fault, vm)"
    by (auto simp: ptw_step_level_def Let_def errs)
  from assms v get_pte_pa_map [OF v] show ?thesis
    by (auto simp: ptw_step_level_def Let_def ptw_progress_def errs split: if_splits prod.splits)
qed

lemma ptw_handle_fill_progress:
  "ptw_handle_fill warm c ll n s = Inr t \<Longrightarrow> ptw_progress c s t"
proof (induction n arbitrary: s)
  case (Suc n)
  show ?case
  proof (cases "ptw_MSHR (ptw s)")
    case (Cons e rest)
    show ?thesis
    proof (cases "p_event_cycle e \<le> ptw_current_cycle (ptw s)")
      case True
      with Suc.prems Cons obtain u where
        u: "(if p_translation_level e = 0 then ptw_finish warm c e rest s
             else ptw_step_level warm c ll e rest s) = Inr u" "ptw_handle_fill warm c ll n u = Inr t"
        by (auto simp: bindE_Inr_iff)
      have "ptw_progress c s u"
        using u(1) ptw_finish_progress [OF Cons] ptw_step_level_progress [OF Cons] by (simp split: if_splits)
      with Suc.IH [OF u(2)] show ?thesis by (blast intro: ptw_progress_trans)
    qed (use Suc.prems Cons ptw_progress_refl in simp)
  qed (use Suc.prems ptw_progress_refl in simp)
qed (simp add: ptw_progress_refl)

lemma ptw_handle_read_progress:
  "ptw_handle_read c ll n s = Inr t \<Longrightarrow> ptw_progress c s t"
proof (induction n arbitrary: s)
  case (Suc n)
  let ?p = "ptw s"
  let ?pkt = "dq_front (ptw_RQ ?p)"
  obtain a l where al: "ptw_start c (vmem s) ?p (p_address ?pkt) = (a, l)" by fastforce
  show ?case
  proof (cases "dq_has_ready (ptw_RQ ?p) \<and> length (ptw_MSHR ?p) \<noteq> ptw_MSHR_SIZE ?p")
    case True
    let ?packet = "?pkt\<lparr>p_fill_level := ll_fill_level ll, p_address := a,
       p_v_address := p_address ?pkt, p_cpu := ptw_cpu ?p, p_type := TRANSLATION,
       p_init_translation_level := l, p_translation_level := l, p_to_return := [ptw_id ?p]\<rparr>"
    from True Suc.prems al obtain rq backs w where add: "ll_add_rq ll ?packet (lower s) = Inr (rq, backs, w)"
      by (auto simp: Let_def bindE_Inr_iff)
    let ?q = "fold (ptw_return_data c) backs ?p"
    show ?thesis
    proof (cases "rq = - 2")
      case True
      with Suc.prems \<open>dq_has_ready (ptw_RQ ?p) \<and> length (ptw_MSHR ?p) \<noteq> ptw_MSHR_SIZE ?p\<close> al add
      show ?thesis by (auto simp: ptw_progress_def Let_def)
    next
      case False
      with Suc.prems True al add obtain pk rq' where
        t: "ptw_handle_read c ll n (s\<lparr>lower := w, ptw := ?q\<lparr>ptw_MSHR := ptw_MSHR ?q @ [pk], ptw_RQ := rq'\<rparr>\<rparr>) = Inr t"
        by (auto simp: Let_def bindE_Inr_iff)
      have "ptw_progress c s (s\<lparr>lower := w, ptw := ?q\<lparr>ptw_MSHR := ptw_MSHR ?q @ [pk], ptw_RQ := rq'\<rparr>\<rparr>)"
        using True by (auto simp: ptw_progress_def)
      with Suc.IH [OF t] show ?thesis by (blast intro: ptw_progress_trans)
    qed
  qed (use Suc.prems ptw_progress_refl in \<open>auto simp: Let_def\<close>)
qed (simp add: ptw_progress_refl)

lemma ptw_operate_progress:
  assumes "ptw_operate warm c ll s = Inr t"
  shows "ptw_progress c s t"
proof -
  from assms obtain u v where u: "ptw_handle_fill warm c ll (ptw_MAX_FILL (ptw s)) s = Inr u"
    "ptw_handle_read c ll (ptw_MAX_READ (ptw u)) u = Inr v"
    "t = v\<lparr>ptw := (ptw v)\<lparr>ptw_RQ := dq_operate (ptw_RQ (ptw v))\<rparr>\<rparr>"
    by (auto simp: ptw_operate_def errs)
  have "ptw_progress c v t" using u(3) by (simp add: ptw_progress_def)
  with ptw_handle_fill_progress [OF u(1)] ptw_handle_read_progress [OF u(2)] show ?thesis
    by (blast intro: ptw_progress_trans)
qed

lemma ptw_add_rq_ok:
  assumes "ptw_add_rq c packet p = Inr (r, q)" "dq_wf (ptw_RQ p)"
  shows "r = - 2 \<and> q = p \<and> length (dq_list (ptw_RQ p)) = dq_size (ptw_RQ p)
    \<or> dq_wf (ptw_RQ q) \<and> dq_list (ptw_RQ q) = dq_list (ptw_RQ p) @ [packet]
       \<and> dq_size (ptw_RQ q) = dq_size (ptw_RQ p) \<and> r = int (length (dq_list (ptw_RQ q)))"
proof (cases "dq_full (ptw_RQ p)")
  case True
  with assms show ?thesis
    by (auto simp: ptw_add_rq_def errs dq_full_list)
next
  case False
  with assms(1) obtain rq where rq: "dq_push_back packet (ptw_RQ p) = Inr rq"
    "r = int (dq_occupancy rq)" "q = p\<lparr>ptw_RQ := rq\<rparr>"
    by (auto simp: ptw_add_rq_def errs)
  with dqq.enqD [OF assms(2) rq(1)] show ?thesis
    by (simp add: dq_occupancy_list)
qed

interpretation ptw_rq: request_consumer "\<lambda>p. dq_wf (ptw_RQ p)" "\<lambda>p. dq_list (ptw_RQ p)"
  "\<lambda>p. dq_size (ptw_RQ p)" "ptw_add_rq c" for c
proof unfold_locales
  fix p q :: PTW and pkt r
  assume p: "dq_wf (ptw_RQ p)"
  show "length (dq_list (ptw_RQ p)) \<le> dq_size (ptw_RQ p)" using dqq.bounded [OF p] .
  note ok = ptw_add_rq_ok [OF _ p]
  show "dq_wf (ptw_RQ q) \<and> dq_size (ptw_RQ q) = dq_size (ptw_RQ p) \<and> - 2 \<le> r" if "ptw_add_rq c pkt p = Inr (r, q)"
    using ok [OF that] p by auto
  show "dq_list (ptw_RQ q) = dq_list (ptw_RQ p) \<and> length (dq_list (ptw_RQ p)) = dq_size (ptw_RQ p)"
    if "ptw_add_rq c pkt p = Inr (- 2, q)"
    using ok [OF that] by auto
  show "length (dq_list (ptw_RQ q)) = length (dq_list (ptw_RQ p))"
    if "ptw_add_rq c pkt p = Inr (r, q)" "r = - 1 \<or> r = 0"
    using ok [OF that(1)] that(2) by auto
  show "dq_list (ptw_RQ q) = dq_list (ptw_RQ p) @ [pkt] \<and> r = int (length (dq_list (ptw_RQ q)))"
    if "ptw_add_rq c pkt p = Inr (r, q)" "0 < r"
    using ok [OF that(1)] that(2) by auto
qed

section \<open>Properties\<close>

text \<open>
  C25: The walker returns translations.  Every packet for which \<open>operate()\<close> calls
  \<open>return_data\<close> of a requester has gone through all levels, carries its
  virtual address again as its address, and its data is the physical address
  that the page map holds for that page of the walker's core; mappings are
  never taken back, and the MSHR stays within its size.
\<close>

theorem ptw_returns_translations:
  assumes "ptw_operate warm c ll s = Inr t" "length (ptw_MSHR (ptw s)) \<le> ptw_MSHR_SIZE (ptw s)"
  shows "\<exists>new. returned t = returned s @ new
    \<and> (\<forall>(r, e) \<in> set new. p_translation_level e = 0 \<and> p_address e = p_v_address e
        \<and> (\<exists>p. vpage_to_ppage_map (vmem t) (ptw_cpu (ptw s), drop_bit (LOG2_PAGE_SIZE c) (p_v_address e)) = Some p
             \<and> p_data e = splice_bits p (p_v_address e) (LOG2_PAGE_SIZE c)))
    \<and> vpage_to_ppage_map (vmem s) \<subseteq>\<^sub>m vpage_to_ppage_map (vmem t)
    \<and> length (ptw_MSHR (ptw t)) \<le> ptw_MSHR_SIZE (ptw t)"
  using ptw_operate_progress [OF assms(1)] assms(2)
  unfolding ptw_progress_def translated_def by blast

definition ptw_example :: PTW where
  "ptw_example =
     \<lparr>ptw_id = 7, ptw_cpu = 0, ptw_MSHR_SIZE = 4, ptw_MAX_READ = 1, ptw_MAX_FILL = 1,
      ptw_RQ = dq_new (PACKET_new constants_default 0) 4 0,
      ptw_MSHR = [(PACKET_new constants_default 0)\<lparr>p_address := 1048640, p_v_address := 8200,
                    p_event_cycle := 3, p_to_return := [2]\<rparr>],
      ptw_total_miss_latency = 0, PSCL5 = PSC_new 0 0 4 1 2, PSCL4 = PSC_new 0 0 3 1 2,
      PSCL3 = PSC_new 0 0 2 1 2, PSCL2 = PSC_new 0 0 1 1 2, CR3_addr = 1048576, ptw_current_cycle = 5\<rparr>"

theorem ptw_returns_translations_witness:
  "let s = \<lparr>ptw = ptw_example, vmem = small_vmem, lower = (), returned = []\<rparr>;
       ll = \<lparr>ll_add_rq = (\<lambda>_ w. Inr (1, [], w)), ll_fill_level = 1\<rparr>
   in \<exists>t r e. ptw_operate (\<lambda>_. False) constants_default ll s = Inr t \<and> returned t = [(r, e)]
       \<and> p_address e = 8200
       \<and> (\<exists>p. vpage_to_ppage_map (vmem t) (0, drop_bit 12 8200) = Some p \<and> p_data e = splice_bits p 8200 12)"
proof -
  let ?s = "\<lparr>ptw = ptw_example, vmem = small_vmem, lower = (), returned = []\<rparr>"
  let ?ll = "\<lparr>ll_add_rq = (\<lambda>_ w. Inr (1, [], w)), ll_fill_level = 1\<rparr>"
  obtain t e where t: "ptw_operate (\<lambda>_. False) constants_default ?ll ?s = Inr t"
    "returned t = [(2, e)]" "p_v_address e = 8200"
    by (simp add: ptw_operate_def ptw_example_def ptw_finish_def va_to_pa_def small_vmem_def
        PACKET_new_def Let_def)
  have "LOG2_PAGE_SIZE constants_default = 12" by (simp add: constants_default_def)
  moreover have "length (ptw_MSHR (ptw ?s)) \<le> ptw_MSHR_SIZE (ptw ?s)" "ptw_cpu (ptw ?s) = 0"
    by (simp_all add: ptw_example_def)
  ultimately show ?thesis
    using ptw_returns_translations [OF t(1)] t by (auto simp: Let_def)
qed

text \<open>
  A paging structure cache that misses an address and is then filled for an
  address of the same region hits it, and the hit is the entry of the filled
  page table page that belongs to the address at the cache's level.
\<close>

theorem psc_fill_then_hit:
  assumes "psc_wf p" "check_hit c vm a p = None"
    "drop_bit (shamt c vm (psc_level p + 1)) va = drop_bit (shamt c vm (psc_level p + 1)) a"
  shows "check_hit c vm a (fill_cache c vm pa va p) =
    Some (splice_bits pa (get_offset c vm a (psc_level p) * 8) (LOG2_PAGE_SIZE c))"
  using check_hit_fill [OF assms] by simp

lemma PSC_new_wf: "0 < ways \<Longrightarrow> psc_wf (PSC_new a d level (2 ^ k) ways)"
  by (auto simp: psc_wf_def PSC_new_def)

lemma PSC_new_miss: "check_hit c vm a (PSC_new b d level sets ways) = None"
proof -
  have "\<not> eq_addr pb_valid pb_address x n y" if "y \<in> set (slice i k (replicate m (psc_block_new b d)))"
    for x n y i k m
    using that set_slice_subset [of i k "replicate m (psc_block_new b d)"]
    by (auto simp: eq_addr_def psc_block_new_def)
  then show ?thesis
    by (simp add: check_hit_def PSC_new_def Let_def find_if_eq_length_iff)
qed

theorem psc_fill_then_hit_witness:
  "check_hit constants_default small_vmem 8200 (fill_cache constants_default small_vmem 1052672 8192 (PSC_new 0 0 1 2 2))
    = Some (splice_bits 1052672 (get_offset constants_default small_vmem 8200 1 * 8) 12)"
proof -
  have "shamt constants_default small_vmem 2 = 30"
    by (simp add: shamt_def constants_default_def small_vmem_def)
  then have "drop_bit (shamt constants_default small_vmem 2) (8192::u64)
      = drop_bit (shamt constants_default small_vmem 2) 8200"
    by (simp add: drop_bit_eq_div)
  moreover have "psc_level (PSC_new 0 0 1 2 2) = 1" by (simp add: PSC_new_def)
  ultimately show ?thesis
    using psc_fill_then_hit [OF PSC_new_wf [of 2 0 0 1 1] PSC_new_miss, of constants_default small_vmem 8192 8200 1052672]
    by (simp add: numeral_2_eq_2 [symmetric]) (simp add: constants_default_def)
qed



text \<open>
  C27: The third-level cache is filled at the wrong level.  When an access at
  level 2, the level of \<open>PSCL3\<close>, has returned, \<open>PSCL3\<close> is not filled; it is
  filled when the access at level 1 returns, with a page table page of level 1.
  A later walk in the same region that misses in \<open>PSCL2\<close> then starts from that
  page with an offset computed for level 2.
\<close>

theorem ptw_fills_pscl3_at_wrong_level:
  assumes "psc_level (PSCL5 p) = 4" "psc_level (PSCL4 p) = 3" "psc_level (PSCL3 p) = 2" "psc_level (PSCL2 p) = 1"
    "psc_wf (PSCL3 p)" "check_hit c vm a (PSCL3 p) = None" "drop_bit (shamt c vm 3) va = drop_bit (shamt c vm 3) a"
  shows "PSCL3 (ptw_fill_pscs c vm 2 addr va p) = PSCL3 p
    \<and> check_hit c vm a (PSCL3 (ptw_fill_pscs c vm 1 addr va p))
      = Some (splice_bits addr (get_offset c vm a 2 * 8) (LOG2_PAGE_SIZE c))"
  using assms check_hit_fill [OF assms(5,6), of va addr]
  by (simp add: ptw_fill_pscs_def Let_def eval_nat_numeral)

theorem ptw_fills_pscl3_at_wrong_level_witness:
  "PSCL3 (ptw_fill_pscs constants_default small_vmem 2 1052672 8192 ptw_example) = PSCL3 ptw_example
    \<and> check_hit constants_default small_vmem 8192 (PSCL3 (ptw_fill_pscs constants_default small_vmem 1 1052672 8192 ptw_example))
      = Some (splice_bits 1052672 (get_offset constants_default small_vmem 8192 2 * 8) 12)"
proof -
  have "psc_level (PSCL5 ptw_example) = 4" "psc_level (PSCL4 ptw_example) = 3"
    "psc_level (PSCL3 ptw_example) = 2" "psc_level (PSCL2 ptw_example) = 1"
    "psc_wf (PSCL3 ptw_example)" "check_hit constants_default small_vmem 8192 (PSCL3 ptw_example) = None"
    using PSC_new_wf [of 2 0 0 2 0] PSC_new_miss [of constants_default small_vmem 8192 0 0 2 1 2]
    by (simp_all add: ptw_example_def) (simp_all add: PSC_new_def)
  from ptw_fills_pscl3_at_wrong_level [OF this refl] show ?thesis
    by (simp add: constants_default_def)
qed

end
