(* ===== verification/Cache.thy ===== *)
theory Cache
  imports VirtualMemory DelayQueue Replacement
begin

text \<open>
  The set-associative cache of \<open>inc/cache.h\<close> and \<open>src/cache.cc\<close>.  The memory
  level below, the replacement policy and the prefetcher are parameters, the
  fields of \<open>cache_env\<close>: the last two are bound by the generated
  \<open>cache_modules.inc\<close>.  A call of a method of the lower level gives its return
  code, the packets for which it called \<open>return_data\<close> of this cache before it
  returned, and the new state of the lower level.  Calls of \<open>return_data\<close> on
  the levels above are recorded in \<open>outbox\<close> in the order they are made; they
  change the state of the level above only.
\<close>

section \<open>State\<close>

record cache_config =
  cache_id :: nat
  fill_level :: nat
  NUM_SET :: nat
  NUM_WAY :: nat
  MSHR_SIZE :: nat
  FILL_LATENCY :: u64
  OFFSET_BITS :: nat
  MAX_READ :: nat
  MAX_WRITE :: nat
  prefetch_as_load :: bool
  match_offset_bits :: bool
  virtual_prefetch :: bool
  pref_activate_mask :: u32

record queue_stats =
  q_ACCESS :: u64
  q_MERGED :: u64
  q_FULL :: u64
  q_TO_CACHE :: u64

record cache_stats =
  pf_requested :: u64
  pf_issued :: u64
  pf_useful :: u64
  pf_useless :: u64
  pf_fill :: u64
  sim_access :: "nat \<Rightarrow> nat \<Rightarrow> u64"
  sim_hit :: "nat \<Rightarrow> nat \<Rightarrow> u64"
  sim_miss :: "nat \<Rightarrow> nat \<Rightarrow> u64"
  RQ_stats :: queue_stats
  PQ_stats :: queue_stats
  WQ_stats :: queue_stats
  WQ_FORWARD :: u64
  total_miss_latency :: u64

record ('s, 'p) CACHE =
  cfg :: cache_config
  stats :: cache_stats
  c_cpu :: nat
  block :: "BLOCK list"
  reads_available :: nat
  writes_available :: nat
  ever_seen_data :: bool
  RQ :: "PACKET delay_queue"
  PQ :: "PACKET delay_queue"
  VAPQ :: "PACKET delay_queue"
  WQ :: "PACKET delay_queue"
  MSHR :: "PACKET list"
  c_cycle :: u64
  repl :: 's
  pref :: 'p

record ('s, 'p, 'w) cache_state =
  cache :: "('s, 'p) CACHE"
  c_lower :: 'w
  c_vmem :: VirtualMemory
  outbox :: "(nat \<times> PACKET) list"

type_synonym ('s, 'p) cache_op = "('s, 'p) CACHE \<Rightarrow> (u32 \<times> ('s, 'p) CACHE) result"

record ('s, 'p, 'w) cache_env =
  consts_of :: constants
  warmup_complete :: "nat \<Rightarrow> bool"
  has_lower :: bool
  lo_fill_level :: nat
  lo_add_rq :: "PACKET \<Rightarrow> 'w \<Rightarrow> (int \<times> PACKET list \<times> 'w) result"
  lo_add_pq :: "PACKET \<Rightarrow> 'w \<Rightarrow> (int \<times> PACKET list \<times> 'w) result"
  lo_add_wq :: "PACKET \<Rightarrow> 'w \<Rightarrow> (int \<times> 'w) result"
  lo_occupancy :: "nat \<Rightarrow> u64 \<Rightarrow> 'w \<Rightarrow> nat"
  lo_size :: "nat \<Rightarrow> u64 \<Rightarrow> 'w \<Rightarrow> nat"
  uninit_metadata :: u32
  instr_lt :: "rob_it \<Rightarrow> rob_it \<Rightarrow> bool"
  find_victim :: "'s find_victim"
  update_replacement_state :: "'s update_replacement"
  prefetcher_cache_operate :: "u64 \<Rightarrow> u64 \<Rightarrow> bool \<Rightarrow> nat \<Rightarrow> u32 \<Rightarrow> ('s, 'p) cache_op"
  prefetcher_cache_fill :: "u64 \<Rightarrow> nat \<Rightarrow> nat \<Rightarrow> bool \<Rightarrow> u64 \<Rightarrow> u32 \<Rightarrow> ('s, 'p) cache_op"
  prefetcher_cycle_operate :: "('s, 'p) CACHE \<Rightarrow> ('s, 'p) CACHE result"

text \<open>The constructor; the policy's and the prefetcher's initial states are arguments.\<close>

definition cache_stats_new :: cache_stats where
  "cache_stats_new =
     (let z = \<lparr>q_ACCESS = 0, q_MERGED = 0, q_FULL = 0, q_TO_CACHE = 0\<rparr> in
      \<lparr>pf_requested = 0, pf_issued = 0, pf_useful = 0, pf_useless = 0, pf_fill = 0,
       sim_access = (\<lambda>_ _. 0), sim_hit = (\<lambda>_ _. 0), sim_miss = (\<lambda>_ _. 0),
       RQ_stats = z, PQ_stats = z, WQ_stats = z, WQ_FORWARD = 0, total_miss_latency = 0\<rparr>)"

definition CACHE_new ::
  "PACKET \<Rightarrow> cache_config \<Rightarrow> nat \<Rightarrow> nat \<Rightarrow> nat \<Rightarrow> nat \<Rightarrow> nat \<Rightarrow> 's \<Rightarrow> 'p \<Rightarrow> ('s, 'p) CACHE" where
  "CACHE_new pkt cf cpu wq_size rq_size pq_size hit_lat s p =
     \<lparr>cfg = cf, stats = cache_stats_new, c_cpu = cpu,
      block = replicate (NUM_SET cf * NUM_WAY cf) BLOCK_new, reads_available = 0, writes_available = 0,
      ever_seen_data = False, RQ = dq_new pkt rq_size hit_lat, PQ = dq_new pkt pq_size hit_lat,
      VAPQ = dq_new pkt pq_size 2, WQ = dq_new pkt wq_size hit_lat, MSHR = [], c_cycle = 0,
      repl = s, pref = p\<rparr>"

section \<open>Helpers\<close>

definition inc2 :: "nat \<Rightarrow> nat \<Rightarrow> (nat \<Rightarrow> nat \<Rightarrow> u64) \<Rightarrow> nat \<Rightarrow> nat \<Rightarrow> u64" where
  "inc2 i j f = f(i := (f i)(j := f i j + 1))"

definition upd_stats :: "(cache_stats \<Rightarrow> cache_stats) \<Rightarrow> ('s, 'p) CACHE \<Rightarrow> ('s, 'p) CACHE" where
  "upd_stats f c = c\<lparr>stats := f (stats c)\<rparr>"

definition match_shift :: "cache_config \<Rightarrow> nat" where
  "match_shift cf = (if match_offset_bits cf then 0 else OFFSET_BITS cf)"

definition get_set :: "cache_config \<Rightarrow> u64 \<Rightarrow> nat" where
  "get_set cf address = unat (drop_bit (OFFSET_BITS cf) address AND bitmask (lg2 (NUM_SET cf)) 0)"

abbreviation ways_of :: "('s, 'p) CACHE \<Rightarrow> nat \<Rightarrow> BLOCK list" where
  "ways_of c st \<equiv> slice (st * NUM_WAY (cfg c)) (NUM_WAY (cfg c)) (block c)"

definition get_way :: "u64 \<Rightarrow> nat \<Rightarrow> ('s, 'p) CACHE \<Rightarrow> nat" where
  "get_way address st c =
     find_if (eq_addr b_valid b_address address (OFFSET_BITS (cfg c))) (ways_of c st)"

definition should_activate_prefetcher :: "cache_config \<Rightarrow> nat \<Rightarrow> bool" where
  "should_activate_prefetcher cf type \<longleftrightarrow> bit (pref_activate_mask cf) type"

definition pf_base_addr :: "cache_config \<Rightarrow> PACKET \<Rightarrow> u64" where
  "pf_base_addr cf pkt =
     (if virtual_prefetch cf then p_v_address pkt else p_address pkt) AND NOT (bitmask (match_shift cf) 0)"

definition invalidate_entry :: "u64 \<Rightarrow> ('s, 'p) CACHE \<Rightarrow> nat \<times> ('s, 'p) CACHE" where
  "invalidate_entry inval_addr c =
     (let st = get_set (cfg c) inval_addr; way = get_way inval_addr st c; i = st * NUM_WAY (cfg c) + way in
      (way, if way < NUM_WAY (cfg c) then c\<lparr>block := (block c)[i := (block c ! i)\<lparr>b_valid := False\<rparr>]\<rparr> else c))"

section \<open>Requests from above\<close>

definition access_q :: "queue_stats \<Rightarrow> queue_stats" where
  "access_q q = q\<lparr>q_ACCESS := q_ACCESS q + 1\<rparr>"

definition merged_q :: "queue_stats \<Rightarrow> queue_stats" where
  "merged_q q = q\<lparr>q_MERGED := q_MERGED q + 1\<rparr>"

definition full_q :: "queue_stats \<Rightarrow> queue_stats" where
  "full_q q = q\<lparr>q_FULL := q_FULL q + 1\<rparr>"

definition to_cache_q :: "queue_stats \<Rightarrow> queue_stats" where
  "to_cache_q q = q\<lparr>q_TO_CACHE := q_TO_CACHE q + 1\<rparr>"

definition find_wq :: "PACKET \<Rightarrow> ('s, 'p) CACHE \<Rightarrow> nat" where
  "find_wq packet c =
     find_if (eq_addr_PACKET (p_address packet) (match_shift (cfg c))) (dq_list (WQ c))"

definition push_q :: "bool \<Rightarrow> PACKET \<Rightarrow> PACKET delay_queue \<Rightarrow> PACKET delay_queue result" where
  "push_q warm packet q = (if warm then dq_push_back packet q else dq_push_back_ready packet q)"

text \<open>
  The result of \<open>add_rq\<close>, \<open>add_pq\<close> and \<open>add_wq\<close>: the return code, the calls of
  \<open>return_data\<close> made, and the cache.
\<close>

type_synonym ('s, 'p) added = "(int \<times> (nat \<times> PACKET) list \<times> ('s, 'p) CACHE) result"

definition add_rq :: "('s, 'p, 'w) cache_env \<Rightarrow> PACKET \<Rightarrow> ('s, 'p) CACHE \<Rightarrow> ('s, 'p) added" where
  "add_rq E packet c =
     bindE (assertE ''packet->address != 0'' (p_address packet \<noteq> 0)) (\<lambda>_.
     let c = upd_stats (\<lambda>s. s\<lparr>RQ_stats := access_q (RQ_stats s)\<rparr>) c;
         wq = dq_list (WQ c); rq = dq_list (RQ c);
         found_wq = find_wq packet c;
         found_rq = find_if (eq_addr_PACKET (p_address packet) (OFFSET_BITS (cfg c))) rq
     in if found_wq \<noteq> length wq then
          let packet = packet\<lparr>p_data := p_data (wq ! found_wq)\<rparr>
          in Inr (- 1, map (\<lambda>r. (r, packet)) (p_to_return packet),
               upd_stats (\<lambda>s. s\<lparr>WQ_FORWARD := WQ_FORWARD s + 1\<rparr>) c)
        else if found_rq \<noteq> length rq then
          Inr (0, [], upd_stats (\<lambda>s. s\<lparr>RQ_stats := merged_q (RQ_stats s)\<rparr>)
                 (c\<lparr>RQ := dq_set found_rq (merge_deps (instr_lt E) (rq ! found_rq) packet) (RQ c)\<rparr>))
        else if dq_full (RQ c) then
          Inr (- 2, [], upd_stats (\<lambda>s. s\<lparr>RQ_stats := full_q (RQ_stats s)\<rparr>) c)
        else bindE (push_q (warmup_complete E (c_cpu c)) packet (RQ c)) (\<lambda>q.
          Inr (int (dq_occupancy q), [],
               upd_stats (\<lambda>s. s\<lparr>RQ_stats := to_cache_q (RQ_stats s)\<rparr>) (c\<lparr>RQ := q\<rparr>))))"

definition add_wq :: "('s, 'p, 'w) cache_env \<Rightarrow> PACKET \<Rightarrow> ('s, 'p) CACHE \<Rightarrow> ('s, 'p) added" where
  "add_wq E packet c =
     (let c = upd_stats (\<lambda>s. s\<lparr>WQ_stats := access_q (WQ_stats s)\<rparr>) c;
          found_wq = find_wq packet c
      in if found_wq \<noteq> length (dq_list (WQ c)) then
           Inr (0, [], upd_stats (\<lambda>s. s\<lparr>WQ_stats := merged_q (WQ_stats s)\<rparr>) c)
         else if dq_full (WQ c) then
           Inr (- 2, [], upd_stats (\<lambda>s. s\<lparr>WQ_stats := full_q (WQ_stats s)\<rparr>) c)
         else bindE (push_q (warmup_complete E (c_cpu c)) packet (WQ c)) (\<lambda>q.
           Inr (int (dq_occupancy q), [],
                upd_stats (\<lambda>s. s\<lparr>WQ_stats := access_q (to_cache_q (WQ_stats s))\<rparr>) (c\<lparr>WQ := q\<rparr>))))"

definition add_pq :: "('s, 'p, 'w) cache_env \<Rightarrow> PACKET \<Rightarrow> ('s, 'p) CACHE \<Rightarrow> ('s, 'p) added" where
  "add_pq E packet c =
     bindE (assertE ''packet->address != 0'' (p_address packet \<noteq> 0)) (\<lambda>_.
     let c = upd_stats (\<lambda>s. s\<lparr>PQ_stats := access_q (PQ_stats s)\<rparr>) c;
         wq = dq_list (WQ c); pq = dq_list (PQ c);
         found_wq = find_wq packet c;
         found = find_if (eq_addr_PACKET (p_address packet) (OFFSET_BITS (cfg c))) pq
     in if found_wq \<noteq> length wq then
          let packet = packet\<lparr>p_data := p_data (wq ! found_wq)\<rparr>
          in Inr (- 1, map (\<lambda>r. (r, packet)) (p_to_return packet),
               upd_stats (\<lambda>s. s\<lparr>WQ_FORWARD := WQ_FORWARD s + 1\<rparr>) c)
        else if found \<noteq> length pq then
          let e = pq ! found;
              e = e\<lparr>p_fill_level := min (p_fill_level e) (p_fill_level packet),
                    p_to_return := dep_merge (p_to_return e) (p_to_return packet)\<rparr>
          in Inr (0, [], upd_stats (\<lambda>s. s\<lparr>PQ_stats := merged_q (PQ_stats s)\<rparr>) (c\<lparr>PQ := dq_set found e (PQ c)\<rparr>))
        else if dq_full (PQ c) then
          Inr (- 2, [], upd_stats (\<lambda>s. s\<lparr>PQ_stats := full_q (PQ_stats s)\<rparr>) c)
        else bindE (push_q (warmup_complete E (c_cpu c)) packet (PQ c)) (\<lambda>q.
          Inr (int (dq_occupancy q), [],
               upd_stats (\<lambda>s. s\<lparr>PQ_stats := to_cache_q (PQ_stats s)\<rparr>) (c\<lparr>PQ := q\<rparr>))))"

text \<open>
  \<open>prefetch_line\<close>, called by prefetchers.  A prefetch packet has nobody to
  return to, so no call of \<open>return_data\<close> comes from it.
\<close>

definition prefetch_line :: "('s, 'p, 'w) cache_env \<Rightarrow> u64 \<Rightarrow> bool \<Rightarrow> u32 \<Rightarrow> ('s, 'p) CACHE \<Rightarrow> (int \<times> ('s, 'p) CACHE) result" where
  "prefetch_line E pf_addr fill_this_level prefetch_metadata c =
     (let c = upd_stats (\<lambda>s. s\<lparr>pf_requested := pf_requested s + 1\<rparr>) c;
          pf_packet = (PACKET_new (consts_of E) (uninit_metadata E))
            \<lparr>p_type := PREFETCH,
             p_fill_level := (if fill_this_level then fill_level (cfg c) else lo_fill_level E),
             p_pf_origin_level := fill_level (cfg c), p_pf_metadata := prefetch_metadata,
             p_cpu := c_cpu c, p_address := pf_addr,
             p_v_address := (if virtual_prefetch (cfg c) then pf_addr else 0)\<rparr>
      in if virtual_prefetch (cfg c) then
           if \<not> dq_full (VAPQ c) then bindE (dq_push_back pf_packet (VAPQ c)) (\<lambda>q. Inr (1, c\<lparr>VAPQ := q\<rparr>))
           else Inr (0, c)
         else bindE (add_pq E pf_packet c) (\<lambda>(result, _, c).
           if result \<noteq> - 2 then
             Inr (1, if result > 0 then upd_stats (\<lambda>s. s\<lparr>pf_issued := pf_issued s + 1\<rparr>) c else c)
           else Inr (0, c)))"

definition va_translate_prefetches :: "('s, 'p, 'w) cache_env \<Rightarrow> ('s, 'p, 'w) cache_state \<Rightarrow> ('s, 'p, 'w) cache_state result" where
  "va_translate_prefetches E s =
     (let c = cache s in
      if dq_has_ready (VAPQ c) then
        let front = dq_front (VAPQ c) in
        bindE (va_to_pa (consts_of E) (c_cpu c) (p_v_address front) (c_vmem s)) (\<lambda>(pa, _, vm).
        let front = front\<lparr>p_address := pa\<rparr>;
            c = c\<lparr>VAPQ := dq_set 0 front (VAPQ c)\<rparr>
        in bindE (add_pq E front c) (\<lambda>(result, msgs, c).
           bindE (if result \<noteq> - 2 then dq_pop_front (VAPQ c) else Inr (VAPQ c)) (\<lambda>q.
           let c = c\<lparr>VAPQ := q\<rparr>;
               c = (if result > 0 then upd_stats (\<lambda>s. s\<lparr>pf_issued := pf_issued s + 1\<rparr>) c else c)
           in Inr (s\<lparr>cache := c, c_vmem := vm, outbox := outbox s @ msgs\<rparr>))))
      else Inr s)"

definition return_data :: "('s, 'p, 'w) cache_env \<Rightarrow> PACKET \<Rightarrow> ('s, 'p) CACHE \<Rightarrow> ('s, 'p) CACHE result" where
  "return_data E packet c =
     (let mshr_entry = find_if (eq_addr_PACKET (p_address packet) (OFFSET_BITS (cfg c))) (MSHR c);
          first_unreturned = find_if (\<lambda>x. p_event_cycle x = - 1) (MSHR c)
      in if mshr_entry = length (MSHR c) then Inl (AssertFailed ''0'')
         else if first_unreturned = length (MSHR c) then Inl (Undefined ''iter_swap with end()'')
         else
           let e = (MSHR c ! mshr_entry)
                 \<lparr>p_data := p_data packet, p_pf_metadata := p_pf_metadata packet,
                  p_event_cycle := c_cycle c + (if warmup_complete E (c_cpu c) then FILL_LATENCY (cfg c) else 0)\<rparr>;
               m = (MSHR c)[mshr_entry := e]
           in Inr (c\<lparr>MSHR := m[mshr_entry := m ! first_unreturned, first_unreturned := m ! mshr_entry]\<rparr>))"

definition get_occupancy :: "nat \<Rightarrow> u64 \<Rightarrow> ('s, 'p) CACHE \<Rightarrow> nat" where
  "get_occupancy queue_type address c =
     (if queue_type = 0 then count_if is_valid_PACKET (MSHR c)
      else if queue_type = 1 then dq_occupancy (RQ c)
      else if queue_type = 2 then dq_occupancy (WQ c)
      else if queue_type = 3 then dq_occupancy (PQ c) else 0)"

definition get_size :: "nat \<Rightarrow> u64 \<Rightarrow> ('s, 'p) CACHE \<Rightarrow> nat" where
  "get_size queue_type address c =
     (if queue_type = 0 then MSHR_SIZE (cfg c)
      else if queue_type = 1 then dq_size (RQ c)
      else if queue_type = 2 then dq_size (WQ c)
      else if queue_type = 3 then dq_size (PQ c) else 0)"

section \<open>Handling requests\<close>

text \<open>
  The call of the prefetcher on a hit or miss (lines 181 to 185 and 271 to
  275).  The packet is a local copy here; in the source it is the front of a
  queue, which a prefetch issued by the prefetcher can only change in
  \<open>fill_level\<close>, and that is not read any more.
\<close>

definition activate_prefetcher :: "('s, 'p, 'w) cache_env \<Rightarrow> bool \<Rightarrow> PACKET \<Rightarrow> ('s, 'p) CACHE \<Rightarrow> (PACKET \<times> ('s, 'p) CACHE) result" where
  "activate_prefetcher E hit pkt c =
     (if should_activate_prefetcher (cfg c) (p_type pkt) \<and> p_pf_origin_level pkt < fill_level (cfg c) then
        bindE (prefetcher_cache_operate E (pf_base_addr (cfg c) pkt) (p_ip pkt) hit (p_type pkt)
                 (p_pf_metadata pkt) (c\<lparr>c_cpu := p_cpu pkt\<rparr>))
          (\<lambda>(meta, c). Inr (pkt\<lparr>p_pf_metadata := meta\<rparr>, c))
      else Inr (pkt, c))"

definition apply_update ::
  "('s, 'p, 'w) cache_env \<Rightarrow> PACKET \<Rightarrow> nat \<Rightarrow> nat \<Rightarrow> u64 \<Rightarrow> bool \<Rightarrow> ('s, 'p) CACHE \<Rightarrow> ('s, 'p) CACHE" where
  "apply_update E pkt st way addr hit c =
     (let (bs, r) = update_replacement_state E (p_cpu pkt) st way addr (p_ip pkt) 0 (p_type pkt) hit (block c, repl c)
      in c\<lparr>block := bs, repl := r\<rparr>)"

definition count_hit :: "PACKET \<Rightarrow> ('s, 'p) CACHE \<Rightarrow> ('s, 'p) CACHE" where
  "count_hit pkt = upd_stats (\<lambda>s. s\<lparr>sim_hit := inc2 (p_cpu pkt) (p_type pkt) (sim_hit s),
                                   sim_access := inc2 (p_cpu pkt) (p_type pkt) (sim_access s)\<rparr>)"

definition count_miss :: "PACKET \<Rightarrow> ('s, 'p) CACHE \<Rightarrow> ('s, 'p) CACHE" where
  "count_miss pkt = upd_stats (\<lambda>s. s\<lparr>sim_miss := inc2 (p_cpu pkt) (p_type pkt) (sim_miss s),
                                    sim_access := inc2 (p_cpu pkt) (p_type pkt) (sim_access s)\<rparr>)"

definition readlike_hit ::
  "('s, 'p, 'w) cache_env \<Rightarrow> nat \<Rightarrow> nat \<Rightarrow> PACKET \<Rightarrow> ('s, 'p, 'w) cache_state \<Rightarrow> ('s, 'p, 'w) cache_state result" where
  "readlike_hit E st way pkt s =
     (let c = cache s; i = st * NUM_WAY (cfg c) + way;
          pkt = pkt\<lparr>p_data := b_data (block c ! i)\<rparr>
      in bindE (activate_prefetcher E True pkt c) (\<lambda>(pkt, c).
         let c = apply_update E pkt st way (b_address (block c ! i)) True c;
             c = count_hit pkt c;
             out = map (\<lambda>r. (r, pkt)) (p_to_return pkt);
             c = (if b_prefetch (block c ! i)
                  then upd_stats (\<lambda>s. s\<lparr>pf_useful := pf_useful s + 1\<rparr>)
                         (c\<lparr>block := (block c)[i := (block c ! i)\<lparr>b_prefetch := False\<rparr>]\<rparr>)
                  else c)
         in Inr (s\<lparr>cache := c, outbox := outbox s @ out\<rparr>)))"

text \<open>
  The MSHR entry of a block that is already being fetched, after a request for
  it has been merged into it (lines 222 to 239).
\<close>

definition merge_mshr :: "(rob_it \<Rightarrow> rob_it \<Rightarrow> bool) \<Rightarrow> PACKET \<Rightarrow> PACKET \<Rightarrow> PACKET" where
  "merge_mshr lt e pkt =
     (let e = merge_deps lt (e\<lparr>p_fill_level := min (p_fill_level e) (p_fill_level pkt)\<rparr>) pkt
      in if p_type e = PREFETCH \<and> p_type pkt \<noteq> PREFETCH
         then pkt\<lparr>p_event_cycle := p_event_cycle e\<rparr> else e)"

fun return_all :: "('s, 'p, 'w) cache_env \<Rightarrow> PACKET list \<Rightarrow> ('s, 'p) CACHE \<Rightarrow> ('s, 'p) CACHE result" where
  "return_all E [] c = Inr c"
| "return_all E (p # ps) c = bindE (return_data E p c) (return_all E ps)"

definition readlike_miss ::
  "('s, 'p, 'w) cache_env \<Rightarrow> PACKET \<Rightarrow> ('s, 'p, 'w) cache_state \<Rightarrow> (bool \<times> ('s, 'p, 'w) cache_state) result" where
  "readlike_miss E pkt s =
     (let c = cache s;
          mshr_entry = find_if (eq_addr_PACKET (p_address pkt) (OFFSET_BITS (cfg c))) (MSHR c);
          finish = (\<lambda>pkt s. bindE (activate_prefetcher E False pkt (cache s)) (\<lambda>(_, c). Inr (True, s\<lparr>cache := c\<rparr>)))
      in if mshr_entry \<noteq> length (MSHR c) then
           let e = MSHR c ! mshr_entry;
               c = (if p_type e = PREFETCH \<and> p_type pkt \<noteq> PREFETCH \<and> p_pf_origin_level e = fill_level (cfg c)
                    then upd_stats (\<lambda>s. s\<lparr>pf_useful := pf_useful s + 1\<rparr>) c else c)
           in finish pkt (s\<lparr>cache := c\<lparr>MSHR := (MSHR c)[mshr_entry := merge_mshr (instr_lt E) e pkt]\<rparr>\<rparr>)
         else if length (MSHR c) = MSHR_SIZE (cfg c) then Inr (False, s)
         else
           let is_read = prefetch_as_load (cfg c) \<or> p_type pkt \<noteq> PREFETCH;
               queue_type = (if is_read then 1 else 3)
           in if lo_occupancy E queue_type (p_address pkt) (c_lower s) = lo_size E queue_type (p_address pkt) (c_lower s)
              then Inr (False, s)
              else
                let here = p_fill_level pkt \<le> fill_level (cfg c);
                    c = (if here
                         then c\<lparr>MSHR := MSHR c @ [pkt\<lparr>p_cycle_enqueued := c_cycle c, p_event_cycle := - 1\<rparr>]\<rparr>
                         else c);
                    pkt = pkt\<lparr>p_to_return := (if here then [cache_id (cfg c)] else [])\<rparr>
                in bindE (if is_read then lo_add_rq E pkt (c_lower s) else lo_add_pq E pkt (c_lower s)) (\<lambda>(_, rets, w).
                   bindE (return_all E rets c) (\<lambda>c. finish pkt (s\<lparr>cache := c, c_lower := w\<rparr>))))"

definition writeback_packet :: "('s, 'p, 'w) cache_env \<Rightarrow> PACKET \<Rightarrow> BLOCK \<Rightarrow> PACKET" where
  "writeback_packet E pkt b =
     (PACKET_new (consts_of E) (uninit_metadata E))
       \<lparr>p_fill_level := lo_fill_level E, p_cpu := p_cpu pkt, p_address := b_address b, p_data := b_data b,
        p_instr_id := p_instr_id pkt, p_ip := 0, p_type := WRITEBACK\<rparr>"

definition filled_block :: "cache_config \<Rightarrow> PACKET \<Rightarrow> BLOCK \<Rightarrow> BLOCK" where
  "filled_block cf pkt b =
     b\<lparr>b_valid := True,
       b_prefetch := (p_type pkt = PREFETCH \<and> p_pf_origin_level pkt = fill_level cf),
       b_dirty := (p_type pkt = WRITEBACK \<or> (p_type pkt = RFO \<and> p_to_return pkt = [])),
       b_address := p_address pkt, b_v_address := p_v_address pkt, b_data := p_data pkt,
       b_ip := p_ip pkt, b_cpu := p_cpu pkt, b_instr_id := p_instr_id pkt\<rparr>"

text \<open>Lines 318 to 356, once the victim may be overwritten.\<close>

definition fill_block ::
  "('s, 'p, 'w) cache_env \<Rightarrow> nat \<Rightarrow> nat \<Rightarrow> PACKET \<Rightarrow> ('s, 'p) CACHE \<Rightarrow> (PACKET \<times> ('s, 'p) CACHE) result" where
  "fill_block E st way pkt c =
     (let cf = cfg c; bypass = (way = NUM_WAY cf); i = st * NUM_WAY cf + way;
          old = block c ! i;
          evicting_address = (if bypass then 0
            else (if ever_seen_data c then b_address old else b_v_address old) AND NOT (bitmask (match_shift cf) 0));
          c = (if bypass then c
               else upd_stats (\<lambda>s. s\<lparr>pf_useless := pf_useless s + (if b_prefetch old then 1 else 0),
                                    pf_fill := pf_fill s + (if p_type pkt = PREFETCH then 1 else 0)\<rparr>)
                      (c\<lparr>block := (block c)[i := filled_block cf pkt old]\<rparr>));
          c = (if warmup_complete E (p_cpu pkt) \<and> p_cycle_enqueued pkt \<noteq> 0
               then upd_stats (\<lambda>s. s\<lparr>total_miss_latency := total_miss_latency s + (c_cycle c - p_cycle_enqueued pkt)\<rparr>) c
               else c)
      in bindE (prefetcher_cache_fill E (pf_base_addr cf pkt) st way (p_type pkt = PREFETCH) evicting_address
                  (p_pf_metadata pkt) (c\<lparr>c_cpu := p_cpu pkt\<rparr>)) (\<lambda>(meta, c).
         Inr (pkt\<lparr>p_pf_metadata := meta\<rparr>,
              count_miss pkt (apply_update E pkt st way (p_address pkt) False c))))"

definition filllike_miss ::
  "('s, 'p, 'w) cache_env \<Rightarrow> nat \<Rightarrow> nat \<Rightarrow> PACKET \<Rightarrow> ('s, 'p, 'w) cache_state \<Rightarrow> (bool \<times> PACKET \<times> ('s, 'p, 'w) cache_state) result" where
  "filllike_miss E st way pkt s =
     (let c = cache s; bypass = (way = NUM_WAY (cfg c));
          old = block c ! (st * NUM_WAY (cfg c) + way);
          evicting_dirty = (\<not> bypass \<and> has_lower E \<and> b_dirty old)
      in bindE (assertE ''handle_pkt.type != WRITEBACK || !bypass'' (p_type pkt \<noteq> WRITEBACK \<or> \<not> bypass)) (\<lambda>_.
         bindE (if evicting_dirty then lo_add_wq E (writeback_packet E pkt old) (c_lower s)
                else Inr (0, c_lower s)) (\<lambda>(result, w).
         let s = s\<lparr>c_lower := w\<rparr>
         in if evicting_dirty \<and> result = - 2 then Inr (False, pkt, s)
            else bindE (fill_block E st way pkt c) (\<lambda>(pkt, c). Inr (True, pkt, s\<lparr>cache := c\<rparr>)))))"

text \<open>The way a new block goes to: the first invalid one, or the policy's victim.\<close>

definition choose_way :: "('s, 'p, 'w) cache_env \<Rightarrow> nat \<Rightarrow> PACKET \<Rightarrow> ('s, 'p) CACHE \<Rightarrow> nat \<times> ('s, 'p) CACHE" where
  "choose_way E st pkt c =
     (let way = find_if_not b_valid (ways_of c st) in
      if way = NUM_WAY (cfg c) then
        let (way, bs, r) = find_victim E (p_cpu pkt) (p_instr_id pkt) st (p_ip pkt) (p_address pkt) (p_type pkt)
                             (block c, repl c)
        in (way, c\<lparr>block := bs, repl := r\<rparr>)
      else (way, c))"

fun handle_fill ::
  "('s, 'p, 'w) cache_env \<Rightarrow> nat \<Rightarrow> ('s, 'p, 'w) cache_state \<Rightarrow> ('s, 'p, 'w) cache_state result" where
  "handle_fill E 0 s = Inr s"
| "handle_fill E (Suc writes) s =
     (case MSHR (cache s) of
        [] \<Rightarrow> Inr s
      | fill_mshr # _ \<Rightarrow>
          if p_event_cycle fill_mshr > c_cycle (cache s) then Inr s
          else
            let st = get_set (cfg (cache s)) (p_address fill_mshr);
                (way, c) = choose_way E st fill_mshr (cache s)
            in bindE (filllike_miss E st way fill_mshr (s\<lparr>cache := c\<rparr>)) (\<lambda>(success, pkt, s).
               if \<not> success then Inr s
               else
                 let c = cache s; cf = cfg c;
                     pkt = (if way \<noteq> NUM_WAY cf then pkt\<lparr>p_data := b_data (block c ! (st * NUM_WAY cf + way))\<rparr> else pkt);
                     out = (if way \<noteq> NUM_WAY cf then map (\<lambda>r. (r, pkt)) (p_to_return pkt) else [])
                 in handle_fill E writes
                      (s\<lparr>cache := c\<lparr>MSHR := tl (MSHR c), writes_available := writes\<rparr>, outbox := outbox s @ out\<rparr>)))"

definition writeback_hit :: "('s, 'p, 'w) cache_env \<Rightarrow> nat \<Rightarrow> nat \<Rightarrow> PACKET \<Rightarrow> ('s, 'p) CACHE \<Rightarrow> ('s, 'p) CACHE" where
  "writeback_hit E st way pkt c =
     (let i = st * NUM_WAY (cfg c) + way;
          c = count_hit pkt (apply_update E pkt st way (b_address (block c ! i)) True c)
      in c\<lparr>block := (block c)[i := (block c ! i)\<lparr>b_dirty := True\<rparr>]\<rparr>)"

fun handle_writeback ::
  "('s, 'p, 'w) cache_env \<Rightarrow> nat \<Rightarrow> ('s, 'p, 'w) cache_state \<Rightarrow> ('s, 'p, 'w) cache_state result" where
  "handle_writeback E 0 s = Inr s"
| "handle_writeback E (Suc writes) s =
     (if \<not> dq_has_ready (WQ (cache s)) then Inr s
      else
        let c = cache s; pkt = dq_front (WQ c);
            st = get_set (cfg c) (p_address pkt); way = get_way (p_address pkt) st c
        in bindE (if way < NUM_WAY (cfg c) then Inr (True, s\<lparr>cache := writeback_hit E st way pkt c\<rparr>)
                  else if p_type pkt = RFO \<and> p_to_return pkt = [] then readlike_miss E pkt s
                  else let (way, c) = choose_way E st pkt c
                       in bindE (filllike_miss E st way pkt (s\<lparr>cache := c\<rparr>)) (\<lambda>(ok, _, s). Inr (ok, s)))
             (\<lambda>(success, s).
                if \<not> success then Inr s
                else bindE (dq_pop_front (WQ (cache s))) (\<lambda>q.
                  handle_writeback E writes (s\<lparr>cache := (cache s)\<lparr>WQ := q, writes_available := writes\<rparr>\<rparr>))))"

definition read_access ::
  "('s, 'p, 'w) cache_env \<Rightarrow> PACKET \<Rightarrow> ('s, 'p, 'w) cache_state \<Rightarrow> (bool \<times> ('s, 'p, 'w) cache_state) result" where
  "read_access E pkt s =
     (let c = cache s; st = get_set (cfg c) (p_address pkt); way = get_way (p_address pkt) st c in
      if way < NUM_WAY (cfg c) then bindE (readlike_hit E st way pkt s) (\<lambda>s. Inr (True, s))
      else readlike_miss E pkt s)"

fun handle_read ::
  "('s, 'p, 'w) cache_env \<Rightarrow> nat \<Rightarrow> ('s, 'p, 'w) cache_state \<Rightarrow> ('s, 'p, 'w) cache_state result" where
  "handle_read E 0 s = Inr s"
| "handle_read E (Suc reads) s =
     (if \<not> dq_has_ready (RQ (cache s)) then Inr s
      else
        let c = cache s; pkt = dq_front (RQ c);
            c = c\<lparr>ever_seen_data := ever_seen_data c \<or> p_v_address pkt \<noteq> p_ip pkt\<rparr>
        in bindE (read_access E pkt (s\<lparr>cache := c\<rparr>)) (\<lambda>(success, s).
           if \<not> success then Inr s
           else bindE (dq_pop_front (RQ (cache s))) (\<lambda>q.
             handle_read E reads (s\<lparr>cache := (cache s)\<lparr>RQ := q, reads_available := reads\<rparr>\<rparr>))))"

fun handle_prefetch ::
  "('s, 'p, 'w) cache_env \<Rightarrow> nat \<Rightarrow> ('s, 'p, 'w) cache_state \<Rightarrow> ('s, 'p, 'w) cache_state result" where
  "handle_prefetch E 0 s = Inr s"
| "handle_prefetch E (Suc reads) s =
     (if \<not> dq_has_ready (PQ (cache s)) then Inr s
      else
        bindE (read_access E (dq_front (PQ (cache s))) s) (\<lambda>(success, s).
          if \<not> success then Inr s
          else bindE (dq_pop_front (PQ (cache s))) (\<lambda>q.
            handle_prefetch E reads (s\<lparr>cache := (cache s)\<lparr>PQ := q, reads_available := reads\<rparr>\<rparr>))))"

definition operate_writes :: "('s, 'p, 'w) cache_env \<Rightarrow> ('s, 'p, 'w) cache_state \<Rightarrow> ('s, 'p, 'w) cache_state result" where
  "operate_writes E s =
     (let s = s\<lparr>cache := (cache s)\<lparr>writes_available := MAX_WRITE (cfg (cache s))\<rparr>\<rparr> in
      bindE (handle_fill E (writes_available (cache s)) s) (\<lambda>s.
      bindE (handle_writeback E (writes_available (cache s)) s) (\<lambda>s.
      Inr (s\<lparr>cache := (cache s)\<lparr>WQ := dq_operate (WQ (cache s))\<rparr>\<rparr>))))"

definition operate_reads :: "('s, 'p, 'w) cache_env \<Rightarrow> ('s, 'p, 'w) cache_state \<Rightarrow> ('s, 'p, 'w) cache_state result" where
  "operate_reads E s =
     (let s = s\<lparr>cache := (cache s)\<lparr>reads_available := MAX_READ (cfg (cache s))\<rparr>\<rparr> in
      bindE (handle_read E (reads_available (cache s)) s) (\<lambda>s.
      bindE (va_translate_prefetches E s) (\<lambda>s.
      bindE (handle_prefetch E (reads_available (cache s)) s) (\<lambda>s.
      let c = cache s
      in Inr (s\<lparr>cache := c\<lparr>RQ := dq_operate (RQ c), PQ := dq_operate (PQ c), VAPQ := dq_operate (VAPQ c)\<rparr>\<rparr>)))))"

definition operate :: "('s, 'p, 'w) cache_env \<Rightarrow> ('s, 'p, 'w) cache_state \<Rightarrow> ('s, 'p, 'w) cache_state result" where
  "operate E s =
     bindE (operate_writes E s) (\<lambda>s.
     bindE (operate_reads E s) (\<lambda>s.
     bindE (prefetcher_cycle_operate E (cache s)) (\<lambda>c. Inr (s\<lparr>cache := c\<rparr>))))"

end
