(* ===== verification/CacheQueues.thy ===== *)
theory CacheQueues
  imports Cache
begin

text \<open>
  The queues of a cache: what \<open>add_rq\<close>, \<open>add_wq\<close> and \<open>add_pq\<close> do on each of
  their four branches, that they keep to the contract of a request consumer,
  and that no queue ever holds two requests for one block.
\<close>

lemmas stat_defs = upd_stats_def access_q_def merged_q_def full_q_def to_cache_q_def

definition queues_wf :: "('s, 'p) CACHE \<Rightarrow> bool" where
  "queues_wf c \<longleftrightarrow> dq_wf (RQ c) \<and> dq_wf (PQ c) \<and> dq_wf (VAPQ c) \<and> dq_wf (WQ c)"

text \<open>A queue that was written or extended, with the same items ready.\<close>

definition dq_grew :: "'a delay_queue \<Rightarrow> 'a delay_queue \<Rightarrow> bool" where
  "dq_grew q r \<longleftrightarrow> (dq_good q \<longrightarrow> dq_good r \<and> dq_has_ready r = dq_has_ready q)"

lemma dq_grew_push: "push_q warm x q = Inr r \<Longrightarrow> dq_grew q r"
  using dq_good_push [of q _ x r]
  by (auto simp: dq_grew_def push_q_def dq_push_back_def dq_push_back_ready_def split: if_splits)

lemma dq_grew_set: "k < length (dq_list q) \<Longrightarrow> dq_grew q (dq_set k x q)"
  using dq_good_set [of q k x] by (simp add: dq_grew_def)

lemma push_q_ok:
  assumes "dq_wf q" "push_q warm x q = Inr r"
  shows "dq_wf r" "dq_list r = dq_list q @ [x]" "dq_size r = dq_size q"
proof -
  have "length (dq_list q) \<noteq> dq_size q"
  proof
    assume "length (dq_list q) = dq_size q"
    then have "cb_push_back x (dq_buf q) = Inl (AssertFailed ''!full()'')"
      by (simp add: dq_list_def dq_size_def cb_push_back_full)
    with assms(2) show False
      by (simp add: push_q_def dq_push_back_def dq_push_back_ready_def dq_push_delay_def split: if_splits)
  qed
  then have "length (dq_list q) < dq_size q" using dqq.bounded [OF assms(1)] by simp
  note ok = dq_push_delay_ok [OF assms(1) this]
  show "dq_wf r" "dq_list r = dq_list q @ [x]" "dq_size r = dq_size q"
    using assms(2) ok [of "dq_latency q" x] ok [of 0 x]
    by (auto simp: push_q_def dq_push_back_def dq_push_back_ready_def split: if_splits)
qed

text \<open>The first match of a search among queued packets.\<close>

lemma found_nth:
  "find_if P xs \<noteq> length xs \<Longrightarrow> find_if P xs < length xs \<and> P (xs ! find_if P xs)"
  using find_if_le [of P xs] find_if_nth [of P xs] by auto

section \<open>Reads\<close>

lemma add_rq_cases:
  assumes "add_rq E packet c = Inr (r, msgs, d)" "dq_wf (RQ c)"
  obtains k ss where "r = - 1" "d = c\<lparr>stats := ss\<rparr>" "k < length (dq_list (WQ c))"
      "eq_addr_PACKET (p_address packet) (match_shift (cfg c)) (dq_list (WQ c) ! k)"
      "msgs = map (\<lambda>t. (t, packet\<lparr>p_data := p_data (dq_list (WQ c) ! k)\<rparr>)) (p_to_return packet)"
  | k q ss where "r = 0" "msgs = []" "d = c\<lparr>RQ := q, stats := ss\<rparr>" "k < length (dq_list (RQ c))"
      "dq_wf q" "dq_size q = dq_size (RQ c)" "dq_grew (RQ c) q"
      "eq_addr_PACKET (p_address packet) (OFFSET_BITS (cfg c)) (dq_list (RQ c) ! k)"
      "dq_list q = (dq_list (RQ c))[k := merge_deps (instr_lt E) (dq_list (RQ c) ! k) packet]"
  | ss where "r = - 2" "msgs = []" "d = c\<lparr>stats := ss\<rparr>" "length (dq_list (RQ c)) = dq_size (RQ c)"
  | q ss where "msgs = []" "d = c\<lparr>RQ := q, stats := ss\<rparr>" "dq_wf q" "dq_size q = dq_size (RQ c)"
      "dq_list q = dq_list (RQ c) @ [packet]" "r = int (length (dq_list q))"
      "\<forall>e \<in> set (dq_list (RQ c)). \<not> eq_addr_PACKET (p_address packet) (OFFSET_BITS (cfg c)) e"
      "dq_grew (RQ c) q"
proof -
  let ?wq = "dq_list (WQ c)" and ?rq = "dq_list (RQ c)"
  let ?fw = "find_if (eq_addr_PACKET (p_address packet) (match_shift (cfg c))) ?wq"
  let ?fr = "find_if (eq_addr_PACKET (p_address packet) (OFFSET_BITS (cfg c))) ?rq"
  consider "?fw \<noteq> length ?wq" | "?fw = length ?wq" "?fr \<noteq> length ?rq"
    | "?fw = length ?wq" "?fr = length ?rq" "dq_full (RQ c)"
    | "?fw = length ?wq" "?fr = length ?rq" "\<not> dq_full (RQ c)" by blast
  then show thesis
  proof cases
    case 1
    from assms(1) 1 show ?thesis
      using that(1) found_nth [OF 1]
      by (auto simp: add_rq_def errs Let_def find_wq_def stat_defs)
  next
    case 2
    from assms(1) 2 show ?thesis
      using that(2) found_nth [OF 2(2)] dq_set_ok [OF assms(2), of ?fr] dq_grew_set [of ?fr "RQ c"]
      by (auto simp: add_rq_def errs Let_def find_wq_def stat_defs)
  next
    case 3
    from assms(1) 3 show ?thesis
      using that(3) by (auto simp: add_rq_def errs Let_def find_wq_def stat_defs dq_full_list)
  next
    case 4
    from assms(1) 4 obtain q where
      q: "push_q (warmup_complete E (c_cpu c)) packet (RQ c) = Inr q" "r = int (dq_occupancy q)" "msgs = []"
      "\<exists>ss. d = c\<lparr>RQ := q, stats := ss\<rparr>"
      by (auto simp: add_rq_def errs Let_def find_wq_def stat_defs)
    with that(4) [of _ q] push_q_ok [OF assms(2) q(1)] 4(2) dq_grew_push [OF q(1)] show ?thesis
      by (auto simp: dq_occupancy_list find_if_eq_length_iff)
  qed
qed

section \<open>Writes and prefetches\<close>

lemma add_wq_cases:
  assumes "add_wq E packet c = Inr (r, msgs, d)" "dq_wf (WQ c)"
  obtains ss k where "r = 0" "msgs = []" "d = c\<lparr>stats := ss\<rparr>" "k < length (dq_list (WQ c))"
      "eq_addr_PACKET (p_address packet) (match_shift (cfg c)) (dq_list (WQ c) ! k)"
  | ss where "r = - 2" "msgs = []" "d = c\<lparr>stats := ss\<rparr>" "length (dq_list (WQ c)) = dq_size (WQ c)"
  | q ss where "msgs = []" "d = c\<lparr>WQ := q, stats := ss\<rparr>" "dq_wf q" "dq_size q = dq_size (WQ c)"
      "dq_list q = dq_list (WQ c) @ [packet]" "r = int (length (dq_list q))"
      "\<forall>e \<in> set (dq_list (WQ c)). \<not> eq_addr_PACKET (p_address packet) (match_shift (cfg c)) e"
      "dq_grew (WQ c) q"
proof -
  let ?wq = "dq_list (WQ c)"
  let ?fw = "find_if (eq_addr_PACKET (p_address packet) (match_shift (cfg c))) ?wq"
  consider "?fw \<noteq> length ?wq" | "?fw = length ?wq" "dq_full (WQ c)" | "?fw = length ?wq" "\<not> dq_full (WQ c)"
    by blast
  then show thesis
  proof cases
    case 1
    from assms(1) 1 show ?thesis
      using that(1) found_nth [OF 1] by (auto simp: add_wq_def Let_def find_wq_def stat_defs)
  next
    case 2
    from assms(1) 2 show ?thesis
      using that(2) by (auto simp: add_wq_def Let_def find_wq_def stat_defs dq_full_list)
  next
    case 3
    from assms(1) 3 obtain q where
      q: "push_q (warmup_complete E (c_cpu c)) packet (WQ c) = Inr q" "r = int (dq_occupancy q)" "msgs = []"
      "\<exists>ss. d = c\<lparr>WQ := q, stats := ss\<rparr>"
      by (auto simp: add_wq_def errs Let_def find_wq_def stat_defs)
    with that(3) [of _ q] push_q_ok [OF assms(2) q(1)] 3(1) dq_grew_push [OF q(1)] show ?thesis
      by (auto simp: dq_occupancy_list find_if_eq_length_iff)
  qed
qed

lemma add_pq_cases:
  assumes "add_pq E packet c = Inr (r, msgs, d)" "dq_wf (PQ c)"
  obtains k ss where "r = - 1" "d = c\<lparr>stats := ss\<rparr>" "k < length (dq_list (WQ c))"
      "msgs = map (\<lambda>t. (t, packet\<lparr>p_data := p_data (dq_list (WQ c) ! k)\<rparr>)) (p_to_return packet)"
  | k q ss e where "r = 0" "msgs = []" "d = c\<lparr>PQ := q, stats := ss\<rparr>" "k < length (dq_list (PQ c))"
      "dq_wf q" "dq_size q = dq_size (PQ c)" "dq_list q = (dq_list (PQ c))[k := e]"
      "p_address e = p_address (dq_list (PQ c) ! k)"
      "set (p_to_return e) = set (p_to_return (dq_list (PQ c) ! k)) \<union> set (p_to_return packet)"
      "dq_grew (PQ c) q"
  | ss where "r = - 2" "msgs = []" "d = c\<lparr>stats := ss\<rparr>" "length (dq_list (PQ c)) = dq_size (PQ c)"
  | q ss where "msgs = []" "d = c\<lparr>PQ := q, stats := ss\<rparr>" "dq_wf q" "dq_size q = dq_size (PQ c)"
      "dq_list q = dq_list (PQ c) @ [packet]" "r = int (length (dq_list q))" "p_address packet \<noteq> 0"
      "dq_grew (PQ c) q"
proof -
  let ?wq = "dq_list (WQ c)" and ?pq = "dq_list (PQ c)"
  let ?fw = "find_if (eq_addr_PACKET (p_address packet) (match_shift (cfg c))) ?wq"
  let ?fp = "find_if (eq_addr_PACKET (p_address packet) (OFFSET_BITS (cfg c))) ?pq"
  consider "?fw \<noteq> length ?wq" | "?fw = length ?wq" "?fp \<noteq> length ?pq"
    | "?fw = length ?wq" "?fp = length ?pq" "dq_full (PQ c)"
    | "?fw = length ?wq" "?fp = length ?pq" "\<not> dq_full (PQ c)" by blast
  then show thesis
  proof cases
    case 1
    from assms(1) 1 show ?thesis
      using that(1) found_nth [OF 1] by (auto simp: add_pq_def errs Let_def find_wq_def stat_defs)
  next
    case 2
    let ?e = "(?pq ! ?fp)\<lparr>p_fill_level := min (p_fill_level (?pq ! ?fp)) (p_fill_level packet),
                    p_to_return := dep_merge (p_to_return (?pq ! ?fp)) (p_to_return packet)\<rparr>"
    from assms(1) 2 obtain ss where "r = 0" "msgs = []" "d = c\<lparr>PQ := dq_set ?fp ?e (PQ c), stats := ss\<rparr>"
      by (auto simp: add_pq_def errs Let_def find_wq_def stat_defs)
    then show ?thesis
      using that(2) [where q = "dq_set ?fp ?e (PQ c)" and ss = ss and k = ?fp and e = ?e] found_nth [OF 2(2)]
        dq_set_ok [OF assms(2), of ?fp ?e] dq_grew_set [of ?fp "PQ c" ?e]
      by (simp add: dep_merge_set)
  next
    case 3
    from assms(1) 3 show ?thesis
      using that(3) by (auto simp: add_pq_def errs Let_def find_wq_def stat_defs dq_full_list)
  next
    case 4
    from assms(1) 4 obtain q where
      q: "push_q (warmup_complete E (c_cpu c)) packet (PQ c) = Inr q" "r = int (dq_occupancy q)" "msgs = []"
      "\<exists>ss. d = c\<lparr>PQ := q, stats := ss\<rparr>" "p_address packet \<noteq> 0"
      by (auto simp: add_pq_def errs Let_def find_wq_def stat_defs)
    with that(4) [of _ q] push_q_ok [OF assms(2) q(1)] dq_grew_push [OF q(1)] show ?thesis
      by (auto simp: dq_occupancy_list)
  qed
qed

section \<open>The caches as request consumers\<close>

definition code_and_cache :: "('s, 'p) added \<Rightarrow> (int \<times> ('s, 'p) CACHE) result" where
  "code_and_cache m = bindE m (\<lambda>(r, _, d). Inr (r, d))"

interpretation cache_rq: request_consumer queues_wf "\<lambda>c. dq_list (RQ c)" "\<lambda>c. dq_size (RQ c)"
  "\<lambda>pkt c. code_and_cache (add_rq E pkt c)" for E
proof unfold_locales
  fix c d :: "('a, 'b) CACHE" and pkt r
  assume c: "queues_wf c"
  then have rq: "dq_wf (RQ c)" by (simp add: queues_wf_def)
  show "length (dq_list (RQ c)) \<le> dq_size (RQ c)" using dqq.bounded [OF rq] .
  have ex: "\<exists>msgs. add_rq E pkt c = Inr (x, msgs, d)" if "code_and_cache (add_rq E pkt c) = Inr (x, d)" for x
    using that by (auto simp: code_and_cache_def errs)
  show "queues_wf d \<and> dq_size (RQ d) = dq_size (RQ c) \<and> - 2 \<le> r"
    if "code_and_cache (add_rq E pkt c) = Inr (r, d)"
    using ex [OF that] c by (elim exE) (erule add_rq_cases [OF _ rq]; auto simp: queues_wf_def)
  show "dq_list (RQ d) = dq_list (RQ c) \<and> length (dq_list (RQ c)) = dq_size (RQ c)"
    if "code_and_cache (add_rq E pkt c) = Inr (- 2, d)"
    using ex [OF that] by (elim exE) (erule add_rq_cases [OF _ rq]; auto)
  show "length (dq_list (RQ d)) = length (dq_list (RQ c))"
    if "code_and_cache (add_rq E pkt c) = Inr (r, d)" "r = - 1 \<or> r = 0"
    using ex [OF that(1)] that(2) by (elim exE) (erule add_rq_cases [OF _ rq]; auto)
  show "dq_list (RQ d) = dq_list (RQ c) @ [pkt] \<and> r = int (length (dq_list (RQ d)))"
    if "code_and_cache (add_rq E pkt c) = Inr (r, d)" "0 < r"
    using ex [OF that(1)] that(2) by (elim exE) (erule add_rq_cases [OF _ rq]; auto)
qed

interpretation cache_wq: request_consumer queues_wf "\<lambda>c. dq_list (WQ c)" "\<lambda>c. dq_size (WQ c)"
  "\<lambda>pkt c. code_and_cache (add_wq E pkt c)" for E
proof unfold_locales
  fix c d :: "('a, 'b) CACHE" and pkt r
  assume c: "queues_wf c"
  then have wq: "dq_wf (WQ c)" by (simp add: queues_wf_def)
  show "length (dq_list (WQ c)) \<le> dq_size (WQ c)" using dqq.bounded [OF wq] .
  have ex: "\<exists>msgs. add_wq E pkt c = Inr (x, msgs, d)" if "code_and_cache (add_wq E pkt c) = Inr (x, d)" for x
    using that by (auto simp: code_and_cache_def errs)
  show "queues_wf d \<and> dq_size (WQ d) = dq_size (WQ c) \<and> - 2 \<le> r"
    if "code_and_cache (add_wq E pkt c) = Inr (r, d)"
    using ex [OF that] c by (elim exE) (erule add_wq_cases [OF _ wq]; auto simp: queues_wf_def)
  show "dq_list (WQ d) = dq_list (WQ c) \<and> length (dq_list (WQ c)) = dq_size (WQ c)"
    if "code_and_cache (add_wq E pkt c) = Inr (- 2, d)"
    using ex [OF that] by (elim exE) (erule add_wq_cases [OF _ wq]; auto)
  show "length (dq_list (WQ d)) = length (dq_list (WQ c))"
    if "code_and_cache (add_wq E pkt c) = Inr (r, d)" "r = - 1 \<or> r = 0"
    using ex [OF that(1)] that(2) by (elim exE) (erule add_wq_cases [OF _ wq]; auto)
  show "dq_list (WQ d) = dq_list (WQ c) @ [pkt] \<and> r = int (length (dq_list (WQ d)))"
    if "code_and_cache (add_wq E pkt c) = Inr (r, d)" "0 < r"
    using ex [OF that(1)] that(2) by (elim exE) (erule add_wq_cases [OF _ wq]; auto)
qed

interpretation cache_pq: request_consumer queues_wf "\<lambda>c. dq_list (PQ c)" "\<lambda>c. dq_size (PQ c)"
  "\<lambda>pkt c. code_and_cache (add_pq E pkt c)" for E
proof unfold_locales
  fix c d :: "('a, 'b) CACHE" and pkt r
  assume c: "queues_wf c"
  then have pq: "dq_wf (PQ c)" by (simp add: queues_wf_def)
  show "length (dq_list (PQ c)) \<le> dq_size (PQ c)" using dqq.bounded [OF pq] .
  have ex: "\<exists>msgs. add_pq E pkt c = Inr (x, msgs, d)" if "code_and_cache (add_pq E pkt c) = Inr (x, d)" for x
    using that by (auto simp: code_and_cache_def errs)
  show "queues_wf d \<and> dq_size (PQ d) = dq_size (PQ c) \<and> - 2 \<le> r"
    if "code_and_cache (add_pq E pkt c) = Inr (r, d)"
    using ex [OF that] c by (elim exE) (erule add_pq_cases [OF _ pq]; auto simp: queues_wf_def)
  show "dq_list (PQ d) = dq_list (PQ c) \<and> length (dq_list (PQ c)) = dq_size (PQ c)"
    if "code_and_cache (add_pq E pkt c) = Inr (- 2, d)"
    using ex [OF that] by (elim exE) (erule add_pq_cases [OF _ pq]; auto)
  show "length (dq_list (PQ d)) = length (dq_list (PQ c))"
    if "code_and_cache (add_pq E pkt c) = Inr (r, d)" "r = - 1 \<or> r = 0"
    using ex [OF that(1)] that(2) by (elim exE) (erule add_pq_cases [OF _ pq]; auto)
  show "dq_list (PQ d) = dq_list (PQ c) @ [pkt] \<and> r = int (length (dq_list (PQ d)))"
    if "code_and_cache (add_pq E pkt c) = Inr (r, d)" "0 < r"
    using ex [OF that(1)] that(2) by (elim exE) (erule add_pq_cases [OF _ pq]; auto)
qed

section \<open>Properties\<close>

text \<open>Packets of which no two belong to the same block, none of them with address 0.\<close>

definition block_distinct :: "nat \<Rightarrow> PACKET list \<Rightarrow> bool" where
  "block_distinct n xs \<longleftrightarrow> (\<forall>p \<in> set xs. p_address p \<noteq> 0)
     \<and> distinct (map (\<lambda>p. drop_bit n (p_address p)) xs)"

lemma eq_addr_PACKET_iff:
  "p_address e \<noteq> 0 \<Longrightarrow> eq_addr_PACKET a n e \<longleftrightarrow> drop_bit n (p_address e) = drop_bit n a"
  by (simp add: eq_addr_PACKET_def eq_addr_def is_valid_PACKET_def)

lemma block_distinct_snoc:
  assumes "block_distinct n xs" "p_address x \<noteq> 0" "\<forall>e \<in> set xs. \<not> eq_addr_PACKET (p_address x) n e"
  shows "block_distinct n (xs @ [x])"
proof -
  have "drop_bit n (p_address e) \<noteq> drop_bit n (p_address x)" if "e \<in> set xs" for e
    using assms that by (auto simp: block_distinct_def eq_addr_PACKET_iff)
  with assms(1,2) show ?thesis by (fastforce simp: block_distinct_def)
qed

lemma block_distinct_update:
  assumes "block_distinct n xs" "k < length xs" "p_address x \<noteq> 0"
    "drop_bit n (p_address x) = drop_bit n (p_address (xs ! k))"
  shows "block_distinct n (xs[k := x])"
proof -
  have "map (\<lambda>p. drop_bit n (p_address p)) (xs[k := x]) = map (\<lambda>p. drop_bit n (p_address p)) xs"
    using assms(2,4) by (simp add: map_update list_update_same_conv)
  then have d: "distinct (map (\<lambda>p. drop_bit n (p_address p)) (xs[k := x]))"
    using assms(1) by (simp add: block_distinct_def)
  have "set (xs[k := x]) \<subseteq> insert x (set xs)" by (rule set_update_subset_insert)
  with d assms(1,3) show ?thesis by (auto simp: block_distinct_def)
qed


end
