(* ===== verification/CacheInvariant.thy ===== *)
theory CacheInvariant
  imports CacheQueues
begin

text \<open>
  The invariant of a cache and its preservation by every handler, for any
  replacement policy, prefetcher and lower level that keep their contracts.
  The contracts are the locale \<open>cache_modules\<close>, which extends that of a
  replacement policy.  A handler either succeeds and keeps the invariant, or
  hands on an error that a module reported: the assertions of the cache itself
  never fail.
\<close>

section \<open>Outcomes\<close>

text \<open>A computation that succeeds with a result that satisfies \<open>P\<close>, or fails with an error of \<open>err\<close>.\<close>

definition resE :: "(champ_error \<Rightarrow> bool) \<Rightarrow> ('a \<Rightarrow> bool) \<Rightarrow> 'a result \<Rightarrow> bool" where
  "resE err P m \<longleftrightarrow> (case m of Inl e \<Rightarrow> err e | Inr x \<Rightarrow> P x)"

lemma resE_simps [simp]: "resE err P (Inl e) \<longleftrightarrow> err e" "resE err P (Inr x) \<longleftrightarrow> P x"
  by (simp_all add: resE_def)

lemma resE_if: "resE err P (if b then m else n) \<longleftrightarrow> (if b then resE err P m else resE err P n)"
  by simp

lemma resE_bind:
  assumes "resE err P m" "\<And>x. P x \<Longrightarrow> resE err Q (f x)"
  shows "resE err Q (bindE m f)"
  using assms by (cases m) simp_all

lemma resE_weaken: "resE err P m \<Longrightarrow> (\<And>x. P x \<Longrightarrow> Q x) \<Longrightarrow> resE err Q m"
  by (cases m) simp_all

lemma resE_I: "(\<And>e. m = Inl e \<Longrightarrow> err e) \<Longrightarrow> (\<And>x. m = Inr x \<Longrightarrow> P x) \<Longrightarrow> resE err P m"
  by (cases m) simp_all

section \<open>Prefetch queues\<close>

definition pq_good :: "('s, 'p) CACHE \<Rightarrow> bool" where
  "pq_good c \<longleftrightarrow> dq_good (PQ c) \<and> dq_good (VAPQ c) \<and> (\<forall>p \<in> set (dq_list (PQ c)). p_address p \<noteq> 0)"

text \<open>A prefetcher changes its own state, the prefetch queues and the statistics.\<close>

definition pf_frame :: "('s, 'p) CACHE \<Rightarrow> ('s, 'p) CACHE \<Rightarrow> bool" where
  "pf_frame c d \<longleftrightarrow> cfg d = cfg c \<and> block d = block c \<and> RQ d = RQ c \<and> WQ d = WQ c \<and> MSHR d = MSHR c
     \<and> repl d = repl c \<and> c_cycle d = c_cycle c
     \<and> (pq_good c \<longrightarrow> pq_good d \<and> dq_has_ready (PQ d) = dq_has_ready (PQ c))"

lemma pf_frame_refl [simp]: "pf_frame c c"
  by (simp add: pf_frame_def)

lemma pf_frame_trans: "pf_frame c d \<Longrightarrow> pf_frame d e \<Longrightarrow> pf_frame c e"
  by (simp add: pf_frame_def)

lemma pf_frame_stats [simp]: "pf_frame c (c\<lparr>stats := ss\<rparr>)" "pf_frame c (upd_stats f c)" "pf_frame c (c\<lparr>pref := p\<rparr>)"
  by (simp_all add: pf_frame_def pq_good_def upd_stats_def)

lemma push_q_total:
  assumes "dq_wf q" "\<not> dq_full q"
  shows "\<exists>r. push_q warm x q = Inr r"
proof -
  have "length (dq_list q) < dq_size q" using assms dqq.bounded [OF assms(1)] by (simp add: dq_full_list)
  from dq_push_delay_ok [OF assms(1) this] show ?thesis
    by (auto simp: push_q_def dq_push_back_def dq_push_back_ready_def)
qed

lemma add_pq_outcome:
  assumes "pq_good c"
  shows "resE (\<lambda>e. e = AssertFailed ''packet->address != 0'') (\<lambda>(r, msgs, d). pf_frame c d \<and> VAPQ d = VAPQ c) (add_pq E packet c)"
proof (rule resE_I)
  have wf: "dq_wf (PQ c)" using assms by (simp add: pq_good_def dq_good_wf)
  fix e
  assume "add_pq E packet c = Inl e"
  then show "e = AssertFailed ''packet->address != 0''"
    using push_q_total [OF wf, of "warmup_complete E (c_cpu c)" packet]
    by (auto simp: add_pq_def errs Let_def stat_defs assertE_def split: if_splits)
next
  have wf: "dq_wf (PQ c)" using assms by (simp add: pq_good_def dq_good_wf)
  fix x
  assume "add_pq E packet c = Inr x"
  then obtain r msgs d where x: "x = (r, msgs, d)" and a: "add_pq E packet c = Inr (r, msgs, d)" by (cases x) auto
  from a wf have "pf_frame c d \<and> VAPQ d = VAPQ c"
  proof (cases rule: add_pq_cases)
    case (2 k q ss e)
    have "p_address e \<noteq> 0" using assms 2(4,8) by (simp add: pq_good_def)
    moreover have "set (dq_list q) \<subseteq> insert e (set (dq_list (PQ c)))" using 2(7) set_update_subset_insert by metis
    ultimately show ?thesis using 2 assms by (auto simp: pf_frame_def pq_good_def dq_grew_def)
  qed (use assms in \<open>auto simp: pf_frame_def pq_good_def dq_grew_def\<close>)
  then show "case x of (r, msgs, d) \<Rightarrow> pf_frame c d \<and> VAPQ d = VAPQ c" by (simp add: x)
qed

lemma prefetch_line_outcome:
  assumes "pq_good c"
  shows "resE (\<lambda>e. e = AssertFailed ''packet->address != 0'') (\<lambda>(r, d). pf_frame c d) (prefetch_line E a here m c)"
proof -
  let ?c = "upd_stats (\<lambda>s. s\<lparr>pf_requested := pf_requested s + 1\<rparr>) c"
  have c: "pf_frame c ?c" "pq_good ?c" using assms by (simp_all add: pf_frame_def pq_good_def upd_stats_def)
  show ?thesis
  proof (cases "virtual_prefetch (cfg c)")
    case True
    show ?thesis
    proof (cases "dq_full (VAPQ c)")
      case True
      then show ?thesis using \<open>virtual_prefetch (cfg c)\<close> c(1) by (simp add: prefetch_line_def Let_def upd_stats_def)
    next
      case False
      have wf: "dq_good (VAPQ c)" using assms by (simp add: pq_good_def)
      have push: "resE (\<lambda>e. e = AssertFailed ''packet->address != 0'') dq_good (dq_push_back x (VAPQ ?c))" for x
      proof -
        obtain q where "push_q True x (VAPQ c) = Inr q" using push_q_total [OF dq_good_wf [OF wf] False] by blast
        then show ?thesis using wf dq_grew_push [of True x "VAPQ c" q] by (auto simp: push_q_def dq_grew_def upd_stats_def)
      qed
      have f: "pf_frame c (?c\<lparr>VAPQ := q\<rparr>)" if "dq_good q" for q
        using that assms by (simp add: pf_frame_def pq_good_def upd_stats_def)
      have "virtual_prefetch (cfg ?c) = True" "(\<not> dq_full (VAPQ ?c)) = True" using True False by (simp_all add: upd_stats_def)
      then show ?thesis
        unfolding prefetch_line_def Let_def
        by (simp only: if_True, intro resE_bind [OF push]) (use f in simp)
    qed
  next
    case False
    have "virtual_prefetch (cfg ?c) = False" using False by (simp add: upd_stats_def)
    moreover have t: "pf_frame c b" "pf_frame c (upd_stats f b)" if "pf_frame ?c b" for b f
      using pf_frame_trans [OF c(1) that] pf_frame_trans [of c b "upd_stats f b"] by simp_all
    ultimately show ?thesis
      unfolding prefetch_line_def Let_def
      by (simp only: if_False, intro resE_bind [OF add_pq_outcome [OF c(2)]]) (auto intro: t)
  qed
qed

section \<open>Contracts of the prefetcher and the lower level\<close>

text \<open>
  The lower level answers a packet with at most one requester at most once,
  with the packet itself, and only if it has a requester.
\<close>

definition answers :: "PACKET \<Rightarrow> PACKET list \<Rightarrow> bool" where
  "answers pkt rets \<longleftrightarrow> rets = [] \<or> (p_to_return pkt \<noteq> [] \<and> (\<exists>d. rets = [pkt\<lparr>p_data := d\<rparr>]))"

locale cache_modules =
  replacement_policy sets ways repl_inv "find_victim E" "update_replacement_state E"
  for sets ways :: nat and repl_inv :: "BLOCK list \<times> 's \<Rightarrow> bool" and E :: "('s, 'p, 'w) cache_env" +
  fixes err :: "champ_error \<Rightarrow> bool"
    and lo_inv :: "'w \<Rightarrow> bool"
  assumes operate_frame: "pq_good c \<Longrightarrow> resE err (\<lambda>(m', d). pf_frame c d) (prefetcher_cache_operate E a ip h t m c)"
    and fill_frame: "pq_good c \<Longrightarrow> resE err (\<lambda>(m', d). pf_frame c d) (prefetcher_cache_fill E a st w pf ev m c)"
    and cycle_frame: "pq_good c \<Longrightarrow> resE err (pf_frame c) (prefetcher_cycle_operate E c)"
    and rq_answers: "lo_inv lw \<Longrightarrow> p_address pkt \<noteq> 0 \<Longrightarrow> length (p_to_return pkt) \<le> 1 \<Longrightarrow>
      resE err (\<lambda>(r, rets, lw'). answers pkt rets \<and> lo_inv lw') (lo_add_rq E pkt lw)"
    and pq_answers: "lo_inv lw \<Longrightarrow> p_address pkt \<noteq> 0 \<Longrightarrow> length (p_to_return pkt) \<le> 1 \<Longrightarrow>
      resE err (\<lambda>(r, rets, lw'). answers pkt rets \<and> lo_inv lw') (lo_add_pq E pkt lw)"
    and wq_answers: "lo_inv lw \<Longrightarrow> p_address pkt \<noteq> 0 \<Longrightarrow> resE err (\<lambda>(r, lw'). lo_inv lw') (lo_add_wq E pkt lw)"
    and translate_err: "va_to_pa (consts_of E) cpu v vm = Inl e \<Longrightarrow> err e"
    and address_err: "err (AssertFailed ''packet->address != 0'')"

section \<open>Invariant\<close>

definition cfg_wf :: "cache_config \<Rightarrow> bool" where
  "cfg_wf cf \<longleftrightarrow> (\<exists>k. NUM_SET cf = 2 ^ k) \<and> 0 < NUM_WAY cf"

text \<open>Every valid block lies in the set its address selects; a block that is valid or dirty has an address.\<close>

definition placed :: "cache_config \<Rightarrow> BLOCK list \<Rightarrow> bool" where
  "placed cf bs \<longleftrightarrow> (\<forall>i < length bs. (b_valid (bs ! i) \<longrightarrow> get_set cf (b_address (bs ! i)) = i div NUM_WAY cf)
     \<and> (b_valid (bs ! i) \<or> b_dirty (bs ! i) \<longrightarrow> b_address (bs ! i) \<noteq> 0))"

definition addressed :: "PACKET delay_queue \<Rightarrow> bool" where
  "addressed q \<longleftrightarrow> dq_good q \<and> (\<forall>p \<in> set (dq_list q). p_address p \<noteq> 0)"

definition cache_wf :: "(BLOCK list \<times> 's \<Rightarrow> bool) \<Rightarrow> ('s, 'p) CACHE \<Rightarrow> bool" where
  "cache_wf rinv c \<longleftrightarrow> cfg_wf (cfg c) \<and> length (block c) = NUM_SET (cfg c) * NUM_WAY (cfg c)
     \<and> placed (cfg c) (block c) \<and> rinv (block c, repl c)
     \<and> addressed (RQ c) \<and> addressed (WQ c) \<and> pq_good c
     \<and> length (MSHR c) \<le> MSHR_SIZE (cfg c) \<and> block_distinct (OFFSET_BITS (cfg c)) (MSHR c)"

lemma get_set_less: "cfg_wf cf \<Longrightarrow> get_set cf a < NUM_SET cf"
  by (auto simp: cfg_wf_def get_set_def and_bitmask_unat)

lemma get_set_cong: "drop_bit (OFFSET_BITS cf) a = drop_bit (OFFSET_BITS cf) b \<Longrightarrow> get_set cf a = get_set cf b"
  by (simp add: get_set_def)

lemma index_less:
  assumes "st < sets" "w < (ways::nat)"
  shows "st * ways + w < sets * ways" "(st * ways + w) div ways = st"
  using set_index_bound [OF assms(1), of ways] assms(2) by auto

lemma placed_only_lru:
  assumes "placed cf bs" "only_lru bs bs'"
  shows "placed cf bs'"
proof -
  have "b_valid (bs ! i) = b_valid (bs' ! i)" "b_address (bs ! i) = b_address (bs' ! i)" "b_dirty (bs ! i) = b_dirty (bs' ! i)"
    if "i < length bs" for i
    using only_lruD [OF assms(2)] that same_but_lruD(1,3,4) by metis+
  with assms(1) only_lruD [OF assms(2)] show ?thesis by (simp add: placed_def)
qed

lemma placed_update:
  assumes "placed cf bs" "i < length bs" "b_valid x \<Longrightarrow> get_set cf (b_address x) = i div NUM_WAY cf"
    "b_valid x \<or> b_dirty x \<Longrightarrow> b_address x \<noteq> 0"
  shows "placed cf (bs[i := x])"
  using assms by (auto simp: placed_def nth_list_update)

text \<open>What the handling of one request may change of the cache, besides the statistics.\<close>

definition handled :: "('s, 'p) CACHE \<Rightarrow> ('s, 'p) CACHE \<Rightarrow> bool" where
  "handled c d \<longleftrightarrow> cfg d = cfg c \<and> RQ d = RQ c \<and> WQ d = WQ c \<and> dq_has_ready (PQ d) = dq_has_ready (PQ c)"

lemma handled_trans: "handled c d \<Longrightarrow> handled d e \<Longrightarrow> handled c e"
  by (simp add: handled_def)

lemma addressed_front:
  assumes "addressed q" "dq_has_ready q"
  shows "p_address (dq_front q) \<noteq> 0" "\<exists>r. dq_pop_front q = Inr r \<and> addressed r"
proof -
  have q: "dq_good q" "dq_wf q" using assms(1) by (simp_all add: addressed_def dq_good_wf)
  have ne: "dq_list q \<noteq> []" by (rule dq_good_ready_ne [OF q(1) assms(2)])
  show "p_address (dq_front q) \<noteq> 0"
    using dqq.first_items [OF q(2) ne] ne assms(1) by (simp add: addressed_def)
  from dq_pop_front_ok [OF q(2) ne] obtain r where r: "dq_pop_front q = Inr r" "dq_list r = tl (dq_list q)" by blast
  have "set (dq_list r) \<subseteq> set (dq_list q)" using ne r(2) by (cases "dq_list q") auto
  with dq_good_pop [OF q(1) assms(2) r(1)] assms(1) have "addressed r" by (auto simp: addressed_def)
  with r(1) show "\<exists>r. dq_pop_front q = Inr r \<and> addressed r" by blast
qed

lemma addressed_operate: "addressed q \<Longrightarrow> addressed (dq_operate q)"
  using dq_good_operate [of q] dq_operate_ok [of q] by (simp add: addressed_def dq_good_wf)

lemma pq_good_addressed: "pq_good c \<longleftrightarrow> addressed (PQ c) \<and> dq_good (VAPQ c)"
  by (auto simp: pq_good_def addressed_def)

section \<open>Calls of a cache\<close>

text \<open>
  What the rest of the simulator calls: requests from the levels above, data
  from the level below, an invalidation, and one cycle, after which the clock
  of the cache has advanced.
\<close>

datatype cache_call = Add_RQ PACKET | Add_WQ PACKET | Add_PQ PACKET | Return_data PACKET | Invalidate u64 | Cycle

definition added_to :: "('s, 'p, 'w) cache_state \<Rightarrow> ('s, 'p) added \<Rightarrow> ('s, 'p, 'w) cache_state result" where
  "added_to s m = bindE m (\<lambda>(r, msgs, c). Inr (s\<lparr>cache := c, outbox := outbox s @ msgs\<rparr>))"

fun cache_exec :: "('s, 'p, 'w) cache_env \<Rightarrow> cache_call \<Rightarrow> ('s, 'p, 'w) cache_state \<Rightarrow> ('s, 'p, 'w) cache_state result" where
  "cache_exec E (Add_RQ p) s = added_to s (add_rq E p (cache s))"
| "cache_exec E (Add_WQ p) s = added_to s (add_wq E p (cache s))"
| "cache_exec E (Add_PQ p) s = added_to s (add_pq E p (cache s))"
| "cache_exec E (Return_data p) s = bindE (return_data E p (cache s)) (\<lambda>c. Inr (s\<lparr>cache := c\<rparr>))"
| "cache_exec E (Invalidate a) s = Inr (s\<lparr>cache := snd (invalidate_entry a (cache s))\<rparr>)"
| "cache_exec E Cycle s = bindE (operate E s) (\<lambda>s. Inr (s\<lparr>cache := (cache s)\<lparr>c_cycle := c_cycle (cache s) + 1\<rparr>\<rparr>))"

fun cache_run :: "('s, 'p, 'w) cache_env \<Rightarrow> cache_call list \<Rightarrow> ('s, 'p, 'w) cache_state \<Rightarrow> ('s, 'p, 'w) cache_state result" where
  "cache_run E [] s = Inr s"
| "cache_run E (x # xs) s = bindE (cache_exec E x s) (cache_run E xs)"

text \<open>
  What the callers owe the cache: a write has an address, and data are returned
  for a block that is being fetched and has not been returned yet.
\<close>

definition outstanding :: "PACKET \<Rightarrow> ('s, 'p) CACHE \<Rightarrow> bool" where
  "outstanding p c \<longleftrightarrow> (\<exists>e \<in> set (MSHR c). eq_addr_PACKET (p_address p) (OFFSET_BITS (cfg c)) e \<and> p_event_cycle e = - 1)"

fun call_ok :: "cache_call \<Rightarrow> ('s, 'p) CACHE \<Rightarrow> bool" where
  "call_ok (Add_WQ p) c \<longleftrightarrow> p_address p \<noteq> 0"
| "call_ok (Return_data p) c \<longleftrightarrow> outstanding p c"
| "call_ok _ c \<longleftrightarrow> True"

fun calls_ok :: "('s, 'p, 'w) cache_env \<Rightarrow> cache_call list \<Rightarrow> ('s, 'p, 'w) cache_state \<Rightarrow> bool" where
  "calls_ok E [] s \<longleftrightarrow> True"
| "calls_ok E (x # xs) s \<longleftrightarrow> call_ok x (cache s) \<and> (case cache_exec E x s of Inl e \<Rightarrow> True | Inr t \<Rightarrow> calls_ok E xs t)"

lemma add_rq_outcome:
  assumes "addressed (RQ c)"
  shows "resE (\<lambda>e. e = AssertFailed ''packet->address != 0'') (\<lambda>(r, msgs, d). \<exists>q ss. d = c\<lparr>RQ := q, stats := ss\<rparr> \<and> addressed q
     \<and> (\<exists>x. msgs = map (\<lambda>t. (t, packet\<lparr>p_data := x\<rparr>)) (p_to_return packet) \<or> msgs = [])) (add_rq E packet c)"
proof (rule resE_I)
  have wf: "dq_wf (RQ c)" using assms by (simp add: addressed_def dq_good_wf)
  show "e = AssertFailed ''packet->address != 0''" if "add_rq E packet c = Inl e" for e
    using that push_q_total [OF wf, of "warmup_complete E (c_cpu c)" packet]
    by (auto simp: add_rq_def errs Let_def stat_defs assertE_def split: if_splits)
  fix x
  assume x: "add_rq E packet c = Inr x"
  then have nz: "p_address packet \<noteq> 0" by (auto simp: add_rq_def errs)
  obtain r msgs d where xd: "x = (r, msgs, d)" by (cases x) auto
  from x [unfolded xd] wf
  have "\<exists>q ss. d = c\<lparr>RQ := q, stats := ss\<rparr> \<and> addressed q
     \<and> (\<exists>x. msgs = map (\<lambda>t. (t, packet\<lparr>p_data := x\<rparr>)) (p_to_return packet) \<or> msgs = [])"
  proof (cases rule: add_rq_cases)
    case (1 k ss)
    then show ?thesis using assms by (intro exI [of _ "RQ c"]) auto
  next
    case (2 k q ss)
    have "set (dq_list q) \<subseteq> insert (merge_deps (instr_lt E) (dq_list (RQ c) ! k) packet) (set (dq_list (RQ c)))"
      using 2(9) set_update_subset_insert by metis
    then have "addressed q" using assms 2(4,7) by (auto simp: addressed_def dq_grew_def merge_deps_def)
    then show ?thesis using 2 by auto
  next
    case (3 ss)
    then show ?thesis using assms by (intro exI [of _ "RQ c"]) auto
  next
    case (4 q ss)
    then have "addressed q" using assms nz by (auto simp: addressed_def dq_grew_def)
    then show ?thesis using 4 by auto
  qed
  then show "case x of (r, msgs, d) \<Rightarrow> \<exists>q ss. d = c\<lparr>RQ := q, stats := ss\<rparr> \<and> addressed q
     \<and> (\<exists>x. msgs = map (\<lambda>t. (t, packet\<lparr>p_data := x\<rparr>)) (p_to_return packet) \<or> msgs = [])" by (simp add: xd)
qed

text \<open>With an address, a read or prefetch is always accepted or refused with a return code.\<close>

lemma add_total:
  assumes "p_address packet \<noteq> 0"
  shows "dq_wf (RQ c) \<Longrightarrow> \<exists>x. add_rq E packet c = Inr x" "dq_wf (PQ c) \<Longrightarrow> \<exists>x. add_pq E packet c = Inr x"
  using assms push_q_total [of "RQ c" "warmup_complete E (c_cpu c)" packet] push_q_total [of "PQ c" "warmup_complete E (c_cpu c)" packet]
  by (auto simp: add_rq_def add_pq_def errs Let_def stat_defs assertE_def)

lemma add_wq_outcome:
  assumes "addressed (WQ c)" "p_address packet \<noteq> 0"
  shows "resE (\<lambda>_. False) (\<lambda>(r, msgs, d). \<exists>q ss. d = c\<lparr>WQ := q, stats := ss\<rparr> \<and> addressed q) (add_wq E packet c)"
proof (rule resE_I)
  have wf: "dq_wf (WQ c)" using assms by (simp add: addressed_def dq_good_wf)
  show False if "add_wq E packet c = Inl e" for e
    using that push_q_total [OF wf, of "warmup_complete E (c_cpu c)" packet]
    by (auto simp: add_wq_def errs Let_def stat_defs split: if_splits)
  fix x
  assume x: "add_wq E packet c = Inr x"
  obtain r msgs d where xd: "x = (r, msgs, d)" by (cases x) auto
  from x [unfolded xd] wf have "\<exists>q ss. d = c\<lparr>WQ := q, stats := ss\<rparr> \<and> addressed q"
  proof (cases rule: add_wq_cases)
    case (3 q ss)
    then have "addressed q" using assms by (auto simp: addressed_def dq_grew_def)
    then show ?thesis using 3 by auto
  qed (use assms in \<open>intro exI [of _ "WQ c"], auto\<close>)+
  then show "case x of (r, msgs, d) \<Rightarrow> \<exists>q ss. d = c\<lparr>WQ := q, stats := ss\<rparr> \<and> addressed q" by (simp add: xd)
qed

section \<open>Returning data\<close>

lemma block_distinct_mset:
  assumes "mset xs = mset ys"
  shows "block_distinct n xs = block_distinct n ys"
proof -
  have "mset (map (\<lambda>p. drop_bit n (p_address p)) xs) = mset (map (\<lambda>p. drop_bit n (p_address p)) ys)"
    by (simp only: mset_map assms)
  then show ?thesis using mset_eq_imp_distinct_iff mset_eq_setD [OF assms] unfolding block_distinct_def by blast
qed

lemma return_data_ok:
  assumes "k < length (MSHR c)" "eq_addr_PACKET (p_address pkt) (OFFSET_BITS (cfg c)) (MSHR c ! k)"
    and "p_event_cycle (MSHR c ! k) = - 1" and bd: "block_distinct (OFFSET_BITS (cfg c)) (MSHR c)"
  shows "\<exists>m. return_data E pkt c = Inr (c\<lparr>MSHR := m\<rparr>) \<and> length m = length (MSHR c) \<and> block_distinct (OFFSET_BITS (cfg c)) m"
proof -
  let ?m = "MSHR c" and ?off = "OFFSET_BITS (cfg c)"
  let ?i = "find_if (eq_addr_PACKET (p_address pkt) ?off) ?m"
  let ?j = "find_if (\<lambda>x. p_event_cycle x = - 1) ?m"
  have ij: "?i < length ?m" "?j < length ?m"
    using assms(1-3) by (auto simp: find_if_less_iff)
  define e where "e = (?m ! ?i)\<lparr>p_data := p_data pkt, p_pf_metadata := p_pf_metadata pkt,
    p_event_cycle := c_cycle c + (if warmup_complete E (c_cpu c) then FILL_LATENCY (cfg c) else 0)\<rparr>"
  let ?n = "?m[?i := e]"
  have d: "return_data E pkt c = Inr (c\<lparr>MSHR := ?n[?i := ?n ! ?j, ?j := ?n ! ?i]\<rparr>)"
    using ij by (simp add: return_data_def Let_def e_def [symmetric])
  have sw: "mset (?n[?i := ?n ! ?j, ?j := ?n ! ?i]) = mset ?n" by (rule mset_swap) (use ij in simp_all)
  have ea: "p_address e = p_address (?m ! ?i)" by (simp add: e_def)
  have "p_address (?m ! ?i) \<noteq> 0" using bd nth_mem [OF ij(1)] by (simp add: block_distinct_def)
  then have "block_distinct ?off ?n" by (intro block_distinct_update [OF bd ij(1)]) (simp_all add: ea)
  then have "block_distinct ?off (?n[?i := ?n ! ?j, ?j := ?n ! ?i])" unfolding block_distinct_mset [OF sw] .
  then show ?thesis using d by (intro exI [of _ "?n[?i := ?n ! ?j, ?j := ?n ! ?i]"]) simp
qed

section \<open>Handlers\<close>

context cache_modules
begin


definition cinv :: "('s, 'p) CACHE \<Rightarrow> bool" where
  "cinv c \<longleftrightarrow> cache_wf repl_inv c \<and> NUM_SET (cfg c) = sets \<and> NUM_WAY (cfg c) = ways"

definition sinv :: "('s, 'p, 'w) cache_state \<Rightarrow> bool" where
  "sinv s \<longleftrightarrow> cinv (cache s) \<and> lo_inv (c_lower s)"

lemma sinvD: "sinv s \<Longrightarrow> cinv (cache s)" "sinv s \<Longrightarrow> lo_inv (c_lower s)"
  by (simp_all add: sinv_def)

lemma sinvI: "cinv (cache s) \<Longrightarrow> lo_inv (c_lower s) \<Longrightarrow> sinv s"
  by (simp add: sinv_def)

lemma cinv_frame:
  assumes "cinv c" "pf_frame (c\<lparr>c_cpu := x\<rparr>) d"
  shows "cinv d" "handled c d" "MSHR d = MSHR c" "block d = block c" "cfg d = cfg c" "c_cycle d = c_cycle c"
  using assms by (simp_all add: cinv_def cache_wf_def pf_frame_def handled_def pq_good_def)

lemma cinv_stats [simp]: "cinv (c\<lparr>stats := ss\<rparr>) = cinv c" "cinv (upd_stats f c) = cinv c" "cinv (c\<lparr>c_cpu := x\<rparr>) = cinv c"
  "cinv (c\<lparr>writes_available := n\<rparr>) = cinv c" "cinv (c\<lparr>reads_available := n\<rparr>) = cinv c" "cinv (c\<lparr>ever_seen_data := b\<rparr>) = cinv c"
  by (simp_all add: cinv_def cache_wf_def pq_good_def upd_stats_def)

lemma stats_fields [simp]:
  "MSHR (upd_stats f c) = MSHR c" "cfg (upd_stats f c) = cfg c" "block (upd_stats f c) = block c" "handled c (upd_stats f c)"
  "RQ (upd_stats f c) = RQ c" "WQ (upd_stats f c) = WQ c" "PQ (upd_stats f c) = PQ c"
  "handled d (upd_stats f c) = handled d c"
  by (simp_all add: upd_stats_def handled_def)

lemma activate_ok:
  assumes "cinv c"
  shows "resE err (\<lambda>(pkt', d). cinv d \<and> handled c d \<and> MSHR d = MSHR c \<and> block d = block c) (activate_prefetcher E hit pkt c)"
proof (cases "should_activate_prefetcher (cfg c) (p_type pkt) \<and> p_pf_origin_level pkt < fill_level (cfg c)")
  case True
  have "pq_good (c\<lparr>c_cpu := p_cpu pkt\<rparr>)" using assms by (simp add: cinv_def cache_wf_def pq_good_def)
  from operate_frame [OF this] show ?thesis
    unfolding activate_prefetcher_def if_P [OF True]
    by (rule resE_bind) (use cinv_frame [OF assms] in auto)
qed (use assms in \<open>auto simp: activate_prefetcher_def handled_def\<close>)

lemma apply_update_ok:
  assumes "cinv c" "st < sets" "w < ways"
  shows "cinv (apply_update E pkt st w a hit c)" "handled c (apply_update E pkt st w a hit c)"
    "MSHR (apply_update E pkt st w a hit c) = MSHR c" "only_lru (block c) (block (apply_update E pkt st w a hit c))"
proof -
  obtain bs r where u: "update_replacement_state E (p_cpu pkt) st w a (p_ip pkt) 0 (p_type pkt) hit (block c, repl c) = (bs, r)"
    by fastforce
  have o: "repl_inv (bs, r)" "only_lru (block c) bs"
    using update [OF _ _ assms(2,3) u] assms(1) by (simp_all add: cinv_def cache_wf_def)
  have e: "apply_update E pkt st w a hit c = c\<lparr>block := bs, repl := r\<rparr>" by (simp add: apply_update_def u)
  show "cinv (apply_update E pkt st w a hit c)"
    using assms(1) o placed_only_lru [OF _ o(2)] only_lruD [OF o(2)]
    by (simp add: e cinv_def cache_wf_def pq_good_def)
  show "handled c (apply_update E pkt st w a hit c)" "MSHR (apply_update E pkt st w a hit c) = MSHR c"
    "only_lru (block c) (block (apply_update E pkt st w a hit c))"
    using o(2) by (simp_all add: e handled_def)
qed

lemma cinv_block:
  assumes "cinv c" "i < length (block c)" "b_lru x = b_lru (block c ! i)"
    "b_valid x \<Longrightarrow> get_set (cfg c) (b_address x) = i div NUM_WAY (cfg c)" "b_valid x \<or> b_dirty x \<Longrightarrow> b_address x \<noteq> 0"
  shows "cinv (c\<lparr>block := (block c)[i := x]\<rparr>)"
proof -
  have "map b_lru ((block c)[i := x]) = map b_lru (block c)"
    using assms(2,3) by (simp add: map_update list_update_same_conv)
  note this [symmetric]
  then have "repl_inv ((block c)[i := x], repl c)"
    using inv_cong [of "block c" "repl c"] assms(1) by (simp add: cinv_def cache_wf_def)
  then show ?thesis
    using assms(1) placed_update [OF _ assms(2,4,5)] by (simp add: cinv_def cache_wf_def pq_good_def)
qed

lemma cinv_set: "cinv c \<Longrightarrow> get_set (cfg c) a < sets"
  using get_set_less [of "cfg c" a] by (simp add: cinv_def cache_wf_def)

lemma cinv_len: "cinv c \<Longrightarrow> length (block c) = sets * ways" "cinv c \<Longrightarrow> NUM_WAY (cfg c) = ways" "cinv c \<Longrightarrow> 0 < ways"
  by (auto simp: cinv_def cache_wf_def cfg_wf_def)

lemma cinv_same_block:
  assumes "cinv c" "i < length (block c)" "b_lru x = b_lru (block c ! i)" "b_valid x = b_valid (block c ! i)" "b_address x = b_address (block c ! i)"
    "b_dirty x \<Longrightarrow> b_valid x \<or> b_dirty (block c ! i)"
  shows "cinv (c\<lparr>block := (block c)[i := x]\<rparr>)"
  by (rule cinv_block [OF assms(1-3)]) (use assms in \<open>auto simp: cinv_def cache_wf_def placed_def\<close>)

lemma readlike_hit_ok:
  assumes "cinv (cache s)" "st < sets" "w < ways"
  shows "resE err (\<lambda>s'. cinv (cache s') \<and> handled (cache s) (cache s') \<and> c_lower s' = c_lower s) (readlike_hit E st w pkt s)"
proof -
  let ?i = "st * NUM_WAY (cfg (cache s)) + w"
  show ?thesis
    unfolding readlike_hit_def Let_def
  proof (rule resE_bind [OF activate_ok [OF assms(1)]], goal_cases)
    case (1 x)
    then obtain pkt' d where x: "x = (pkt', d)" and d: "cinv d" "handled (cache s) d" by (cases x) auto
    define c where "c = count_hit pkt' (apply_update E pkt' st w (b_address (block d ! ?i)) True d)"
    note u = apply_update_ok [OF d(1) assms(2,3), of pkt' "b_address (block d ! ?i)" True]
    have c: "cinv c" "handled (cache s) c" using u handled_trans [OF d(2) u(2)] by (simp_all add: c_def count_hit_def)
    have "?i < length (block c)"
      using index_less(1) [OF assms(2,3)] cinv_len [OF c(1)] cinv_len(2) [OF assms(1)] by simp
    then have "cinv (c\<lparr>block := (block c)[?i := (block c ! ?i)\<lparr>b_prefetch := False\<rparr>]\<rparr>)"
      by (rule cinv_same_block [OF c(1)]) simp_all
    then show ?case using c by (simp add: x c_def [symmetric] handled_def)
  qed
qed

lemma cinv_mshr:
  assumes "cinv c" "length m \<le> MSHR_SIZE (cfg c)" "block_distinct (OFFSET_BITS (cfg c)) m"
  shows "cinv (c\<lparr>MSHR := m\<rparr>)" "handled c (c\<lparr>MSHR := m\<rparr>)"
  using assms by (simp_all add: cinv_def cache_wf_def pq_good_def handled_def)

lemma cinv_mshrD:
  assumes "cinv c"
  shows "length (MSHR c) \<le> MSHR_SIZE (cfg c)" "block_distinct (OFFSET_BITS (cfg c)) (MSHR c)"
  using assms by (simp_all add: cinv_def cache_wf_def)

lemma miss_finish_ok:
  assumes "sinv s"
  shows "resE err (\<lambda>(ok, t). sinv t \<and> handled (cache s) (cache t))
    (bindE (activate_prefetcher E False pkt (cache s)) (\<lambda>(_, c). Inr (True, s\<lparr>cache := c\<rparr>)))"
  by (rule resE_bind [OF activate_ok [OF sinvD(1) [OF assms]]]) (use assms in \<open>auto simp: sinv_def\<close>)

text \<open>What the lower level returns at once finds its MSHR entry, the one just added.\<close>

lemma return_all_ok:
  assumes "cinv c" "answers pkt rets"
    "p_to_return pkt \<noteq> [] \<Longrightarrow> \<exists>k < length (MSHR c). p_address (MSHR c ! k) = p_address pkt \<and> p_event_cycle (MSHR c ! k) = - 1"
  shows "\<exists>m. return_all E rets c = Inr (c\<lparr>MSHR := m\<rparr>) \<and> cinv (c\<lparr>MSHR := m\<rparr>)"
proof (cases "rets = []")
  case True
  then show ?thesis using assms(1) by (intro exI [of _ "MSHR c"]) simp
next
  case False
  then obtain d where r: "rets = [pkt\<lparr>p_data := d\<rparr>]" "p_to_return pkt \<noteq> []" using assms(2) by (auto simp: answers_def)
  then obtain k where k: "k < length (MSHR c)" "p_address (MSHR c ! k) = p_address pkt" "p_event_cycle (MSHR c ! k) = - 1"
    using assms(3) by blast
  note m = cinv_mshrD [OF assms(1)]
  have "p_address (MSHR c ! k) \<noteq> 0" using m(2) nth_mem [OF k(1)] by (simp add: block_distinct_def)
  then have "eq_addr_PACKET (p_address (pkt\<lparr>p_data := d\<rparr>)) (OFFSET_BITS (cfg c)) (MSHR c ! k)"
    by (simp add: eq_addr_PACKET_iff k(2))
  from return_data_ok [OF k(1) this k(3) m(2), of E] obtain n where
    n: "return_data E (pkt\<lparr>p_data := d\<rparr>) c = Inr (c\<lparr>MSHR := n\<rparr>)" "length n = length (MSHR c)" "block_distinct (OFFSET_BITS (cfg c)) n"
    by blast
  show ?thesis
    by (intro exI [of _ n]) (use cinv_mshr [OF assms(1) _ n(3)] n m(1) in \<open>simp add: r\<close>)
qed

lemma merge_mshr_address:
  "p_address (merge_mshr lt e pkt) = p_address e \<or> p_address (merge_mshr lt e pkt) = p_address pkt"
  by (simp add: merge_mshr_def Let_def merge_deps_def)

lemma mshr_merge_ok:
  assumes "cinv c" "p_address pkt \<noteq> 0"
    and k: "k < length (MSHR c)" "eq_addr_PACKET (p_address pkt) (OFFSET_BITS (cfg c)) (MSHR c ! k)"
  shows "block_distinct (OFFSET_BITS (cfg c)) ((MSHR c)[k := merge_mshr lt (MSHR c ! k) pkt])"
proof -
  note m = cinv_mshrD(2) [OF assms(1)]
  have nz: "p_address (MSHR c ! k) \<noteq> 0" using m nth_mem [OF k(1)] by (simp add: block_distinct_def)
  then have "drop_bit (OFFSET_BITS (cfg c)) (p_address (MSHR c ! k)) = drop_bit (OFFSET_BITS (cfg c)) (p_address pkt)"
    using k(2) by (simp add: eq_addr_PACKET_iff)
  then show ?thesis
    using merge_mshr_address [of lt "MSHR c ! k" pkt] nz assms(2) by (intro block_distinct_update [OF m k(1)]) auto
qed

lemma mshr_new_ok:
  assumes "cinv c" "p_address e \<noteq> 0" "length (MSHR c) < MSHR_SIZE (cfg c)"
    "find_if (eq_addr_PACKET (p_address e) (OFFSET_BITS (cfg c))) (MSHR c) = length (MSHR c)"
  shows "cinv (c\<lparr>MSHR := MSHR c @ [e]\<rparr>)" "handled c (c\<lparr>MSHR := MSHR c @ [e]\<rparr>)"
proof -
  have "\<forall>x \<in> set (MSHR c). \<not> eq_addr_PACKET (p_address e) (OFFSET_BITS (cfg c)) x"
    using assms(4) by (simp add: find_if_eq_length_iff)
  note bd = block_distinct_snoc [OF cinv_mshrD(2) [OF assms(1)] assms(2) this]
  show "cinv (c\<lparr>MSHR := MSHR c @ [e]\<rparr>)" "handled c (c\<lparr>MSHR := MSHR c @ [e]\<rparr>)"
    using cinv_mshr [OF assms(1) _ bd] assms(3) by simp_all
qed

text \<open>A request that goes to the lower level, once its entry is in the MSHR.\<close>

lemma forward_ok:
  assumes d: "cinv d" "handled c d" and lo: "lo_inv (c_lower s)" "p_address pkt \<noteq> 0" and ret: "length (p_to_return pkt) \<le> 1"
    "p_to_return pkt \<noteq> [] \<Longrightarrow> \<exists>k < length (MSHR d). p_address (MSHR d ! k) = p_address pkt \<and> p_event_cycle (MSHR d ! k) = - 1"
  shows "resE err (\<lambda>(ok, t). sinv t \<and> handled c (cache t))
    (bindE (if is_read then lo_add_rq E pkt (c_lower s) else lo_add_pq E pkt (c_lower s)) (\<lambda>(_, rets, w).
     bindE (return_all E rets d) (\<lambda>d. bindE (activate_prefetcher E False pkt d) (\<lambda>(_, d). Inr (True, s\<lparr>c_lower := w, cache := d\<rparr>)))))"
proof (rule resE_bind [where P = "\<lambda>(r, rets, lw'). answers pkt rets \<and> lo_inv lw'"], goal_cases)
  case 1
  show ?case using rq_answers [OF lo ret(1)] pq_answers [OF lo ret(1)] by simp
next
  case (2 x)
  obtain r rets w where x: "x = (r, rets, w)" by (cases x) auto
  from return_all_ok [OF d(1) _ ret(2), of rets] 2 obtain m where
    m: "return_all E rets d = Inr (d\<lparr>MSHR := m\<rparr>)" "cinv (d\<lparr>MSHR := m\<rparr>)" by (auto simp: x)
  have h: "handled c (d\<lparr>MSHR := m\<rparr>)" using d(2) by (simp add: handled_def)
  have "resE err (\<lambda>(ok, t). sinv t \<and> handled c (cache t))
      (bindE (activate_prefetcher E False pkt (d\<lparr>MSHR := m\<rparr>)) (\<lambda>(_, d). Inr (True, s\<lparr>c_lower := w, cache := d\<rparr>)))"
    by (rule resE_bind [OF activate_ok [OF m(2)]]) (use 2 x in \<open>auto simp: sinv_def intro: handled_trans [OF h]\<close>)
  then show ?case by (simp add: x m(1))
qed

lemma readlike_miss_ok:
  assumes inv: "sinv s" and nz: "p_address pkt \<noteq> 0"
  shows "resE err (\<lambda>(ok, t). sinv t \<and> handled (cache s) (cache t)) (readlike_miss E pkt s)"
proof -
  let ?c = "cache s"
  let ?k = "find_if (eq_addr_PACKET (p_address pkt) (OFFSET_BITS (cfg ?c))) (MSHR ?c)"
  note ci = sinvD(1) [OF inv] and lo = sinvD(2) [OF inv]
  note m = cinv_mshrD [OF ci]
  consider (hit) "?k < length (MSHR ?c)" | (full) "?k = length (MSHR ?c)" "length (MSHR ?c) = MSHR_SIZE (cfg ?c)"
    | (new) "?k = length (MSHR ?c)" "length (MSHR ?c) < MSHR_SIZE (cfg ?c)"
    using find_if_ne_iff m(1) by (metis le_neq_implies_less)
  then show ?thesis
  proof cases
    case hit
    have ne: "?k \<noteq> length (MSHR ?c)" using hit by simp
    let ?m = "(MSHR ?c)[?k := merge_mshr (instr_lt E) (MSHR ?c ! ?k) pkt]"
    note upd = cinv_mshr [OF ci _ mshr_merge_ok [OF ci nz hit find_if_nth [OF hit]]]
    have 1: "cinv (?c\<lparr>MSHR := ?m\<rparr>)" "handled ?c (?c\<lparr>MSHR := ?m\<rparr>)" using upd m(1) by simp_all
    have 2: "cinv (upd_stats f ?c\<lparr>MSHR := ?m\<rparr>)" "handled ?c (upd_stats f ?c\<lparr>MSHR := ?m\<rparr>)" for f
      using 1 by (simp_all add: upd_stats_def cinv_def cache_wf_def handled_def pq_good_def)
    have step: "resE err (\<lambda>(ok, t). sinv t \<and> handled ?c (cache t))
        (bindE (activate_prefetcher E False pkt d) (\<lambda>(_, c). Inr (True, s\<lparr>cache := d, cache := c\<rparr>)))"
      if "cinv d" "handled ?c d" for d
      using miss_finish_ok [of "s\<lparr>cache := d\<rparr>" pkt] that lo by (auto simp: sinv_def elim!: resE_weaken intro: handled_trans)
    show ?thesis
      unfolding readlike_miss_def Let_def if_P [OF ne]
      using step [OF 1] step [OF 2] by simp
  next
    case full
    then show ?thesis using inv by (simp add: readlike_miss_def handled_def)
  next
    case new
    have n: "\<not> ?k \<noteq> length (MSHR ?c)" "length (MSHR ?c) \<noteq> MSHR_SIZE (cfg ?c)" using new by simp_all
    let ?e = "pkt\<lparr>p_cycle_enqueued := c_cycle ?c, p_event_cycle := - 1\<rparr>"
    have e: "cinv (?c\<lparr>MSHR := MSHR ?c @ [?e]\<rparr>)" "handled ?c (?c\<lparr>MSHR := MSHR ?c @ [?e]\<rparr>)"
      using mshr_new_ok [OF ci, of ?e] new nz by simp_all
    have here: "resE err (\<lambda>(ok, t). sinv t \<and> handled ?c (cache t))
      (bindE (if b then lo_add_rq E (pkt\<lparr>p_to_return := [i]\<rparr>) (c_lower s) else lo_add_pq E (pkt\<lparr>p_to_return := [i]\<rparr>) (c_lower s)) (\<lambda>(_, rets, w).
       bindE (return_all E rets (?c\<lparr>MSHR := MSHR ?c @ [?e]\<rparr>)) (\<lambda>d.
       bindE (activate_prefetcher E False (pkt\<lparr>p_to_return := [i]\<rparr>) d) (\<lambda>(_, d). Inr (True, s\<lparr>c_lower := w, cache := d\<rparr>)))))" for b i
      by (rule forward_ok [OF e lo]) (simp add: nz, simp, intro exI [of _ "length (MSHR ?c)"], simp)
    have pass: "resE err (\<lambda>(ok, t). sinv t \<and> handled ?c (cache t))
      (bindE (if b then lo_add_rq E (pkt\<lparr>p_to_return := []\<rparr>) (c_lower s) else lo_add_pq E (pkt\<lparr>p_to_return := []\<rparr>) (c_lower s)) (\<lambda>(_, rets, w).
       bindE (return_all E rets ?c) (\<lambda>d.
       bindE (activate_prefetcher E False (pkt\<lparr>p_to_return := []\<rparr>) d) (\<lambda>(_, d). Inr (True, s\<lparr>c_lower := w, cache := d\<rparr>)))))" for b
      by (rule forward_ok [OF ci _ lo]) (simp_all add: handled_def nz)
    let ?r = "prefetch_as_load (cfg ?c) \<or> p_type pkt \<noteq> PREFETCH"
    show ?thesis
    proof (cases "lo_occupancy E (if ?r then 1 else 3) (p_address pkt) (c_lower s) = lo_size E (if ?r then 1 else 3) (p_address pkt) (c_lower s)")
      case True
      then show ?thesis unfolding readlike_miss_def Let_def if_not_P [OF n(1)] if_not_P [OF n(2)] if_P [OF True]
        using inv by (simp add: handled_def)
    next
      case False
      show ?thesis
      proof (cases "p_fill_level pkt \<le> fill_level (cfg ?c)")
        case True
        show ?thesis
          unfolding readlike_miss_def Let_def if_not_P [OF n(1)] if_not_P [OF n(2)] if_not_P [OF False] if_P [OF True]
          using here [of True "cache_id (cfg ?c)"] here [of False "cache_id (cfg ?c)"] by simp
      next
        case passed: False
        show ?thesis
          unfolding readlike_miss_def Let_def if_not_P [OF n(1)] if_not_P [OF n(2)] if_not_P [OF False] if_not_P [OF passed]
          using pass [of True] pass [of False] by simp
      qed
    qed
  qed
qed

lemma choose_way_ok:
  assumes "cinv c" "st < sets" "choose_way E st pkt c = (w, d)"
  shows "w < ways" "cinv d" "handled c d" "MSHR d = MSHR c" "cfg d = cfg c"
proof -
  note len = cinv_len [OF assms(1)]
  have l: "length (ways_of c st) = ways" using length_slice set_range [OF assms(2) len(1)] len(2) by simp
  have all: "w < ways \<and> cinv d \<and> handled c d \<and> MSHR d = MSHR c \<and> cfg d = cfg c"
  proof (cases "find_if_not b_valid (ways_of c st) = ways")
    case True
    obtain v bs r where v: "find_victim E (p_cpu pkt) (p_instr_id pkt) st (p_ip pkt) (p_address pkt) (p_type pkt) (block c, repl c) = (v, bs, r)"
      by (cases rule: prod_cases3)
    with True len(2) assms(3) have d: "w = v" "d = c\<lparr>block := bs, repl := r\<rparr>" by (simp_all add: choose_way_def)
    have "repl_inv (block c, repl c)" using assms(1) by (simp add: cinv_def cache_wf_def)
    from victim [OF this len(1) assms(2) len(3) v] have o: "v < ways" "repl_inv (bs, r)" "only_lru (block c) bs" by blast+
    then show ?thesis
      using assms(1) placed_only_lru [OF _ o(3)] only_lruD [OF o(3)]
      by (simp add: d cinv_def cache_wf_def pq_good_def handled_def)
  next
    case False
    then have "find_if_not b_valid (ways_of c st) < ways" using find_if_not_ne_iff l by metis
    with False len(2) assms(1,3) show ?thesis by (auto simp: choose_way_def handled_def)
  qed
  then show "w < ways" "cinv d" "handled c d" "MSHR d = MSHR c" "cfg d = cfg c" by simp_all
qed

lemma fill_block_ok:
  assumes "cinv c" "st = get_set (cfg c) (p_address pkt)" "w < ways" "p_address pkt \<noteq> 0"
  shows "resE err (\<lambda>(pkt', d). cinv d \<and> handled c d \<and> MSHR d = MSHR c) (fill_block E st w pkt c)"
proof -
  note len = cinv_len [OF assms(1)]
  have st: "st < sets" using cinv_set [OF assms(1)] assms(2) by simp
  let ?i = "st * NUM_WAY (cfg c) + w"
  have nb: "w \<noteq> NUM_WAY (cfg c)" using assms(3) len(2) by simp
  have i: "?i < length (block c)" "?i div NUM_WAY (cfg c) = st"
    using index_less [OF st assms(3)] len by simp_all
  define b where "b = c\<lparr>block := (block c)[?i := filled_block (cfg c) pkt (block c ! ?i)]\<rparr>"
  have b: "cinv b" "handled c b" "MSHR b = MSHR c"
    using cinv_block [OF assms(1) i(1), of "filled_block (cfg c) pkt (block c ! ?i)"] i(2) assms(2,4)
    by (simp_all add: b_def filled_block_def handled_def)
  have fill: "resE err (\<lambda>(pkt', d). cinv d \<and> handled c d \<and> MSHR d = MSHR c)
      (bindE (prefetcher_cache_fill E a st w pf ev m (e\<lparr>c_cpu := p_cpu pkt\<rparr>)) (\<lambda>(meta, d).
        Inr (pkt\<lparr>p_pf_metadata := meta\<rparr>, count_miss pkt (apply_update E pkt st w (p_address pkt) False d))))"
    if e: "cinv e" "handled c e" "MSHR e = MSHR c" for a pf ev m e
  proof (rule resE_bind [OF fill_frame], goal_cases)
    case 1
    show ?case using e(1) by (simp add: cinv_def cache_wf_def pq_good_def)
  next
    case (2 x)
    then obtain meta d where x: "x = (meta, d)" and d: "cinv d" "handled e d" "MSHR d = MSHR e"
      using cinv_frame [OF e(1)] by (cases x) auto
    note u = apply_update_ok [OF d(1) st assms(3), of pkt "p_address pkt" False]
    show ?case
      using u handled_trans [OF e(2) handled_trans [OF d(2) u(2)]] d(3) e(3) by (simp add: x count_miss_def)
  qed
  show ?thesis
    unfolding fill_block_def Let_def if_not_P [OF nb] b_def [symmetric]
    by (rule fill) (use b in \<open>simp_all add: upd_stats_def handled_def\<close>)
qed

lemma filllike_miss_ok:
  assumes "sinv s" "st = get_set (cfg (cache s)) (p_address pkt)" "w < ways" "p_address pkt \<noteq> 0"
  shows "resE err (\<lambda>(ok, pkt', t). sinv t \<and> handled (cache s) (cache t) \<and> MSHR (cache t) = MSHR (cache s))
    (filllike_miss E st w pkt s)"
proof -
  note ci = sinvD(1) [OF assms(1)]
  let ?i = "st * NUM_WAY (cfg (cache s)) + w"
  let ?old = "block (cache s) ! ?i"
  have nb: "(w = NUM_WAY (cfg (cache s))) = False" using assms(3) cinv_len(2) [OF ci] by simp
  have f: "resE err (\<lambda>(ok, pkt', t). sinv t \<and> handled (cache s) (cache t) \<and> MSHR (cache t) = MSHR (cache s))
      (bindE (fill_block E st w pkt (cache s)) (\<lambda>(pkt, c). Inr (True, pkt, s\<lparr>c_lower := lw, cache := c\<rparr>)))" if "lo_inv lw" for lw
    by (rule resE_bind [OF fill_block_ok [OF ci assms(2-4)]]) (use that in \<open>auto simp: sinv_def\<close>)
  have "?i < length (block (cache s))"
    using index_less(1) [OF _ assms(3)] cinv_set [OF ci] cinv_len [OF ci] assms(2) by simp
  then have "b_dirty ?old \<longrightarrow> p_address (writeback_packet E pkt ?old) \<noteq> 0"
    using ci by (simp add: cinv_def cache_wf_def placed_def writeback_packet_def)
  then have lo: "resE err (\<lambda>(r, lw'). lo_inv lw') (if has_lower E \<and> b_dirty ?old then lo_add_wq E (writeback_packet E pkt ?old) (c_lower s)
                else Inr (0, c_lower s))"
    using wq_answers sinvD(2) [OF assms(1)] by simp
  show ?thesis
    unfolding filllike_miss_def Let_def nb
    by (simp add: assertE_def split del: if_split, rule resE_bind [OF lo])
      (use f ci in \<open>auto simp: handled_def sinv_def\<close>)
qed

lemma handle_fill_ok: "sinv s \<Longrightarrow> resE err (\<lambda>t. sinv t) (handle_fill E n s)"
proof (induction n arbitrary: s)
  case (Suc n)
  show ?case
  proof (cases "MSHR (cache s)")
    case Nil
    then show ?thesis using Suc.prems by simp
  next
    case (Cons fill rest)
    show ?thesis
    proof (cases "p_event_cycle fill > c_cycle (cache s)")
      case True
      then show ?thesis using Suc.prems Cons by simp
    next
      case False
      let ?st = "get_set (cfg (cache s)) (p_address fill)"
      obtain w c where w: "choose_way E ?st fill (cache s) = (w, c)" by fastforce
      note ci = sinvD(1) [OF Suc.prems]
      note c = choose_way_ok [OF ci cinv_set [OF ci] w]
      have nz: "p_address fill \<noteq> 0" using cinv_mshrD(2) [OF ci] Cons by (simp add: block_distinct_def)
      have next_ok: "resE err (\<lambda>t. sinv t) (handle_fill E n (t\<lparr>cache := (cache t)\<lparr>MSHR := tl (MSHR (cache t)), writes_available := n\<rparr>, outbox := out\<rparr>))"
        if "sinv t" "MSHR (cache t) = MSHR c" for t out
      proof (rule Suc.IH)
        have "block_distinct (OFFSET_BITS (cfg (cache t))) (tl (MSHR (cache t)))" "length (tl (MSHR (cache t))) \<le> MSHR_SIZE (cfg (cache t))"
          using cinv_mshrD [OF sinvD(1) [OF that(1)]] that(2) c(4) Cons by (simp_all add: block_distinct_def)
        from cinv_mshr(1) [OF sinvD(1) [OF that(1)] this(2,1)] sinvD(2) [OF that(1)]
        show "sinv (t\<lparr>cache := (cache t)\<lparr>MSHR := tl (MSHR (cache t)), writes_available := n\<rparr>, outbox := out\<rparr>)" by (simp add: sinv_def)
      qed
      have "resE err (\<lambda>(ok, pkt', t). sinv t \<and> MSHR (cache t) = MSHR c) (filllike_miss E ?st w fill (s\<lparr>cache := c\<rparr>))"
        using filllike_miss_ok [of "s\<lparr>cache := c\<rparr>" ?st fill w] c nz sinvD(2) [OF Suc.prems] by (auto simp: sinv_def elim!: resE_weaken)
      then show ?thesis
        unfolding handle_fill.simps Cons list.case if_not_P [OF False] w Let_def prod.case
        by (rule resE_bind) (use next_ok in auto)
    qed
  qed
qed simp

lemma get_way_valid:
  assumes "cinv c" "st < sets" "get_way a st c < ways"
  shows "b_valid (block c ! (st * NUM_WAY (cfg c) + get_way a st c))"
proof -
  note len = cinv_len [OF assms(1)]
  have l: "st * NUM_WAY (cfg c) + NUM_WAY (cfg c) \<le> length (block c)" using set_range [OF assms(2) len(1)] len(2) by simp
  then have "length (ways_of c st) = ways" using length_slice len(2) by simp
  with assms(3) have w: "get_way a st c < length (ways_of c st)" by simp
  from find_if_nth [OF this [unfolded get_way_def]] have "b_valid (ways_of c st ! get_way a st c)"
    by (simp add: get_way_def eq_addr_def)
  then show ?thesis using nth_slice [OF l] assms(3) len(2) by simp
qed

lemma writeback_hit_ok:
  assumes "cinv c" "st < sets" "w < ways" "b_valid (block c ! (st * NUM_WAY (cfg c) + w))"
  shows "cinv (writeback_hit E st w pkt c)" "handled c (writeback_hit E st w pkt c)"
proof -
  let ?i = "st * NUM_WAY (cfg c) + w"
  define d where "d = count_hit pkt (apply_update E pkt st w (b_address (block c ! ?i)) True c)"
  note u = apply_update_ok [OF assms(1-3), of pkt "b_address (block c ! ?i)" True]
  have d: "cinv d" "handled c d" "only_lru (block c) (block d)" using u by (simp_all add: d_def count_hit_def)
  have i: "?i < length (block d)"
    using index_less(1) [OF assms(2,3)] cinv_len [OF d(1)] cinv_len(2) [OF assms(1)] by simp
  have "b_valid (block d ! ?i)"
    using only_lruD [OF d(3)] i same_but_lruD(1) [of "block c ! ?i" "block d ! ?i"] assms(4) by simp
  with i have "cinv (d\<lparr>block := (block d)[?i := (block d ! ?i)\<lparr>b_dirty := True\<rparr>]\<rparr>)"
    by (intro cinv_same_block [OF d(1)]) simp_all
  then show "cinv (writeback_hit E st w pkt c)" "handled c (writeback_hit E st w pkt c)"
    using d(2) by (simp_all add: writeback_hit_def Let_def d_def [symmetric] handled_def)
qed

lemma cinv_queues:
  assumes "cinv c"
  shows "addressed (RQ c)" "addressed (WQ c)" "addressed (PQ c)" "dq_good (VAPQ c)" "pq_good c"
  using assms by (simp_all add: cinv_def cache_wf_def pq_good_addressed)

lemma cinv_queue_update:
  assumes "cinv c"
  shows "addressed q \<Longrightarrow> cinv (c\<lparr>RQ := q\<rparr>)" "addressed q \<Longrightarrow> cinv (c\<lparr>WQ := q\<rparr>)" "addressed q \<Longrightarrow> cinv (c\<lparr>PQ := q\<rparr>)"
    "dq_good v \<Longrightarrow> cinv (c\<lparr>VAPQ := v\<rparr>)"
  using assms by (simp_all add: cinv_def cache_wf_def pq_good_addressed)

lemma handle_writeback_ok: "sinv s \<Longrightarrow> resE err (\<lambda>t. sinv t) (handle_writeback E n s)"
proof (induction n arbitrary: s)
  case (Suc n)
  show ?case
  proof (cases "dq_has_ready (WQ (cache s))")
    case False
    then show ?thesis using Suc.prems by simp
  next
    case True
    let ?c = "cache s" and ?pkt = "dq_front (WQ (cache s))"
    let ?st = "get_set (cfg ?c) (p_address ?pkt)"
    let ?way = "get_way (p_address ?pkt) ?st ?c"
    note ci = sinvD(1) [OF Suc.prems]
    note st = cinv_set [OF ci, of "p_address ?pkt"]
    note nz = addressed_front(1) [OF cinv_queues(2) [OF ci] True]
    obtain w c where w: "choose_way E ?st ?pkt ?c = (w, c)" by fastforce
    note c = choose_way_ok [OF ci st w]
    have fill: "resE err (\<lambda>(ok, t). sinv t \<and> handled ?c (cache t))
        (bindE (filllike_miss E ?st w ?pkt (s\<lparr>cache := c\<rparr>)) (\<lambda>(ok, _, s). Inr (ok, s)))"
      by (rule resE_bind [OF filllike_miss_ok]) (use c nz sinvD(2) [OF Suc.prems] in \<open>auto simp: sinv_def intro: handled_trans\<close>)
    have access: "resE err (\<lambda>(ok, t). sinv t \<and> handled ?c (cache t))
       (if ?way < NUM_WAY (cfg ?c) then Inr (True, s\<lparr>cache := writeback_hit E ?st ?way ?pkt ?c\<rparr>)
        else if p_type ?pkt = RFO \<and> p_to_return ?pkt = [] then readlike_miss E ?pkt s
        else bindE (filllike_miss E ?st w ?pkt (s\<lparr>cache := c\<rparr>)) (\<lambda>(ok, _, s). Inr (ok, s)))"
      using writeback_hit_ok [OF ci st _ get_way_valid [OF ci st]] cinv_len(2) [OF ci] readlike_miss_ok [OF Suc.prems nz] fill
        sinvD(2) [OF Suc.prems] by (simp add: sinv_def)
    have "handle_writeback E (Suc n) s = bindE
       (if ?way < NUM_WAY (cfg ?c) then Inr (True, s\<lparr>cache := writeback_hit E ?st ?way ?pkt ?c\<rparr>)
        else if p_type ?pkt = RFO \<and> p_to_return ?pkt = [] then readlike_miss E ?pkt s
        else bindE (filllike_miss E ?st w ?pkt (s\<lparr>cache := c\<rparr>)) (\<lambda>(ok, _, s). Inr (ok, s)))
       (\<lambda>(success, s). if \<not> success then Inr s
          else bindE (dq_pop_front (WQ (cache s))) (\<lambda>q.
            handle_writeback E n (s\<lparr>cache := (cache s)\<lparr>WQ := q, writes_available := n\<rparr>\<rparr>)))"
      unfolding handle_writeback.simps using True by (simp only: not_not if_False Let_def w prod.case simp_thms)
    moreover have "resE err (\<lambda>t. sinv t) (bindE (dq_pop_front (WQ (cache t))) (\<lambda>q.
            handle_writeback E n (t\<lparr>cache := (cache t)\<lparr>WQ := q, writes_available := n\<rparr>\<rparr>)))"
      if "sinv t" "handled ?c (cache t)" for t
    proof -
      have "dq_has_ready (WQ (cache t))" using that(2) True by (simp add: handled_def)
      from addressed_front(2) [OF cinv_queues(2) [OF sinvD(1) [OF that(1)]] this] obtain q where
        q: "dq_pop_front (WQ (cache t)) = Inr q" "addressed q" by blast
      then show ?thesis using Suc.IH cinv_queue_update(2) [OF sinvD(1) [OF that(1)] q(2)] sinvD(2) [OF that(1)] by (simp add: sinv_def)
    qed
    ultimately show ?thesis by (simp only:, intro resE_bind [OF access]) auto
  qed
qed simp

lemma read_access_ok:
  assumes "sinv s" "p_address pkt \<noteq> 0"
  shows "resE err (\<lambda>(ok, t). sinv t \<and> handled (cache s) (cache t)) (read_access E pkt s)"
proof -
  note ci = sinvD(1) [OF assms(1)]
  let ?st = "get_set (cfg (cache s)) (p_address pkt)"
  let ?way = "get_way (p_address pkt) ?st (cache s)"
  have "resE err (\<lambda>(ok, t). sinv t \<and> handled (cache s) (cache t)) (bindE (readlike_hit E ?st ?way pkt s) (\<lambda>s. Inr (True, s)))"
    if "?way < ways"
    by (rule resE_bind [OF readlike_hit_ok [OF ci cinv_set [OF ci] that]]) (use sinvD(2) [OF assms(1)] in \<open>simp add: sinv_def\<close>)
  then show ?thesis
    using readlike_miss_ok [OF assms] cinv_len(2) [OF ci] by (simp add: read_access_def Let_def)
qed

lemma handle_read_ok: "sinv s \<Longrightarrow> resE err (\<lambda>t. sinv t) (handle_read E n s)"
proof (induction n arbitrary: s)
  case (Suc n)
  let ?pkt = "dq_front (RQ (cache s))"
  let ?s = "s\<lparr>cache := (cache s)\<lparr>ever_seen_data := ever_seen_data (cache s) \<or> p_v_address ?pkt \<noteq> p_ip ?pkt\<rparr>\<rparr>"
  show ?case
  proof (cases "dq_has_ready (RQ (cache s))")
    case True
    note nz = addressed_front(1) [OF cinv_queues(1) [OF sinvD(1) [OF Suc.prems]] True]
    have pop: "resE err (\<lambda>t. sinv t) (bindE (dq_pop_front (RQ (cache t))) (\<lambda>q.
            handle_read E n (t\<lparr>cache := (cache t)\<lparr>RQ := q, reads_available := n\<rparr>\<rparr>)))"
      if "sinv t" "handled (cache ?s) (cache t)" for t
    proof -
      have "dq_has_ready (RQ (cache t))" using that(2) True by (simp add: handled_def)
      from addressed_front(2) [OF cinv_queues(1) [OF sinvD(1) [OF that(1)]] this] obtain q where
        q: "dq_pop_front (RQ (cache t)) = Inr q" "addressed q" by blast
      then show ?thesis using Suc.IH cinv_queue_update(1) [OF sinvD(1) [OF that(1)] q(2)] sinvD(2) [OF that(1)] by (simp add: sinv_def)
    qed
    have "handle_read E (Suc n) s = bindE (read_access E ?pkt ?s) (\<lambda>(success, s). if \<not> success then Inr s
          else bindE (dq_pop_front (RQ (cache s))) (\<lambda>q. handle_read E n (s\<lparr>cache := (cache s)\<lparr>RQ := q, reads_available := n\<rparr>\<rparr>)))"
      unfolding handle_read.simps using True by (simp only: not_not if_False Let_def simp_thms)
    then show ?thesis
      by (simp only:, intro resE_bind [OF read_access_ok]) (use pop nz Suc.prems in \<open>auto simp: sinv_def\<close>)
  qed (use Suc.prems in simp)
qed simp

lemma handle_prefetch_ok: "sinv s \<Longrightarrow> resE err (\<lambda>t. sinv t) (handle_prefetch E n s)"
proof (induction n arbitrary: s)
  case (Suc n)
  show ?case
  proof (cases "dq_has_ready (PQ (cache s))")
    case True
    note nz = addressed_front(1) [OF cinv_queues(3) [OF sinvD(1) [OF Suc.prems]] True]
    have pop: "resE err (\<lambda>t. sinv t) (bindE (dq_pop_front (PQ (cache t))) (\<lambda>q.
            handle_prefetch E n (t\<lparr>cache := (cache t)\<lparr>PQ := q, reads_available := n\<rparr>\<rparr>)))"
      if "sinv t" "handled (cache s) (cache t)" for t
    proof -
      have "dq_has_ready (PQ (cache t))" using that(2) True by (simp add: handled_def)
      from addressed_front(2) [OF cinv_queues(3) [OF sinvD(1) [OF that(1)]] this] obtain q where
        q: "dq_pop_front (PQ (cache t)) = Inr q" "addressed q" by blast
      then show ?thesis using Suc.IH cinv_queue_update(3) [OF sinvD(1) [OF that(1)] q(2)] sinvD(2) [OF that(1)] by (simp add: sinv_def)
    qed
    show ?thesis
      unfolding handle_prefetch.simps using True
      by (simp only: not_not if_False simp_thms, intro resE_bind [OF read_access_ok [OF Suc.prems nz]]) (use pop in auto)
  qed (use Suc.prems in simp)
qed simp

lemma va_translate_prefetches_ok:
  assumes "sinv s"
  shows "resE err (\<lambda>t. sinv t) (va_translate_prefetches E s)"
proof (cases "dq_has_ready (VAPQ (cache s))")
  case False
  then show ?thesis using assms by (simp add: va_translate_prefetches_def)
next
  case True
  let ?c = "cache s" and ?front = "dq_front (VAPQ (cache s))"
  note ci = sinvD(1) [OF assms] and lo = sinvD(2) [OF assms]
  note v = cinv_queues(4) [OF ci]
  have pos: "0 < length (dq_list (VAPQ ?c))" using dq_good_ready_ne [OF v True] by simp
  have add: "resE err (\<lambda>t. sinv t)
      (bindE (add_pq E (?front\<lparr>p_address := pa\<rparr>) (?c\<lparr>VAPQ := dq_set 0 (?front\<lparr>p_address := pa\<rparr>) (VAPQ ?c)\<rparr>)) (\<lambda>(result, msgs, c).
       bindE (if result \<noteq> - 2 then dq_pop_front (VAPQ c) else Inr (VAPQ c)) (\<lambda>q.
       let c = c\<lparr>VAPQ := q\<rparr>;
           c = (if result > 0 then upd_stats (\<lambda>s. s\<lparr>pf_issued := pf_issued s + 1\<rparr>) c else c)
       in Inr (s\<lparr>cache := c, c_vmem := vm, outbox := outbox s @ msgs\<rparr>))))" for pa vm
  proof -
    let ?q = "dq_set 0 (?front\<lparr>p_address := pa\<rparr>) (VAPQ ?c)"
    note q = dq_good_set [OF v pos, of "?front\<lparr>p_address := pa\<rparr>"]
    have d: "cinv (?c\<lparr>VAPQ := ?q\<rparr>)" by (rule cinv_queue_update(4) [OF ci q(1)])
    have "resE err (\<lambda>(r, msgs, d). cinv d \<and> VAPQ d = ?q) (add_pq E (?front\<lparr>p_address := pa\<rparr>) (?c\<lparr>VAPQ := ?q\<rparr>))"
    proof (rule resE_I)
      fix e
      assume "add_pq E (?front\<lparr>p_address := pa\<rparr>) (?c\<lparr>VAPQ := ?q\<rparr>) = Inl e"
      then show "err e" using add_pq_outcome [OF cinv_queues(5) [OF d], of E "?front\<lparr>p_address := pa\<rparr>"] address_err by simp
    next
      fix x
      assume "add_pq E (?front\<lparr>p_address := pa\<rparr>) (?c\<lparr>VAPQ := ?q\<rparr>) = Inr x"
      then show "case x of (r, msgs, d) \<Rightarrow> cinv d \<and> VAPQ d = ?q"
        using add_pq_outcome [OF cinv_queues(5) [OF d], of E "?front\<lparr>p_address := pa\<rparr>"]
          cinv_frame(1) [OF d, of "c_cpu ?c"] by (cases x) simp
    qed
    moreover have "resE err (\<lambda>t. sinv t) (bindE (if r \<noteq> - 2 then dq_pop_front (VAPQ c) else Inr (VAPQ c)) (\<lambda>q.
       let c = c\<lparr>VAPQ := q\<rparr>; c = (if r > 0 then upd_stats (\<lambda>s. s\<lparr>pf_issued := pf_issued s + 1\<rparr>) c else c)
       in Inr (s\<lparr>cache := c, c_vmem := vm, outbox := outbox s @ msgs\<rparr>)))" if "cinv c" "VAPQ c = ?q" for r msgs c
    proof -
      have ready: "dq_has_ready ?q" using q(2) True by simp
      from dq_pop_front_ok [OF dq_good_wf [OF q(1)] dq_good_ready_ne [OF q(1) ready]] dq_good_pop [OF q(1) ready]
      obtain p where p: "dq_pop_front ?q = Inr p" "dq_good p" by blast
      show ?thesis
        using p that(2) q(1) cinv_queue_update(4) [OF that(1) p(2)] cinv_queue_update(4) [OF that(1) q(1)]
        lo by (auto simp: Let_def sinv_def)
    qed
    ultimately show ?thesis by (elim resE_bind) auto
  qed
  have tr: "resE err (\<lambda>_. True) (va_to_pa (consts_of E) (c_cpu ?c) (p_v_address ?front) (c_vmem s))"
    by (rule resE_I) (simp_all add: translate_err)
  show ?thesis
    unfolding va_translate_prefetches_def Let_def if_P [OF True]
    by (rule resE_bind [OF tr]) (use add in \<open>auto simp: Let_def\<close>)
qed

lemma operate_ok:
  assumes "sinv s"
  shows "resE err (\<lambda>t. sinv t) (operate E s)"
proof -
  have writes: "resE err (\<lambda>t. sinv t) (operate_writes E s)" if "sinv s" for s
    unfolding operate_writes_def Let_def
    by (intro resE_bind [OF handle_fill_ok] resE_bind [OF handle_writeback_ok])
      (use that in \<open>auto simp: sinv_def addressed_operate cinv_queues intro: cinv_queue_update\<close>)
  have reads: "resE err (\<lambda>t. sinv t) (operate_reads E s)" if "sinv s" for s
    unfolding operate_reads_def Let_def
    by (intro resE_bind [OF handle_read_ok] resE_bind [OF va_translate_prefetches_ok] resE_bind [OF handle_prefetch_ok])
      (use that in \<open>auto simp: sinv_def addressed_operate dq_good_operate dq_good_wf cinv_queues intro!: cinv_queue_update\<close>)
  have cyc: "resE err cinv (prefetcher_cycle_operate E c)" if "cinv c" for c
    using cycle_frame [OF cinv_queues(5) [OF that]] cinv_frame(1) [OF that, of "c_cpu c"] by (auto elim!: resE_weaken)
  show ?thesis
    unfolding operate_def by (intro resE_bind [OF writes] resE_bind [OF reads] resE_bind [OF cyc]) (use assms in \<open>auto simp: sinv_def\<close>)
qed

lemma invalidate_ok:
  assumes "cinv c"
  shows "cinv (snd (invalidate_entry a c))"
proof -
  let ?st = "get_set (cfg c) a"
  let ?w = "get_way a ?st c"
  let ?i = "?st * NUM_WAY (cfg c) + ?w"
  note len = cinv_len [OF assms]
  show ?thesis
  proof (cases "?w < NUM_WAY (cfg c)")
    case True
    then have i: "?i < length (block c)" using index_less(1) [OF cinv_set [OF assms]] len by simp
    have "b_dirty (block c ! ?i) \<longrightarrow> b_address (block c ! ?i) \<noteq> 0"
      using assms i by (simp add: cinv_def cache_wf_def placed_def)
    then show ?thesis
      using True cinv_block [OF assms i, of "(block c ! ?i)\<lparr>b_valid := False\<rparr>"] by (simp add: invalidate_entry_def Let_def)
  qed (use assms in \<open>simp add: invalidate_entry_def Let_def\<close>)
qed

lemma exec_ok:
  assumes "sinv s" "call_ok x (cache s)"
  shows "resE err sinv (cache_exec E x s)"
proof (cases x)
  case (Add_RQ p)
  note o = add_rq_outcome [OF cinv_queues(1) [OF sinvD(1) [OF assms(1)]], of p E]
  have "resE err (\<lambda>(r, msgs, d). cinv d) (add_rq E p (cache s))"
  proof (rule resE_I)
    show "err e" if "add_rq E p (cache s) = Inl e" for e using o that address_err by simp
    show "case y of (r, msgs, d) \<Rightarrow> cinv d" if "add_rq E p (cache s) = Inr y" for y
      using o that cinv_queue_update(1) [OF sinvD(1) [OF assms(1)]] by (cases y) auto
  qed
  then show ?thesis
    unfolding Add_RQ cache_exec.simps added_to_def by (rule resE_bind) (use sinvD [OF assms(1)] in \<open>auto simp: sinv_def\<close>)
next
  case (Add_WQ p)
  note o = add_wq_outcome [OF cinv_queues(2) [OF sinvD(1) [OF assms(1)]], of p E]
  have "resE err (\<lambda>(r, msgs, d). cinv d) (add_wq E p (cache s))"
  proof (rule resE_I)
    show "err e" if "add_wq E p (cache s) = Inl e" for e using o that assms(2) Add_WQ by simp
    show "case y of (r, msgs, d) \<Rightarrow> cinv d" if "add_wq E p (cache s) = Inr y" for y
      using o that assms(2) Add_WQ cinv_queue_update(2) [OF sinvD(1) [OF assms(1)]] by (cases y) auto
  qed
  then show ?thesis
    unfolding Add_WQ cache_exec.simps added_to_def by (rule resE_bind) (use sinvD [OF assms(1)] in \<open>auto simp: sinv_def\<close>)
next
  case (Add_PQ p)
  note ci = sinvD(1) [OF assms(1)]
  note o = add_pq_outcome [OF cinv_queues(5) [OF ci], of E p]
  have "resE err (\<lambda>(r, msgs, d). cinv d) (add_pq E p (cache s))"
  proof (rule resE_I)
    show "err e" if "add_pq E p (cache s) = Inl e" for e using o that address_err by simp
    show "case y of (r, msgs, d) \<Rightarrow> cinv d" if "add_pq E p (cache s) = Inr y" for y
      using o that cinv_frame(1) [OF ci, of "c_cpu (cache s)"] by (cases y) simp
  qed
  then show ?thesis
    unfolding Add_PQ cache_exec.simps added_to_def by (rule resE_bind) (use sinvD [OF assms(1)] in \<open>auto simp: sinv_def\<close>)
next
  case (Return_data p)
  note ci = sinvD(1) [OF assms(1)]
  from assms(2) obtain k where k: "k < length (MSHR (cache s))" "eq_addr_PACKET (p_address p) (OFFSET_BITS (cfg (cache s))) (MSHR (cache s) ! k)"
      "p_event_cycle (MSHR (cache s) ! k) = - 1"
    by (auto simp: Return_data outstanding_def in_set_conv_nth)
  from return_data_ok [OF k cinv_mshrD(2) [OF ci], of E] obtain m where
    m: "return_data E p (cache s) = Inr ((cache s)\<lparr>MSHR := m\<rparr>)" "length m = length (MSHR (cache s))" "block_distinct (OFFSET_BITS (cfg (cache s))) m"
    by blast
  show ?thesis
    using cinv_mshr(1) [OF ci _ m(3)] m(1,2) cinv_mshrD(1) [OF ci] sinvD(2) [OF assms(1)] by (simp add: Return_data sinv_def)
next
  case (Invalidate a)
  then show ?thesis using invalidate_ok sinvD [OF assms(1)] by (simp add: sinv_def)
next
  case Cycle
  have "cinv (c\<lparr>c_cycle := n\<rparr>)" if "cinv c" for c n using that by (simp add: cinv_def cache_wf_def pq_good_def)
  then show ?thesis
    unfolding Cycle cache_exec.simps by (intro resE_bind [OF operate_ok [OF assms(1)]]) (simp add: sinv_def)
qed

lemma cache_run_ok:
  assumes "sinv s" "calls_ok E xs s"
  shows "resE err sinv (cache_run E xs s)"
  using assms
proof (induction xs arbitrary: s)
  case (Cons x xs)
  show ?case
  proof (cases "cache_exec E x s")
    case (Inl e)
    then show ?thesis using exec_ok [OF Cons.prems(1), of x] Cons.prems(2) by simp
  next
    case (Inr t)
    then show ?thesis using exec_ok [OF Cons.prems(1), of x] Cons by (simp del: cache_exec.simps)
  qed
qed simp

end

section \<open>A new cache\<close>

lemma cache_wf_new:
  assumes "cfg_wf cf" "rinv (replicate (NUM_SET cf * NUM_WAY cf) BLOCK_new, s)"
  shows "cache_wf rinv (CACHE_new pkt cf cpu wq_size rq_size pq_size hit_lat s p)"
proof -
  have "addressed (dq_new pkt n l)" for n l
    using dq_good_new [of pkt n l] by (simp add: addressed_def dq_list_def dq_new_def)
  moreover have "placed cf (replicate (NUM_SET cf * NUM_WAY cf) BLOCK_new)"
    by (simp add: placed_def BLOCK_new_def)
  ultimately show ?thesis
    using assms by (simp add: cache_wf_def CACHE_new_def pq_good_addressed dq_good_new block_distinct_def)
qed

end
