(* ===== verification/Prefetchers.thy ===== *)
theory Prefetchers
  imports CacheInvariant
begin

text \<open>
  The prefetchers of \<open>prefetcher/no\<close>, \<open>prefetcher/next_line\<close> and
  \<open>prefetcher/ip_stride\<close>, and that each keeps to the contract a cache relies
  on: it changes nothing of the cache but its own state, the prefetch queues and
  the statistics.  The maps of \<open>ip_stride\<close> from caches to their state are the
  field \<open>pref\<close> of the cache.
\<close>

section \<open>No prefetching\<close>

definition no_cache_operate :: "u64 \<Rightarrow> u64 \<Rightarrow> bool \<Rightarrow> nat \<Rightarrow> u32 \<Rightarrow> ('s, 'p) cache_op" where
  "no_cache_operate addr ip cache_hit type metadata_in c = Inr (metadata_in, c)"

definition no_cache_fill :: "u64 \<Rightarrow> nat \<Rightarrow> nat \<Rightarrow> bool \<Rightarrow> u64 \<Rightarrow> u32 \<Rightarrow> ('s, 'p) cache_op" where
  "no_cache_fill addr st way prefetch evicted_addr metadata_in c = Inr (metadata_in, c)"

definition no_cycle_operate :: "('s, 'p) CACHE \<Rightarrow> ('s, 'p) CACHE result" where
  "no_cycle_operate c = Inr c"

section \<open>Next line\<close>

definition next_line_cache_operate ::
  "('s, 'p, 'w) cache_env \<Rightarrow> u64 \<Rightarrow> u64 \<Rightarrow> bool \<Rightarrow> nat \<Rightarrow> u32 \<Rightarrow> ('s, 'p) cache_op" where
  "next_line_cache_operate E addr ip cache_hit type metadata_in c =
     (let pf_addr = addr + push_bit (LOG2_BLOCK_SIZE (consts_of E)) 1
      in bindE (prefetch_line E pf_addr True 0 c) (\<lambda>(_, c). Inr (metadata_in, c)))"

section \<open>Strides of an instruction\<close>

abbreviation (input) PREFETCH_DEGREE :: int where "PREFETCH_DEGREE \<equiv> 3"
abbreviation (input) TRACKER_SETS :: nat where "TRACKER_SETS \<equiv> 256"
abbreviation (input) TRACKER_WAYS :: nat where "TRACKER_WAYS \<equiv> 4"

text \<open>The strides are of type \<open>int64_t\<close>, represented by their bits.\<close>

record tracker_entry =
  te_ip :: u64
  last_cl_addr :: u64
  last_stride :: u64
  last_used_cycle :: u64

record lookahead_entry =
  la_address :: u64
  la_stride :: u64
  la_degree :: int

record ip_stride =
  lookahead :: lookahead_entry
  trackers :: "tracker_entry list"

definition lookahead_new :: lookahead_entry where
  "lookahead_new = \<lparr>la_address = 0, la_stride = 0, la_degree = 0\<rparr>"

definition ip_stride_new :: ip_stride where
  "ip_stride_new =
     \<lparr>lookahead = lookahead_new,
      trackers = replicate (TRACKER_SETS * TRACKER_WAYS) \<lparr>te_ip = 0, last_cl_addr = 0, last_stride = 0, last_used_cycle = 0\<rparr>\<rparr>"

definition ip_stride_cycle_operate ::
  "('s, ip_stride, 'w) cache_env \<Rightarrow> ('s, ip_stride) CACHE \<Rightarrow> ('s, ip_stride) CACHE result" where
  "ip_stride_cycle_operate E c =
     (let la = lookahead (pref c); old_pf_address = la_address la; stride = la_stride la; degree = la_degree la
      in if degree > 0 then
           let pf_address = old_pf_address + push_bit (LOG2_BLOCK_SIZE (consts_of E)) stride
           in if virtual_prefetch (cfg c) \<or>
                drop_bit (LOG2_PAGE_SIZE (consts_of E)) pf_address = drop_bit (LOG2_PAGE_SIZE (consts_of E)) old_pf_address
              then
                bindE (prefetch_line E pf_address (get_occupancy 0 pf_address c < get_size 0 pf_address c div 2) 0 c)
                  (\<lambda>(success, c).
                     Inr (if success \<noteq> 0
                          then c\<lparr>pref := (pref c)\<lparr>lookahead := \<lparr>la_address = pf_address, la_stride = stride, la_degree = degree - 1\<rparr>\<rparr>\<rparr>
                          else c))
              else Inr (c\<lparr>pref := (pref c)\<lparr>lookahead := lookahead_new\<rparr>\<rparr>)
         else Inr c)"

definition ip_stride_cache_operate ::
  "('s, ip_stride, 'w) cache_env \<Rightarrow> u64 \<Rightarrow> u64 \<Rightarrow> bool \<Rightarrow> nat \<Rightarrow> u32 \<Rightarrow> ('s, ip_stride) cache_op" where
  "ip_stride_cache_operate E addr ip cache_hit type metadata_in c =
     (let p = pref c; cl_addr = drop_bit (LOG2_BLOCK_SIZE (consts_of E)) addr;
          set_begin = unat (ip mod of_nat TRACKER_SETS);
          ways = slice set_begin TRACKER_WAYS (trackers p);
          found = find_if (\<lambda>x. te_ip x = ip) ways;
          hit = (found \<noteq> TRACKER_WAYS);
          stride = (if hit then cl_addr - last_cl_addr (ways ! found) else 0);
          p = (if hit \<and> stride \<noteq> 0 \<and> stride = last_stride (ways ! found)
               then p\<lparr>lookahead := \<lparr>la_address = cl_addr, la_stride = stride, la_degree = PREFETCH_DEGREE\<rparr>\<rparr> else p);
          found = (if hit then found else min_element (\<lambda>x y. last_used_cycle x < last_used_cycle y) ways);
          p = p\<lparr>trackers := (trackers p)[set_begin + found :=
                 \<lparr>te_ip = ip, last_cl_addr = cl_addr, last_stride = stride, last_used_cycle = c_cycle c\<rparr>]\<rparr>
      in Inr (metadata_in, c\<lparr>pref := p\<rparr>))"

section \<open>Contracts\<close>

text \<open>The errors a prefetcher can meet: \<open>add_pq\<close> refuses address 0.\<close>

lemma next_line_frame:
  assumes "pq_good c" "err (AssertFailed ''packet->address != 0'')"
  shows "resE err (\<lambda>(m', d). pf_frame c d) (next_line_cache_operate E a ip h t m c)"
  unfolding next_line_cache_operate_def Let_def
proof (rule resE_bind [where P = "\<lambda>(r, d). pf_frame c d"])
  show "resE err (\<lambda>(r, d). pf_frame c d) (prefetch_line E (a + push_bit (LOG2_BLOCK_SIZE (consts_of E)) 1) True 0 c)"
    using prefetch_line_outcome [OF assms(1), of E "a + push_bit (LOG2_BLOCK_SIZE (consts_of E)) 1" True 0] assms(2)
    by (auto simp: resE_def split: sum.splits)
qed auto

lemma ip_stride_operate_frame: "resE err (\<lambda>(m', d). pf_frame c d) (ip_stride_cache_operate E a ip h t m c)"
  by (simp add: ip_stride_cache_operate_def Let_def)

lemma ip_stride_cycle_frame:
  assumes "pq_good c" "err (AssertFailed ''packet->address != 0'')"
  shows "resE err (pf_frame c) (ip_stride_cycle_operate E c)"
proof -
  have pf: "resE err (\<lambda>(r, d). pf_frame c d) (prefetch_line E a here m c)" for a here m
    using prefetch_line_outcome [OF assms(1), of E a here m] assms(2) by (auto simp: resE_def split: sum.splits)
  have set: "pf_frame c (d\<lparr>pref := p\<rparr>)" if "pf_frame c d" for d p
    using pf_frame_trans [OF that pf_frame_stats(3)] .
  show ?thesis
    unfolding ip_stride_cycle_operate_def Let_def
    by (auto intro!: resE_bind [OF pf] set)
qed

section \<open>Properties\<close>

text \<open>
  C22: An instruction that repeats its stride starts a lookahead, and with
  virtual prefetching the next cycle queues its first prefetch.  The address
  prefetched is the number of the accessed line plus the stride in bytes, not
  the accessed address plus the stride: the lookahead is started from the line
  number but advanced as an address.
\<close>

theorem ip_stride_prefetches_from_line_number:
  fixes E :: "('s, ip_stride, 'w) cache_env" and c :: "('s, ip_stride) CACHE"
  assumes "line = drop_bit (LOG2_BLOCK_SIZE (consts_of E)) a"
    and "find_if (\<lambda>x. te_ip x = ip) (slice (unat (ip mod 256)) 4 (trackers (pref c))) = j" "j < 4"
    and "t = slice (unat (ip mod 256)) 4 (trackers (pref c)) ! j" "last_stride t = line - last_cl_addr t" "line \<noteq> last_cl_addr t"
    and "virtual_prefetch (cfg c)" "dq_wf (VAPQ c)" "length (dq_list (VAPQ c)) < dq_size (VAPQ c)"
  shows "\<exists>d e q. ip_stride_cache_operate E a ip hit ty m c = Inr (m, d) \<and> ip_stride_cycle_operate E d = Inr e
    \<and> dq_list (VAPQ e) = dq_list (VAPQ c) @ [q]
    \<and> p_v_address q = line + push_bit (LOG2_BLOCK_SIZE (consts_of E)) (line - last_cl_addr t)
    \<and> la_address (lookahead (pref e)) = p_v_address q \<and> la_degree (lookahead (pref e)) = 2"
proof -
  let ?i = "unat (ip mod 256)" and ?s = "line - last_cl_addr t"
  let ?la = "\<lparr>la_address = line, la_stride = ?s, la_degree = 3\<rparr>"
  let ?d = "c\<lparr>pref := (pref c)\<lparr>lookahead := ?la, trackers := (trackers (pref c))[?i + j :=
       \<lparr>te_ip = ip, last_cl_addr = line, last_stride = ?s, last_used_cycle = c_cycle c\<rparr>]\<rparr>\<rparr>"
  have d: "ip_stride_cache_operate E a ip hit ty m c = Inr (m, ?d)"
    using assms(1-6) by (simp add: ip_stride_cache_operate_def Let_def)
  let ?a = "line + push_bit (LOG2_BLOCK_SIZE (consts_of E)) ?s"
  let ?u = "upd_stats (\<lambda>s. s\<lparr>pf_requested := pf_requested s + 1\<rparr>) ?d"
  let ?here = "get_occupancy 0 ?a ?d < get_size 0 ?a ?d div 2"
  define q where "q = (PACKET_new (consts_of E) (uninit_metadata E))
            \<lparr>p_type := PREFETCH, p_fill_level := (if ?here then fill_level (cfg ?u) else lo_fill_level E),
             p_pf_origin_level := fill_level (cfg ?u), p_pf_metadata := 0, p_cpu := c_cpu ?u, p_address := ?a,
             p_v_address := (if virtual_prefetch (cfg ?u) then ?a else 0)\<rparr>"
  from dqq.enq_ok [OF assms(8,9), of q] obtain r where r: "dq_push_back q (VAPQ c) = Inr r" "dq_list r = dq_list (VAPQ c) @ [q]"
    by blast
  have "\<not> dq_full (VAPQ c)" using assms(9) by (simp add: dq_full_list)
  then have pl: "prefetch_line E ?a ?here 0 ?d = Inr (1, ?u\<lparr>VAPQ := r\<rparr>)"
    unfolding prefetch_line_def Let_def q_def [symmetric] using assms(7) r(1) by (simp add: upd_stats_def)
  have "ip_stride_cycle_operate E ?d = Inr (?u\<lparr>VAPQ := r, pref := (pref ?u)\<lparr>lookahead := \<lparr>la_address = ?a, la_stride = ?s, la_degree = 2\<rparr>\<rparr>\<rparr>)"
    using assms(7) pl by (simp add: ip_stride_cycle_operate_def Let_def)
  moreover have "p_v_address q = ?a" using assms(7) by (simp add: q_def upd_stats_def)
  ultimately show ?thesis
    by (intro exI [of _ ?d] exI [of _ "?u\<lparr>VAPQ := r, pref := (pref ?u)\<lparr>lookahead := \<lparr>la_address = ?a, la_stride = ?s, la_degree = 2\<rparr>\<rparr>\<rparr>"]
          exI [of _ q]) (simp add: d r(2))
qed

end
