(* ===== verification/Dram.thy ===== *)
theory Dram
  imports Memory Operable
begin

text \<open>
  The memory controller of \<open>inc/dram_controller.h\<close> and
  \<open>src/dram_controller.cc\<close>: channels with a read and a write queue, banks with
  an open row, and a data bus.  An iterator into a queue is the name of the
  queue and an index; \<open>active_request\<close> is an index into the banks, their
  number for the end iterator.  Calls of \<open>return_data\<close> are recorded in order.
  The timing parameters, \<open>float\<close> in the source, are rational numbers.
\<close>

section \<open>Parameters\<close>

record dram_params =
  build :: constants
  tRP_DRAM_NANOSECONDS :: rat
  tRCD_DRAM_NANOSECONDS :: rat
  tCAS_DRAM_NANOSECONDS :: rat
  DBUS_TURN_AROUND_NANOSECONDS :: rat
  DRAM_IO_FREQ :: rat

definition ceil_float :: "rat \<Rightarrow> int" where
  "ceil_float num =
     (let t = (if 0 \<le> num then \<lfloor>num\<rfloor> else \<lceil>num\<rceil>)
      in if of_int t = num then t else t + (if 0 < num then 1 else 0))"

definition tRP :: "dram_params \<Rightarrow> u64" where
  "tRP P = of_int (ceil_float (1 * tRP_DRAM_NANOSECONDS P * DRAM_IO_FREQ P / 1000))"

definition tRCD :: "dram_params \<Rightarrow> u64" where
  "tRCD P = of_int (ceil_float (1 * tRCD_DRAM_NANOSECONDS P * DRAM_IO_FREQ P / 1000))"

definition tCAS :: "dram_params \<Rightarrow> u64" where
  "tCAS P = of_int (ceil_float (1 * tCAS_DRAM_NANOSECONDS P * DRAM_IO_FREQ P / 1000))"

definition DRAM_DBUS_TURN_AROUND_TIME :: "dram_params \<Rightarrow> u64" where
  "DRAM_DBUS_TURN_AROUND_TIME P = of_int (ceil_float (1 * DBUS_TURN_AROUND_NANOSECONDS P * DRAM_IO_FREQ P / 1000))"

definition DRAM_DBUS_RETURN_TIME :: "dram_params \<Rightarrow> u64" where
  "DRAM_DBUS_RETURN_TIME P = of_int (ceil_float (1 * of_nat (BLOCK_SIZE (build P)) / of_nat (DRAM_CHANNEL_WIDTH (build P))))"

definition DRAM_WRITE_HIGH_WM :: "constants \<Rightarrow> nat" where
  "DRAM_WRITE_HIGH_WM c = drop_bit 3 (DRAM_WQ_SIZE c * 7)"

definition DRAM_WRITE_LOW_WM :: "constants \<Rightarrow> nat" where
  "DRAM_WRITE_LOW_WM c = drop_bit 3 (DRAM_WQ_SIZE c * 6)"

section \<open>State\<close>

datatype queue_it = NoPacket | InRQ nat | InWQ nat

record BANK_REQUEST =
  bk_valid :: bool
  bk_row_buffer_hit :: bool
  bk_open_row :: u64
  bk_event_cycle :: u64
  bk_pkt :: queue_it

definition BANK_REQUEST_new :: BANK_REQUEST where
  "BANK_REQUEST_new =
     \<lparr>bk_valid = False, bk_row_buffer_hit = False, bk_open_row = 0xFFFFFFFF, bk_event_cycle = 0, bk_pkt = NoPacket\<rparr>"

record DRAM_CHANNEL =
  ch_WQ :: "PACKET list"
  ch_RQ :: "PACKET list"
  bank_request :: "BANK_REQUEST list"
  active_request :: nat
  dbus_cycle_available :: u64
  dbus_cycle_congested :: u64
  dbus_count_congested :: u64
  write_mode :: bool
  WQ_ROW_BUFFER_HIT :: u32
  WQ_ROW_BUFFER_MISS :: u32
  RQ_ROW_BUFFER_HIT :: u32
  RQ_ROW_BUFFER_MISS :: u32
  ch_WQ_FULL :: u32

definition DRAM_CHANNEL_new :: "constants \<Rightarrow> DRAM_CHANNEL" where
  "DRAM_CHANNEL_new c =
     \<lparr>ch_WQ = replicate (DRAM_WQ_SIZE c) (PACKET_new c 0), ch_RQ = replicate (DRAM_RQ_SIZE c) (PACKET_new c 0),
      bank_request = replicate (DRAM_RANKS c * DRAM_BANKS c) BANK_REQUEST_new,
      active_request = DRAM_RANKS c * DRAM_BANKS c, dbus_cycle_available = 0, dbus_cycle_congested = 0,
      dbus_count_congested = 0, write_mode = False, WQ_ROW_BUFFER_HIT = 0, WQ_ROW_BUFFER_MISS = 0,
      RQ_ROW_BUFFER_HIT = 0, RQ_ROW_BUFFER_MISS = 0, ch_WQ_FULL = 0\<rparr>"

record MEMORY_CONTROLLER =
  channels :: "DRAM_CHANNEL list"
  mc_cycle :: u64

definition MEMORY_CONTROLLER_new :: "constants \<Rightarrow> MEMORY_CONTROLLER" where
  "MEMORY_CONTROLLER_new c = \<lparr>channels = replicate (DRAM_CHANNELS c) (DRAM_CHANNEL_new c), mc_cycle = 0\<rparr>"

section \<open>Address mapping\<close>

definition dram_get_channel :: "constants \<Rightarrow> u64 \<Rightarrow> u32" where
  "dram_get_channel c address =
     ucast (drop_bit (LOG2_BLOCK_SIZE c) address AND bitmask (lg2 (DRAM_CHANNELS c)) 0)"

definition dram_get_bank :: "constants \<Rightarrow> u64 \<Rightarrow> u32" where
  "dram_get_bank c address =
     ucast (drop_bit (lg2 (DRAM_CHANNELS c) + LOG2_BLOCK_SIZE c) address AND bitmask (lg2 (DRAM_BANKS c)) 0)"

definition dram_get_column :: "constants \<Rightarrow> u64 \<Rightarrow> u32" where
  "dram_get_column c address =
     ucast (drop_bit (lg2 (DRAM_BANKS c) + lg2 (DRAM_CHANNELS c) + LOG2_BLOCK_SIZE c) address
            AND bitmask (lg2 (DRAM_COLUMNS c)) 0)"

definition dram_get_rank :: "constants \<Rightarrow> u64 \<Rightarrow> u32" where
  "dram_get_rank c address =
     ucast (drop_bit (lg2 (DRAM_BANKS c) + lg2 (DRAM_COLUMNS c) + lg2 (DRAM_CHANNELS c) + LOG2_BLOCK_SIZE c) address
            AND bitmask (lg2 (DRAM_RANKS c)) 0)"

definition dram_get_row :: "constants \<Rightarrow> u64 \<Rightarrow> u32" where
  "dram_get_row c address =
     ucast (drop_bit (lg2 (DRAM_RANKS c) + lg2 (DRAM_BANKS c) + lg2 (DRAM_COLUMNS c) + lg2 (DRAM_CHANNELS c)
              + LOG2_BLOCK_SIZE c) address AND bitmask (lg2 (DRAM_ROWS c)) 0)"

definition op_idx :: "constants \<Rightarrow> u64 \<Rightarrow> nat" where
  "op_idx c address = unat (dram_get_rank c address) * DRAM_BANKS c + unat (dram_get_bank c address)"

section \<open>Operation of a channel\<close>

definition is_unscheduled :: "PACKET \<Rightarrow> bool" where
  "is_unscheduled lhs \<longleftrightarrow> \<not> p_scheduled lhs"

definition next_schedule :: "PACKET \<Rightarrow> PACKET \<Rightarrow> bool" where
  "next_schedule = invalid_is_maximal is_unscheduled is_unscheduled (min_event_cycle is_valid_PACKET p_event_cycle)"

text \<open>Reading and writing through an iterator into a queue.\<close>

fun pkt_at :: "DRAM_CHANNEL \<Rightarrow> queue_it \<Rightarrow> PACKET result" where
  "pkt_at ch NoPacket = Inl (Undefined ''singular iterator'')"
| "pkt_at ch (InRQ i) = (if i < length (ch_RQ ch) then Inr (ch_RQ ch ! i) else Inl (Undefined ''RQ''))"
| "pkt_at ch (InWQ i) = (if i < length (ch_WQ ch) then Inr (ch_WQ ch ! i) else Inl (Undefined ''WQ''))"

fun set_pkt :: "queue_it \<Rightarrow> PACKET \<Rightarrow> DRAM_CHANNEL \<Rightarrow> DRAM_CHANNEL" where
  "set_pkt NoPacket p ch = ch"
| "set_pkt (InRQ i) p ch = ch\<lparr>ch_RQ := (ch_RQ ch)[i := p]\<rparr>"
| "set_pkt (InWQ i) p ch = ch\<lparr>ch_WQ := (ch_WQ ch)[i := p]\<rparr>"

definition set_bank :: "nat \<Rightarrow> BANK_REQUEST \<Rightarrow> DRAM_CHANNEL \<Rightarrow> DRAM_CHANNEL" where
  "set_bank i b ch = ch\<lparr>bank_request := (bank_request ch)[i := b]\<rparr>"

abbreviation idle_bus :: "DRAM_CHANNEL \<Rightarrow> bool" where
  "idle_bus ch \<equiv> active_request ch = length (bank_request ch)"

abbreviation active_bank :: "DRAM_CHANNEL \<Rightarrow> BANK_REQUEST" where
  "active_bank ch \<equiv> bank_request ch ! active_request ch"

definition finish_request :: "constants \<Rightarrow> u64 \<Rightarrow> DRAM_CHANNEL \<Rightarrow> ((nat \<times> PACKET) list \<times> DRAM_CHANNEL) result" where
  "finish_request c cycle ch =
     (if \<not> idle_bus ch \<and> bk_event_cycle (active_bank ch) \<le> cycle then
        let b = active_bank ch in
        bindE (pkt_at ch (bk_pkt b)) (\<lambda>p.
          let ch = set_bank (active_request ch) (b\<lparr>bk_valid := False\<rparr>) ch;
              ch = set_pkt (bk_pkt b) (PACKET_new c 0) ch
          in Inr (map (\<lambda>ret. (ret, p)) (p_to_return p), ch\<lparr>active_request := length (bank_request ch)\<rparr>))
      else Inr ([], ch))"

definition unbalanced :: "constants \<Rightarrow> DRAM_CHANNEL \<Rightarrow> bool" where
  "unbalanced c ch \<longleftrightarrow>
     (let wq_occu = count_if is_valid_PACKET (ch_WQ ch); rq_occu = count_if is_valid_PACKET (ch_RQ ch) in
      (\<not> write_mode ch \<and> (DRAM_WRITE_HIGH_WM c \<le> wq_occu \<or> (rq_occu = 0 \<and> 0 < wq_occu)))
      \<or> (write_mode ch \<and> (wq_occu = 0 \<or> (0 < rq_occu \<and> wq_occu < DRAM_WRITE_LOW_WM c))))"

definition reset_bank :: "dram_params \<Rightarrow> u64 \<Rightarrow> nat \<Rightarrow> DRAM_CHANNEL \<Rightarrow> DRAM_CHANNEL result" where
  "reset_bank P cycle i ch =
     (let b = bank_request ch ! i in
      if i \<noteq> active_request ch \<and> bk_valid b then
        bindE (pkt_at ch (bk_pkt b)) (\<lambda>p.
          let b' = b\<lparr>bk_open_row := (if bk_event_cycle b < cycle + tCAS P then 0xFFFFFFFF else bk_open_row b),
                     bk_valid := False\<rparr>
          in Inr (set_pkt (bk_pkt b) (p\<lparr>p_scheduled := False, p_event_cycle := cycle\<rparr>) (set_bank i b' ch)))
      else Inr ch)"

definition change_mode :: "dram_params \<Rightarrow> u64 \<Rightarrow> DRAM_CHANNEL \<Rightarrow> DRAM_CHANNEL result" where
  "change_mode P cycle ch =
     (if unbalanced (build P) ch then
        bindE (foldE (reset_bank P cycle) [0..<length (bank_request ch)] ch) (\<lambda>ch.
          Inr (ch\<lparr>dbus_cycle_available :=
                    (if \<not> idle_bus ch then bk_event_cycle (active_bank ch) + DRAM_DBUS_TURN_AROUND_TIME P
                     else cycle + DRAM_DBUS_TURN_AROUND_TIME P),
                  write_mode := \<not> write_mode ch\<rparr>))
      else Inr ch)"

definition count_row_buffer :: "bool \<Rightarrow> DRAM_CHANNEL \<Rightarrow> DRAM_CHANNEL" where
  "count_row_buffer hit ch =
     (if hit then
        if write_mode ch then ch\<lparr>WQ_ROW_BUFFER_HIT := WQ_ROW_BUFFER_HIT ch + 1\<rparr>
        else ch\<lparr>RQ_ROW_BUFFER_HIT := RQ_ROW_BUFFER_HIT ch + 1\<rparr>
      else if write_mode ch then ch\<lparr>WQ_ROW_BUFFER_MISS := WQ_ROW_BUFFER_MISS ch + 1\<rparr>
      else ch\<lparr>RQ_ROW_BUFFER_MISS := RQ_ROW_BUFFER_MISS ch + 1\<rparr>)"

definition process_bus :: "dram_params \<Rightarrow> u64 \<Rightarrow> DRAM_CHANNEL \<Rightarrow> DRAM_CHANNEL result" where
  "process_bus P cycle ch =
     (if bank_request ch = [] then Inl (Undefined ''min_element of an empty array'')
      else
        let i = min_element (min_event_cycle bk_valid bk_event_cycle) (bank_request ch); b = bank_request ch ! i in
        if bk_valid b \<and> bk_event_cycle b \<le> cycle then
          if idle_bus ch \<and> dbus_cycle_available ch \<le> cycle then
            Inr (count_row_buffer (bk_row_buffer_hit b)
                   (set_bank i (b\<lparr>bk_event_cycle := cycle + DRAM_DBUS_RETURN_TIME P\<rparr>) (ch\<lparr>active_request := i\<rparr>)))
          else
            Inr (ch\<lparr>dbus_cycle_congested := dbus_cycle_congested ch
                       + ((if \<not> idle_bus ch then bk_event_cycle (active_bank ch) else dbus_cycle_available ch) - cycle),
                    dbus_count_congested := dbus_count_congested ch + 1\<rparr>)
        else Inr ch)"

definition schedule_next :: "dram_params \<Rightarrow> u64 \<Rightarrow> DRAM_CHANNEL \<Rightarrow> DRAM_CHANNEL result" where
  "schedule_next P cycle ch =
     (let c = build P;
          q = (if write_mode ch then ch_WQ ch else ch_RQ ch);
          k = min_element next_schedule q;
          it = (if write_mode ch then InWQ k else InRQ k)
      in if q = [] then Inl (Undefined ''min_element of an empty queue'')
         else
           let p = q ! k; i = op_idx c (p_address p); op_row = ucast (dram_get_row c (p_address p)) in
           if is_valid_PACKET p \<and> p_event_cycle p \<le> cycle then
             if i < length (bank_request ch) then
               let b = bank_request ch ! i; row_buffer_hit = (bk_open_row b = op_row) in
               if \<not> bk_valid b then
                 Inr (set_pkt it (p\<lparr>p_scheduled := True, p_event_cycle := - 1\<rparr>)
                        (set_bank i \<lparr>bk_valid = True, bk_row_buffer_hit = row_buffer_hit, bk_open_row = op_row,
                                     bk_event_cycle = cycle + tCAS P + (if row_buffer_hit then 0 else tRP P + tRCD P),
                                     bk_pkt = it\<rparr> ch))
               else Inr ch
             else Inl (Undefined ''bank_request'')
           else Inr ch)"

definition operate_channel :: "dram_params \<Rightarrow> u64 \<Rightarrow> DRAM_CHANNEL \<Rightarrow> ((nat \<times> PACKET) list \<times> DRAM_CHANNEL) result" where
  "operate_channel P cycle ch =
     bindE (finish_request (build P) cycle ch) (\<lambda>(out, ch).
     bindE (change_mode P cycle ch) (\<lambda>ch.
     bindE (process_bus P cycle ch) (\<lambda>ch.
     bindE (schedule_next P cycle ch) (\<lambda>ch. Inr (out, ch)))))"

fun operate_channels :: "dram_params \<Rightarrow> u64 \<Rightarrow> DRAM_CHANNEL list \<Rightarrow> ((nat \<times> PACKET) list \<times> DRAM_CHANNEL list) result" where
  "operate_channels P cycle [] = Inr ([], [])"
| "operate_channels P cycle (ch # chs) =
     bindE (operate_channel P cycle ch) (\<lambda>(out, ch).
     bindE (operate_channels P cycle chs) (\<lambda>(outs, chs). Inr (out @ outs, ch # chs)))"

definition mc_operate :: "dram_params \<Rightarrow> MEMORY_CONTROLLER \<Rightarrow> ((nat \<times> PACKET) list \<times> MEMORY_CONTROLLER) result" where
  "mc_operate P m =
     bindE (operate_channels P (mc_cycle m) (channels m)) (\<lambda>(out, chs). Inr (out, m\<lparr>channels := chs\<rparr>))"

section \<open>Requests\<close>

definition mc_get_occupancy :: "constants \<Rightarrow> nat \<Rightarrow> u64 \<Rightarrow> MEMORY_CONTROLLER \<Rightarrow> nat" where
  "mc_get_occupancy c queue_type address m =
     (let ch = channels m ! unat (dram_get_channel c address) in
      if queue_type = 1 \<or> queue_type = 3 then count_if is_valid_PACKET (ch_RQ ch)
      else if queue_type = 2 then count_if is_valid_PACKET (ch_WQ ch) else 0)"

definition mc_get_size :: "constants \<Rightarrow> nat \<Rightarrow> u64 \<Rightarrow> MEMORY_CONTROLLER \<Rightarrow> nat" where
  "mc_get_size c queue_type address m =
     (let ch = channels m ! unat (dram_get_channel c address) in
      if queue_type = 1 \<or> queue_type = 3 then length (ch_RQ ch)
      else if queue_type = 2 then length (ch_WQ ch) else 0)"

definition set_channel :: "nat \<Rightarrow> DRAM_CHANNEL \<Rightarrow> MEMORY_CONTROLLER \<Rightarrow> MEMORY_CONTROLLER" where
  "set_channel k ch m = m\<lparr>channels := (channels m)[k := ch]\<rparr>"

text \<open>\<open>all_warmup\<close> is the global \<open>all_warmup_complete\<close>.\<close>

definition mc_add_rq ::
  "constants \<Rightarrow> nat \<Rightarrow> (rob_it \<Rightarrow> rob_it \<Rightarrow> bool) \<Rightarrow> PACKET \<Rightarrow> MEMORY_CONTROLLER
   \<Rightarrow> int \<times> (nat \<times> PACKET) list \<times> MEMORY_CONTROLLER" where
  "mc_add_rq c all_warmup lt packet m =
     (if all_warmup < NUM_CPUS c then (- 1, map (\<lambda>ret. (ret, packet)) (p_to_return packet), m)
      else
        let k = unat (dram_get_channel c (p_address packet)); ch = channels m ! k;
            match = eq_addr_PACKET (p_address packet) (LOG2_BLOCK_SIZE c);
            wq_it = find_if match (ch_WQ ch); rq_it = find_if match (ch_RQ ch);
            free = find_if_not is_valid_PACKET (ch_RQ ch)
        in if wq_it \<noteq> length (ch_WQ ch) then
             let packet = packet\<lparr>p_data := p_data (ch_WQ ch ! wq_it)\<rparr>
             in (- 1, map (\<lambda>ret. (ret, packet)) (p_to_return packet), m)
           else if rq_it \<noteq> length (ch_RQ ch) then
             (int rq_it, [],
              set_channel k (ch\<lparr>ch_RQ := (ch_RQ ch)[rq_it := merge_deps lt (ch_RQ ch ! rq_it) packet]\<rparr>) m)
           else if free = length (ch_RQ ch) then (0, [], m)
           else
             let m = set_channel k (ch\<lparr>ch_RQ := (ch_RQ ch)[free := packet\<lparr>p_event_cycle := mc_cycle m\<rparr>]\<rparr>) m
             in (int (mc_get_occupancy c 1 (p_address packet) m), [], m))"

definition mc_add_wq :: "constants \<Rightarrow> nat \<Rightarrow> PACKET \<Rightarrow> MEMORY_CONTROLLER \<Rightarrow> int \<times> MEMORY_CONTROLLER" where
  "mc_add_wq c all_warmup packet m =
     (if all_warmup < NUM_CPUS c then (- 1, m)
      else
        let k = unat (dram_get_channel c (p_address packet)); ch = channels m ! k;
            wq_it = find_if (eq_addr_PACKET (p_address packet) (LOG2_BLOCK_SIZE c)) (ch_WQ ch);
            free = find_if_not is_valid_PACKET (ch_WQ ch)
        in if wq_it \<noteq> length (ch_WQ ch) then (0, m)
           else if free = length (ch_WQ ch) then
             (- 2, set_channel k (ch\<lparr>ch_WQ_FULL := ch_WQ_FULL ch + 1\<rparr>) m)
           else
             let m = set_channel k (ch\<lparr>ch_WQ := (ch_WQ ch)[free := packet\<lparr>p_event_cycle := mc_cycle m\<rparr>]\<rparr>) m
             in (int (mc_get_occupancy c 2 (p_address packet) m), m))"

definition mc_add_pq ::
  "constants \<Rightarrow> nat \<Rightarrow> (rob_it \<Rightarrow> rob_it \<Rightarrow> bool) \<Rightarrow> PACKET \<Rightarrow> MEMORY_CONTROLLER
   \<Rightarrow> int \<times> (nat \<times> PACKET) list \<times> MEMORY_CONTROLLER" where
  "mc_add_pq = mc_add_rq"

section \<open>Address mapping\<close>

lemma ceil_float_ceiling: "ceil_float x = \<lceil>x\<rceil>"
proof -
  have "\<lceil>x\<rceil> = \<lfloor>x\<rfloor> + 1" if "of_int \<lfloor>x\<rfloor> \<noteq> x"
    using that by (metis ceiling_altdef)
  then show ?thesis
    by (auto simp: ceil_float_def Let_def)
qed

lemma lg2_le: "0 < n \<Longrightarrow> 2 ^ lg2 n \<le> n"
  using lg2_bounds by simp

lemma field_less: "0 < n \<Longrightarrow> unat (ucast (x AND bitmask (lg2 n) 0) :: u32) < n"
proof -
  assume n: "0 < n"
  have "unat (ucast (x AND bitmask (lg2 n) 0) :: u32) \<le> unat (x AND bitmask (lg2 n) 0)"
    unfolding unsigned_ucast_eq take_bit_nat_def by (rule mod_less_eq_dividend)
  also have "\<dots> < 2 ^ lg2 n" by (rule and_bitmask_less)
  finally show ?thesis using lg2_le [OF n] by simp
qed

definition dram_cfg :: "constants \<Rightarrow> bool" where
  "dram_cfg c \<longleftrightarrow> 0 < DRAM_CHANNELS c \<and> 0 < DRAM_RANKS c \<and> 0 < DRAM_BANKS c
     \<and> 0 < DRAM_WQ_SIZE c \<and> 0 < DRAM_RQ_SIZE c"

lemma dram_get_channel_less: "dram_cfg c \<Longrightarrow> unat (dram_get_channel c a) < DRAM_CHANNELS c"
  by (simp add: dram_cfg_def dram_get_channel_def field_less)

lemma op_idx_less:
  assumes "dram_cfg c"
  shows "op_idx c a < DRAM_RANKS c * DRAM_BANKS c"
proof -
  have "unat (dram_get_rank c a) < DRAM_RANKS c" "unat (dram_get_bank c a) < DRAM_BANKS c"
    using assms by (simp_all add: dram_cfg_def dram_get_rank_def dram_get_bank_def field_less)
  with set_index_bound [of "unat (dram_get_rank c a)" "DRAM_RANKS c" "DRAM_BANKS c"] show ?thesis
    by (simp add: op_idx_def)
qed

section \<open>Invariant of a channel\<close>

lemma pkt_at_set_pkt:
  "pkt_at ch it = Inr q \<Longrightarrow> pkt_at (set_pkt it p ch) jt = (if jt = it then Inr p else pkt_at ch jt)"
  by (cases it; cases jt) (auto split: if_splits)

lemma set_pkt_fields [simp]:
  "bank_request (set_pkt it p ch) = bank_request ch" "active_request (set_pkt it p ch) = active_request ch"
  "length (ch_RQ (set_pkt it p ch)) = length (ch_RQ ch)" "length (ch_WQ (set_pkt it p ch)) = length (ch_WQ ch)"
  "write_mode (set_pkt it p ch) = write_mode ch"
  by (cases it; simp)+

lemma set_bank_fields [simp]:
  "ch_RQ (set_bank i b ch) = ch_RQ ch" "ch_WQ (set_bank i b ch) = ch_WQ ch"
  "active_request (set_bank i b ch) = active_request ch" "write_mode (set_bank i b ch) = write_mode ch"
  "bank_request (set_bank i b ch) = (bank_request ch)[i := b]" "pkt_at (set_bank i b ch) it = pkt_at ch it"
  by (cases it; simp add: set_bank_def)+

lemma pkt_at_cong: "ch_RQ d = ch_RQ ch \<Longrightarrow> ch_WQ d = ch_WQ ch \<Longrightarrow> pkt_at d it = pkt_at ch it"
  by (cases it) simp_all

text \<open>
  Every busy bank refers to a scheduled request for that bank, and every
  scheduled request is the one its bank refers to.
\<close>

definition banks_ok :: "constants \<Rightarrow> DRAM_CHANNEL \<Rightarrow> bool" where
  "banks_ok c ch \<longleftrightarrow> (\<forall>i < length (bank_request ch). bk_valid (bank_request ch ! i) \<longrightarrow>
     (\<exists>p. pkt_at ch (bk_pkt (bank_request ch ! i)) = Inr p \<and> p_address p \<noteq> 0 \<and> p_scheduled p
          \<and> op_idx c (p_address p) = i))"

definition owned_ok :: "constants \<Rightarrow> DRAM_CHANNEL \<Rightarrow> bool" where
  "owned_ok c ch \<longleftrightarrow> (\<forall>it p. pkt_at ch it = Inr p \<longrightarrow> p_address p \<noteq> 0 \<longrightarrow> p_scheduled p \<longrightarrow>
     bk_valid (bank_request ch ! op_idx c (p_address p)) \<and> bk_pkt (bank_request ch ! op_idx c (p_address p)) = it)"

definition chan_wf :: "constants \<Rightarrow> DRAM_CHANNEL \<Rightarrow> bool" where
  "chan_wf c ch \<longleftrightarrow> dram_cfg c \<and> length (ch_RQ ch) = DRAM_RQ_SIZE c \<and> length (ch_WQ ch) = DRAM_WQ_SIZE c
     \<and> length (bank_request ch) = DRAM_RANKS c * DRAM_BANKS c
     \<and> (active_request ch < length (bank_request ch) \<and> bk_valid (active_bank ch) \<or> idle_bus ch)
     \<and> banks_ok c ch \<and> owned_ok c ch"

lemma chan_wfD:
  assumes "chan_wf c ch"
  shows "dram_cfg c" "length (ch_RQ ch) = DRAM_RQ_SIZE c" "length (ch_WQ ch) = DRAM_WQ_SIZE c"
    "length (bank_request ch) = DRAM_RANKS c * DRAM_BANKS c"
    "active_request ch < length (bank_request ch) \<and> bk_valid (active_bank ch) \<or> idle_bus ch"
    "ch_RQ ch \<noteq> []" "ch_WQ ch \<noteq> []" "bank_request ch \<noteq> []"
  using assms by (auto simp: chan_wf_def dram_cfg_def)

lemma chan_wf_bank:
  assumes "chan_wf c ch" "i < length (bank_request ch)" "bk_valid (bank_request ch ! i)"
  obtains p where "pkt_at ch (bk_pkt (bank_request ch ! i)) = Inr p" "p_address p \<noteq> 0" "p_scheduled p"
    "op_idx c (p_address p) = i"
proof -
  have "banks_ok c ch" using assms(1) by (simp add: chan_wf_def)
  from this [unfolded banks_ok_def, rule_format, OF assms(2,3)] that show thesis by blast
qed

lemma chan_wf_owned:
  assumes "chan_wf c ch" "pkt_at ch it = Inr p" "p_address p \<noteq> 0" "p_scheduled p"
  shows "bk_valid (bank_request ch ! op_idx c (p_address p))" "bk_pkt (bank_request ch ! op_idx c (p_address p)) = it"
proof -
  have "owned_ok c ch" using assms(1) by (simp add: chan_wf_def)
  from this [unfolded owned_ok_def, rule_format, OF assms(2-4)]
  show "bk_valid (bank_request ch ! op_idx c (p_address p))" "bk_pkt (bank_request ch ! op_idx c (p_address p)) = it"
    by simp_all
qed

text \<open>Fields the invariant does not mention.\<close>

lemma chan_wf_cong:
  "ch_RQ d = ch_RQ ch \<Longrightarrow> ch_WQ d = ch_WQ ch \<Longrightarrow> bank_request d = bank_request ch \<Longrightarrow>
   active_request d = active_request ch \<Longrightarrow> chan_wf c d = chan_wf c ch"
  by (simp add: chan_wf_def banks_ok_def owned_ok_def pkt_at_cong [of d ch])

text \<open>A bank that gives up its request, which then is not scheduled or not there any more.\<close>

lemma chan_wf_release:
  assumes wf: "chan_wf c ch" and i: "i < length (bank_request ch)" "bk_valid (bank_request ch ! i)"
    and b: "\<not> bk_valid b" and q: "p_address q = 0 \<or> \<not> p_scheduled q"
    and act: "active_request d = active_request ch \<and> i \<noteq> active_request ch \<or> active_request d = length (bank_request ch)"
    and d: "ch_RQ d = ch_RQ e" "ch_WQ d = ch_WQ e" "bank_request d = (bank_request ch)[i := b]"
    and e: "e = set_pkt (bk_pkt (bank_request ch ! i)) q (set_bank i b ch)"
  shows "chan_wf c d"
proof -
  from chan_wf_bank [OF wf i] obtain p where p: "pkt_at ch (bk_pkt (bank_request ch ! i)) = Inr p"
    "p_address p \<noteq> 0" "p_scheduled p" "op_idx c (p_address p) = i" .
  have at: "pkt_at d jt = (if jt = bk_pkt (bank_request ch ! i) then Inr q else pkt_at ch jt)" for jt
  proof -
    have "pkt_at d jt = pkt_at e jt" by (rule pkt_at_cong) (simp_all only: d)
    also have "\<dots> = (if jt = bk_pkt (bank_request ch ! i) then Inr q else pkt_at ch jt)"
      using pkt_at_set_pkt [of "set_bank i b ch" "bk_pkt (bank_request ch ! i)" p q jt] p(1) by (simp add: e)
    finally show ?thesis .
  qed
  note W = chan_wfD [OF wf]
  have len: "length (bank_request d) = length (bank_request ch)" "length (ch_RQ d) = length (ch_RQ ch)"
    "length (ch_WQ d) = length (ch_WQ ch)" by (simp_all add: d e)
  have bank: "banks_ok c d"
    unfolding banks_ok_def
  proof (intro allI impI)
    fix j
    assume j: "j < length (bank_request d)" "bk_valid (bank_request d ! j)"
    have ne: "j \<noteq> i" using j b len i by (auto simp: d)
    then have v: "bk_valid (bank_request ch ! j)" "bank_request d ! j = bank_request ch ! j" using j by (simp_all add: d)
    from j(1) len have "j < length (bank_request ch)" by simp
    from chan_wf_bank [OF wf this v(1)] obtain r where r: "pkt_at ch (bk_pkt (bank_request ch ! j)) = Inr r"
      "p_address r \<noteq> 0" "p_scheduled r" "op_idx c (p_address r) = j" .
    have "bk_pkt (bank_request ch ! j) \<noteq> bk_pkt (bank_request ch ! i)"
    proof
      assume "bk_pkt (bank_request ch ! j) = bk_pkt (bank_request ch ! i)"
      with r(1) p(1) have "r = p" by (simp only: sum.inject)
      with r(4) p(4) ne show False by simp
    qed
    with r v(2) show "\<exists>r. pkt_at d (bk_pkt (bank_request d ! j)) = Inr r \<and> p_address r \<noteq> 0 \<and> p_scheduled r
      \<and> op_idx c (p_address r) = j" by (simp add: at)
  qed
  have owned: "owned_ok c d"
    unfolding owned_ok_def
  proof (intro allI impI)
    fix it r
    assume r: "pkt_at d it = Inr r" "p_address r \<noteq> 0" "p_scheduled r"
    from r q have it: "it \<noteq> bk_pkt (bank_request ch ! i)" "pkt_at ch it = Inr r" by (auto simp: at split: if_splits)
    note o = chan_wf_owned [OF wf it(2) r(2,3)]
    with it(1) have "op_idx c (p_address r) \<noteq> i" by auto
    with o show "bk_valid (bank_request d ! op_idx c (p_address r)) \<and> bk_pkt (bank_request d ! op_idx c (p_address r)) = it"
      by (simp add: d)
  qed
  have "active_request d < length (bank_request d) \<and> bk_valid (active_bank d) \<or> idle_bus d"
    using act W(5) len i by (auto simp: d)
  with bank owned W len show ?thesis by (simp add: chan_wf_def)
qed

section \<open>Requests of a channel\<close>

text \<open>What identifies a request: everything but the two fields the scheduler writes.\<close>

definition core :: "PACKET \<Rightarrow> PACKET" where
  "core p = p\<lparr>p_scheduled := False, p_event_cycle := 0\<rparr>"

definition req_at :: "DRAM_CHANNEL \<Rightarrow> queue_it \<Rightarrow> PACKET option" where
  "req_at ch it = (case pkt_at ch it of Inl _ \<Rightarrow> None | Inr p \<Rightarrow> Some (core p))"

lemma req_at_set_pkt:
  "pkt_at ch it = Inr q \<Longrightarrow> req_at (set_pkt it p ch) = (req_at ch)(it \<mapsto> core p)"
  by (rule ext) (simp add: req_at_def pkt_at_set_pkt)

lemma req_at_cong: "ch_RQ d = ch_RQ ch \<Longrightarrow> ch_WQ d = ch_WQ ch \<Longrightarrow> req_at d = req_at ch"
  by (rule ext) (simp add: req_at_def pkt_at_cong [of d ch])

lemma req_at_set_bank [simp]: "req_at (set_bank i b ch) = req_at ch"
  by (rule req_at_cong) simp_all

lemma req_at_self: "pkt_at ch it = Inr q \<Longrightarrow> core p = core q \<Longrightarrow> (req_at ch)(it \<mapsto> core p) = req_at ch"
  by (rule ext) (simp add: req_at_def)

lemma core_simps [simp]: "core (p\<lparr>p_scheduled := s, p_event_cycle := e\<rparr>) = core p"
  by (simp add: core_def)

lemma finish_request_ok:
  assumes "chan_wf c ch"
  obtains out d where "finish_request c cycle ch = Inr (out, d)" "chan_wf c d"
    "out = [] \<and> d = ch \<or> (\<exists>it p. pkt_at ch it = Inr p \<and> p_address p \<noteq> 0 \<and> p_scheduled p
       \<and> out = map (\<lambda>ret. (ret, p)) (p_to_return p) \<and> req_at d = (req_at ch)(it \<mapsto> core (PACKET_new c 0)))"
proof (cases "\<not> idle_bus ch \<and> bk_event_cycle (active_bank ch) \<le> cycle")
  case False
  then show ?thesis using that [of "[]" ch] assms by (auto simp: finish_request_def)
next
  case True
  let ?i = "active_request ch" and ?b = "active_bank ch"
  from True chan_wfD(5) [OF assms] have i: "?i < length (bank_request ch)" "bk_valid ?b" by auto
  from chan_wf_bank [OF assms i] obtain p where p: "pkt_at ch (bk_pkt ?b) = Inr p" "p_address p \<noteq> 0" "p_scheduled p"
    "op_idx c (p_address p) = ?i" .
  let ?e = "set_pkt (bk_pkt ?b) (PACKET_new c 0) (set_bank ?i (?b\<lparr>bk_valid := False\<rparr>) ch)"
  let ?d = "?e\<lparr>active_request := length (bank_request ch)\<rparr>"
  have f: "finish_request c cycle ch = Inr (map (\<lambda>ret. (ret, p)) (p_to_return p), ?d)"
    using True p by (simp add: finish_request_def Let_def)
  have wf: "chan_wf c ?d"
    by (rule chan_wf_release [OF assms i, of "?b\<lparr>bk_valid := False\<rparr>" "PACKET_new c 0" _ ?e])
      (simp_all add: PACKET_new_def)
  have "req_at ?d = (req_at ch)(bk_pkt ?b \<mapsto> core (PACKET_new c 0))"
    using req_at_cong [of ?d ?e] req_at_set_pkt [of "set_bank ?i (?b\<lparr>bk_valid := False\<rparr>) ch" "bk_pkt ?b" p] p(1) by simp
  then have "\<exists>it p'. pkt_at ch it = Inr p' \<and> p_address p' \<noteq> 0 \<and> p_scheduled p'
       \<and> map (\<lambda>ret. (ret, p)) (p_to_return p) = map (\<lambda>ret. (ret, p')) (p_to_return p')
       \<and> req_at ?d = (req_at ch)(it \<mapsto> core (PACKET_new c 0))"
    using p by (intro exI [of _ "bk_pkt ?b"] exI [of _ p]) simp
  with that [OF f wf] show ?thesis by blast
qed

lemma reset_bank_ok:
  assumes "chan_wf (build P) ch" "i < length (bank_request ch)"
  obtains d where "reset_bank P cycle i ch = Inr d" "chan_wf (build P) d" "req_at d = req_at ch"
    "length (bank_request d) = length (bank_request ch)"
proof (cases "i \<noteq> active_request ch \<and> bk_valid (bank_request ch ! i)")
  case False
  then show ?thesis using that [of ch] assms(1) by (auto simp: reset_bank_def Let_def)
next
  case True
  let ?b = "bank_request ch ! i"
  let ?b' = "?b\<lparr>bk_open_row := (if bk_event_cycle ?b < cycle + tCAS P then 0xFFFFFFFF else bk_open_row ?b), bk_valid := False\<rparr>"
  from True have v: "bk_valid ?b" by simp
  from chan_wf_bank [OF assms v] obtain p where p: "pkt_at ch (bk_pkt ?b) = Inr p" "p_address p \<noteq> 0" "p_scheduled p"
    "op_idx (build P) (p_address p) = i" .
  let ?q = "p\<lparr>p_scheduled := False, p_event_cycle := cycle\<rparr>"
  let ?d = "set_pkt (bk_pkt ?b) ?q (set_bank i ?b' ch)"
  have f: "reset_bank P cycle i ch = Inr ?d" using True p(1) by (simp add: reset_bank_def Let_def)
  have wf: "chan_wf (build P) ?d"
    by (rule chan_wf_release [OF assms v, of ?b' ?q ?d ?d]) (use True in simp_all)
  have "req_at ?d = req_at ch"
    using req_at_set_pkt [of "set_bank i ?b' ch" "bk_pkt ?b" p ?q] req_at_self [OF p(1), of ?q] p(1) by simp
  with that [OF f wf] show ?thesis by simp
qed

lemma change_mode_ok:
  assumes "chan_wf (build P) ch"
  obtains d where "change_mode P cycle ch = Inr d" "chan_wf (build P) d" "req_at d = req_at ch"
proof (cases "unbalanced (build P) ch")
  case False
  then show ?thesis using that [of ch] assms by (simp add: change_mode_def)
next
  case True
  let ?n = "length (bank_request ch)"
  let ?I = "\<lambda>e. chan_wf (build P) e \<and> req_at e = req_at ch \<and> length (bank_request e) = ?n"
  have "\<exists>e. foldE (reset_bank P cycle) [0..<?n] ch = Inr e \<and> ?I e"
  proof (rule foldE_invar)
    fix i e assume "i \<in> set [0..<?n]" "?I e"
    then have "chan_wf (build P) e" "i < length (bank_request e)" "?I e" by simp_all
    from reset_bank_ok [OF this(1,2), of cycle] this(3)
    show "\<exists>t. reset_bank P cycle i e = Inr t \<and> ?I t" by metis
  qed (use assms in simp)
  then obtain e where e: "foldE (reset_bank P cycle) [0..<?n] ch = Inr e" "?I e" by blast
  let ?d = "e\<lparr>dbus_cycle_available := (if \<not> idle_bus e then bk_event_cycle (active_bank e) + DRAM_DBUS_TURN_AROUND_TIME P
                     else cycle + DRAM_DBUS_TURN_AROUND_TIME P), write_mode := \<not> write_mode e\<rparr>"
  have "change_mode P cycle ch = Inr ?d" using True e(1) by (simp add: change_mode_def)
  moreover have "chan_wf (build P) ?d" using e(2) by (subst chan_wf_cong [of _ e]) simp_all
  moreover have "req_at ?d = req_at ch" using e(2) req_at_cong [of ?d e] by simp
  ultimately show ?thesis by (rule that)
qed

text \<open>Changing a valid bank without touching its request.\<close>

lemma chan_wf_bank_update:
  assumes "chan_wf c ch" "i < length (bank_request ch)" "bk_valid b = bk_valid (bank_request ch ! i)"
    "bk_pkt b = bk_pkt (bank_request ch ! i)" "k < length (bank_request ch) \<and> bk_valid (bank_request ch ! k) \<or> k = length (bank_request ch)"
    and d: "ch_RQ d = ch_RQ ch" "ch_WQ d = ch_WQ ch" "bank_request d = (bank_request ch)[i := b]" "active_request d = k"
  shows "chan_wf c d"
proof -
  have at: "pkt_at d = pkt_at ch" using d by (intro ext pkt_at_cong)
  have v: "bk_valid (bank_request d ! j) = bk_valid (bank_request ch ! j)" "bk_pkt (bank_request d ! j) = bk_pkt (bank_request ch ! j)" for j
    using assms(2-4) by (cases "j = i"; simp add: d)+
  have "banks_ok c d = banks_ok c ch" "owned_ok c d = owned_ok c ch"
    by (simp_all add: banks_ok_def owned_ok_def at v) (simp_all add: d)
  moreover have "k < length (bank_request d) \<and> bk_valid (bank_request d ! k) \<or> k = length (bank_request d)"
    using assms(5) v(1) by (simp add: d(3))
  ultimately show ?thesis using assms(1) d by (simp add: chan_wf_def)
qed

lemma count_row_buffer_fields [simp]:
  "ch_RQ (count_row_buffer h ch) = ch_RQ ch" "ch_WQ (count_row_buffer h ch) = ch_WQ ch"
  "bank_request (count_row_buffer h ch) = bank_request ch" "active_request (count_row_buffer h ch) = active_request ch"
  by (simp_all add: count_row_buffer_def)

lemma process_bus_ok:
  assumes "chan_wf (build P) ch"
  obtains d where "process_bus P cycle ch = Inr d" "chan_wf (build P) d" "req_at d = req_at ch"
proof -
  note ne = chan_wfD(8) [OF assms]
  define i where "i = min_element (min_event_cycle bk_valid bk_event_cycle) (bank_request ch)"
  have i: "i < length (bank_request ch)" unfolding i_def using ne by (rule min_element_less)
  let ?b = "bank_request ch ! i"
  show ?thesis
  proof (cases "bk_valid ?b \<and> bk_event_cycle ?b \<le> cycle")
    case False
    then show ?thesis using that [of ch] assms ne by (auto simp: process_bus_def Let_def i_def)
  next
    case busy: True
    show ?thesis
    proof (cases "idle_bus ch \<and> dbus_cycle_available ch \<le> cycle")
      case True
      let ?d = "count_row_buffer (bk_row_buffer_hit ?b)
        (set_bank i (?b\<lparr>bk_event_cycle := cycle + DRAM_DBUS_RETURN_TIME P\<rparr>) (ch\<lparr>active_request := i\<rparr>))"
      have "process_bus P cycle ch = Inr ?d"
        using True busy ne by (simp add: process_bus_def Let_def i_def)
      moreover have "chan_wf (build P) ?d"
        by (rule chan_wf_bank_update [OF assms i, of "?b\<lparr>bk_event_cycle := cycle + DRAM_DBUS_RETURN_TIME P\<rparr>" i])
          (use busy i in simp_all)
      moreover have "req_at ?d = req_at ch" by (rule req_at_cong) simp_all
      ultimately show ?thesis by (rule that)
    next
      case False
      with busy ne obtain x y where f: "process_bus P cycle ch = Inr (ch\<lparr>dbus_cycle_congested := x, dbus_count_congested := y\<rparr>)"
        by (auto simp: process_bus_def Let_def i_def)
      have "chan_wf (build P) (ch\<lparr>dbus_cycle_congested := x, dbus_count_congested := y\<rparr>)"
        using assms by (subst chan_wf_cong [of _ ch]) simp_all
      moreover have "req_at (ch\<lparr>dbus_cycle_congested := x, dbus_count_congested := y\<rparr>) = req_at ch"
        by (rule req_at_cong) simp_all
      ultimately show ?thesis by (rule that [OF f])
    qed
  qed
qed

text \<open>A bank that takes an unscheduled request.\<close>

lemma chan_wf_claim:
  assumes wf: "chan_wf c ch" and p: "pkt_at ch it = Inr p" "p_address p \<noteq> 0"
    and i: "op_idx c (p_address p) = i" "\<not> bk_valid (bank_request ch ! i)"
    and b: "bk_valid b" "bk_pkt b = it" and q: "p_address q = p_address p" "p_scheduled q"
  shows "chan_wf c (set_pkt it q (set_bank i b ch))"
proof -
  let ?d = "set_pkt it q (set_bank i b ch)"
  note W = chan_wfD [OF wf]
  have il: "i < length (bank_request ch)" using op_idx_less [OF W(1), of "p_address p"] W(4) i(1) by simp
  have at: "pkt_at ?d jt = (if jt = it then Inr q else pkt_at ch jt)" for jt
    using pkt_at_set_pkt [of "set_bank i b ch" it p q jt] p(1) by simp
  have unsched: "\<not> p_scheduled p" using chan_wf_owned(1) [OF wf p] i by auto
  have "banks_ok c ?d"
    unfolding banks_ok_def
  proof (intro allI impI)
    fix j assume j: "j < length (bank_request ?d)" "bk_valid (bank_request ?d ! j)"
    show "\<exists>r. pkt_at ?d (bk_pkt (bank_request ?d ! j)) = Inr r \<and> p_address r \<noteq> 0 \<and> p_scheduled r \<and> op_idx c (p_address r) = j"
    proof (cases "j = i")
      case True
      with il b p(2) i(1) q show ?thesis by (simp add: at)
    next
      case False
      with j have jl: "j < length (bank_request ch)" "bk_valid (bank_request ch ! j)" by simp_all
      from chan_wf_bank [OF wf jl] obtain r where r: "pkt_at ch (bk_pkt (bank_request ch ! j)) = Inr r"
        "p_address r \<noteq> 0" "p_scheduled r" "op_idx c (p_address r) = j" .
      have "bk_pkt (bank_request ch ! j) \<noteq> it"
      proof
        assume "bk_pkt (bank_request ch ! j) = it"
        with r(1) p(1) have "r = p" by (simp only: sum.inject)
        with r(3) unsched show False by simp
      qed
      with r False show ?thesis by (simp add: at)
    qed
  qed
  moreover have "owned_ok c ?d"
    unfolding owned_ok_def
  proof (intro allI impI)
    fix jt r assume r: "pkt_at ?d jt = Inr r" "p_address r \<noteq> 0" "p_scheduled r"
    show "bk_valid (bank_request ?d ! op_idx c (p_address r)) \<and> bk_pkt (bank_request ?d ! op_idx c (p_address r)) = jt"
    proof (cases "jt = it")
      case True
      with r(1) have "r = q" by (simp add: at)
      with True q(1) i(1) il b show ?thesis by simp
    next
      case False
      with r(1) have "pkt_at ch jt = Inr r" by (simp add: at)
      note o = chan_wf_owned [OF wf this r(2,3)]
      then have "op_idx c (p_address r) \<noteq> i" using i(2) by metis
      with o show ?thesis by simp
    qed
  qed
  moreover have "active_request ch \<noteq> i" using W(5) i(2) il by auto
  ultimately show ?thesis using W by (simp add: chan_wf_def)
qed

lemma schedule_next_ok:
  assumes "chan_wf (build P) ch"
  obtains d where "schedule_next P cycle ch = Inr d" "chan_wf (build P) d" "req_at d = req_at ch"
proof -
  define q where "q = (if write_mode ch then ch_WQ ch else ch_RQ ch)"
  define k where "k = min_element next_schedule q"
  define it where "it = (if write_mode ch then InWQ k else InRQ k)"
  define p where "p = q ! k"
  define i where "i = op_idx (build P) (p_address p)"
  define row where "row = (ucast (dram_get_row (build P) (p_address p)) :: u64)"
  note W = chan_wfD [OF assms]
  have ne: "q \<noteq> []" using W(6,7) by (simp add: q_def)
  then have k: "k < length q" unfolding k_def by (rule min_element_less)
  have at: "pkt_at ch it = Inr p" using k by (cases "write_mode ch") (simp_all add: it_def p_def q_def)
  have i: "i < length (bank_request ch)" using op_idx_less [OF W(1)] W(4) by (simp add: i_def)
  let ?b = "\<lparr>bk_valid = True, bk_row_buffer_hit = bk_open_row (bank_request ch ! i) = row, bk_open_row = row,
     bk_event_cycle = cycle + tCAS P + (if bk_open_row (bank_request ch ! i) = row then 0 else tRP P + tRCD P), bk_pkt = it\<rparr>"
  let ?q = "p\<lparr>p_scheduled := True, p_event_cycle := - 1\<rparr>"
  have eq: "schedule_next P cycle ch =
    (if is_valid_PACKET p \<and> p_event_cycle p \<le> cycle \<and> \<not> bk_valid (bank_request ch ! i)
     then Inr (set_pkt it ?q (set_bank i ?b ch)) else Inr ch)"
    using ne i unfolding schedule_next_def Let_def q_def [symmetric] k_def [symmetric] it_def [symmetric] p_def [symmetric]
      i_def [symmetric] row_def [symmetric] by simp
  show ?thesis
  proof (cases "is_valid_PACKET p \<and> p_event_cycle p \<le> cycle \<and> \<not> bk_valid (bank_request ch ! i)")
    case True
    then have "chan_wf (build P) (set_pkt it ?q (set_bank i ?b ch))"
      by (intro chan_wf_claim [OF assms at]) (simp_all add: is_valid_PACKET_def i_def)
    moreover have "req_at (set_pkt it ?q (set_bank i ?b ch)) = req_at ch"
      using req_at_set_pkt [of "set_bank i ?b ch" it p ?q] req_at_self [OF at, of ?q] at by simp
    ultimately show ?thesis using that eq True by simp
  next
    case False
    then have "schedule_next P cycle ch = Inr ch" unfolding eq by (rule if_not_P)
    with that assms show ?thesis by blast
  qed
qed

lemma operate_channel_ok:
  assumes "chan_wf (build P) ch"
  obtains out d where "operate_channel P cycle ch = Inr (out, d)" "chan_wf (build P) d"
    "out = [] \<and> req_at d = req_at ch \<or> (\<exists>it p. pkt_at ch it = Inr p \<and> p_address p \<noteq> 0
       \<and> out = map (\<lambda>ret. (ret, p)) (p_to_return p) \<and> req_at d = (req_at ch)(it \<mapsto> core (PACKET_new (build P) 0)))"
proof -
  from finish_request_ok [OF assms, of cycle] obtain out a where a: "finish_request (build P) cycle ch = Inr (out, a)"
    "chan_wf (build P) a"
    "out = [] \<and> a = ch \<or> (\<exists>it p. pkt_at ch it = Inr p \<and> p_address p \<noteq> 0 \<and> p_scheduled p
       \<and> out = map (\<lambda>ret. (ret, p)) (p_to_return p) \<and> req_at a = (req_at ch)(it \<mapsto> core (PACKET_new (build P) 0)))" .
  from change_mode_ok [OF a(2), of cycle] obtain b where b: "change_mode P cycle a = Inr b" "chan_wf (build P) b" "req_at b = req_at a" .
  from process_bus_ok [OF b(2), of cycle] obtain e where e: "process_bus P cycle b = Inr e" "chan_wf (build P) e" "req_at e = req_at b" .
  from schedule_next_ok [OF e(2), of cycle] obtain d where d: "schedule_next P cycle e = Inr d" "chan_wf (build P) d" "req_at d = req_at e" .
  have f: "operate_channel P cycle ch = Inr (out, d)" using a(1) b(1) e(1) d(1) by (simp add: operate_channel_def)
  have r: "req_at d = req_at a" using b(3) e(3) d(3) by simp
  show ?thesis
  proof (rule that [OF f d(2)])
    from a(3) show "out = [] \<and> req_at d = req_at ch \<or> (\<exists>it p. pkt_at ch it = Inr p \<and> p_address p \<noteq> 0
       \<and> out = map (\<lambda>ret. (ret, p)) (p_to_return p) \<and> req_at d = (req_at ch)(it \<mapsto> core (PACKET_new (build P) 0)))"
      unfolding r by blast
  qed
qed

section \<open>Adding requests\<close>

definition mc_wf :: "constants \<Rightarrow> MEMORY_CONTROLLER \<Rightarrow> bool" where
  "mc_wf c m \<longleftrightarrow> length (channels m) = DRAM_CHANNELS c \<and> (\<forall>ch \<in> set (channels m). chan_wf c ch)"

lemma chan_wf_new: "dram_cfg c \<Longrightarrow> chan_wf c (DRAM_CHANNEL_new c)"
proof -
  assume c: "dram_cfg c"
  have "banks_ok c (DRAM_CHANNEL_new c)" by (simp add: banks_ok_def DRAM_CHANNEL_new_def BANK_REQUEST_new_def)
  moreover have "p_address p = 0" if "pkt_at (DRAM_CHANNEL_new c) it = Inr p" for it p
    using that by (cases it) (auto simp: DRAM_CHANNEL_new_def PACKET_new_def split: if_splits)
  then have "owned_ok c (DRAM_CHANNEL_new c)" unfolding owned_ok_def by blast
  ultimately show ?thesis using c by (simp add: chan_wf_def DRAM_CHANNEL_new_def)
qed

lemma mc_wf_new: "dram_cfg c \<Longrightarrow> mc_wf c (MEMORY_CONTROLLER_new c)"
  using chan_wf_new by (auto simp: mc_wf_def MEMORY_CONTROLLER_new_def)

text \<open>Writing a request that is not scheduled into a free slot, or changing what a request does not schedule by.\<close>

lemma chan_wf_set_pkt:
  assumes wf: "chan_wf c ch" and p: "pkt_at ch it = Inr p"
    and q: "p_address p = 0 \<and> \<not> p_scheduled q \<or> p_address q = p_address p \<and> p_scheduled q = p_scheduled p"
  shows "chan_wf c (set_pkt it q ch)"
proof -
  let ?d = "set_pkt it q ch"
  have at: "pkt_at ?d jt = (if jt = it then Inr q else pkt_at ch jt)" for jt
    using pkt_at_set_pkt [OF p] by simp
  have "banks_ok c ?d"
    unfolding banks_ok_def
  proof (intro allI impI)
    fix j assume "j < length (bank_request ?d)" "bk_valid (bank_request ?d ! j)"
    then have j: "j < length (bank_request ch)" "bk_valid (bank_request ch ! j)" by simp_all
    from chan_wf_bank [OF wf j] obtain r where r: "pkt_at ch (bk_pkt (bank_request ch ! j)) = Inr r"
      "p_address r \<noteq> 0" "p_scheduled r" "op_idx c (p_address r) = j" .
    show "\<exists>r. pkt_at ?d (bk_pkt (bank_request ?d ! j)) = Inr r \<and> p_address r \<noteq> 0 \<and> p_scheduled r \<and> op_idx c (p_address r) = j"
    proof (cases "bk_pkt (bank_request ch ! j) = it")
      case True
      with r(1) p have "r = p" by (simp only: sum.inject)
      with True r q show ?thesis by (auto simp: at)
    next
      case False
      with r show ?thesis by (simp add: at)
    qed
  qed
  moreover have "owned_ok c ?d"
    unfolding owned_ok_def
  proof (intro allI impI)
    fix jt r assume r: "pkt_at ?d jt = Inr r" "p_address r \<noteq> 0" "p_scheduled r"
    show "bk_valid (bank_request ?d ! op_idx c (p_address r)) \<and> bk_pkt (bank_request ?d ! op_idx c (p_address r)) = jt"
    proof (cases "jt = it")
      case True
      with r q have s: "r = q" "p_address p \<noteq> 0" "p_scheduled p" "p_address q = p_address p" by (auto simp: at)
      from chan_wf_owned [OF wf p s(2,3)] s True show ?thesis by simp
    next
      case False
      with r(1) have "pkt_at ch jt = Inr r" by (simp add: at)
      from chan_wf_owned [OF wf this r(2,3)] show ?thesis by simp
    qed
  qed
  ultimately show ?thesis using chan_wfD [OF wf] by (simp add: chan_wf_def)
qed

lemma mc_wf_set_channel:
  "mc_wf c m \<Longrightarrow> chan_wf c ch \<Longrightarrow> mc_wf c (set_channel k ch m)"
  using set_update_subset_insert [of "channels m" k ch] by (auto simp: mc_wf_def set_channel_def)

lemma mc_wf_channel: "mc_wf c m \<Longrightarrow> dram_cfg c \<Longrightarrow> chan_wf c (channels m ! unat (dram_get_channel c a))"
  by (simp add: mc_wf_def dram_get_channel_less)

abbreviation chan_of :: "constants \<Rightarrow> PACKET \<Rightarrow> MEMORY_CONTROLLER \<Rightarrow> DRAM_CHANNEL" where
  "chan_of c packet m \<equiv> channels m ! unat (dram_get_channel c (p_address packet))"

abbreviation same_block :: "constants \<Rightarrow> PACKET \<Rightarrow> PACKET \<Rightarrow> bool" where
  "same_block c packet \<equiv> eq_addr_PACKET (p_address packet) (LOG2_BLOCK_SIZE c)"

lemma mc_add_rq_cases:
  assumes r: "mc_add_rq c wu lt packet m = (r, out, m')"
  obtains "wu < NUM_CPUS c" "r = - 1" "out = map (\<lambda>ret. (ret, packet)) (p_to_return packet)" "m' = m"
  | j where "\<not> wu < NUM_CPUS c" "j < length (ch_WQ (chan_of c packet m))" "same_block c packet (ch_WQ (chan_of c packet m) ! j)"
      "r = - 1" "out = map (\<lambda>ret. (ret, packet\<lparr>p_data := p_data (ch_WQ (chan_of c packet m) ! j)\<rparr>)) (p_to_return packet)" "m' = m"
  | j where "\<not> wu < NUM_CPUS c" "j < length (ch_RQ (chan_of c packet m))" "same_block c packet (ch_RQ (chan_of c packet m) ! j)"
      "r = int j" "out = []"
      "m' = set_channel (unat (dram_get_channel c (p_address packet)))
              (set_pkt (InRQ j) (merge_deps lt (ch_RQ (chan_of c packet m) ! j) packet) (chan_of c packet m)) m"
  | "\<not> wu < NUM_CPUS c" "\<forall>e \<in> set (ch_RQ (chan_of c packet m)). is_valid_PACKET e \<and> \<not> same_block c packet e"
      "r = 0" "out = []" "m' = m"
  | j where "\<not> wu < NUM_CPUS c" "j < length (ch_RQ (chan_of c packet m))" "\<not> is_valid_PACKET (ch_RQ (chan_of c packet m) ! j)"
      "\<forall>e \<in> set (ch_RQ (chan_of c packet m)). \<not> same_block c packet e"
      "r = int (mc_get_occupancy c 1 (p_address packet) m')" "out = []"
      "m' = set_channel (unat (dram_get_channel c (p_address packet)))
              (set_pkt (InRQ j) (packet\<lparr>p_event_cycle := mc_cycle m\<rparr>) (chan_of c packet m)) m"
proof -
  let ?ch = "chan_of c packet m"
  let ?wq = "find_if (same_block c packet) (ch_WQ ?ch)"
  let ?rq = "find_if (same_block c packet) (ch_RQ ?ch)"
  let ?free = "find_if_not is_valid_PACKET (ch_RQ ?ch)"
  consider (warm) "wu < NUM_CPUS c" | (wq) "\<not> wu < NUM_CPUS c" "?wq < length (ch_WQ ?ch)"
    | (rq) "\<not> wu < NUM_CPUS c" "?wq = length (ch_WQ ?ch)" "?rq < length (ch_RQ ?ch)"
    | (full) "\<not> wu < NUM_CPUS c" "?wq = length (ch_WQ ?ch)" "?rq = length (ch_RQ ?ch)" "?free = length (ch_RQ ?ch)"
    | (free) "\<not> wu < NUM_CPUS c" "?wq = length (ch_WQ ?ch)" "?rq = length (ch_RQ ?ch)" "?free < length (ch_RQ ?ch)"
    using find_if_ne_iff find_if_not_ne_iff by metis
  then show ?thesis
  proof cases
    case warm
    with r show ?thesis by (intro that(1)) (simp_all add: mc_add_rq_def)
  next
    case wq
    have f: "r = - 1 \<and> out = map (\<lambda>ret. (ret, packet\<lparr>p_data := p_data (ch_WQ ?ch ! ?wq)\<rparr>)) (p_to_return packet) \<and> m' = m"
      using r wq by (auto simp: mc_add_rq_def Let_def)
    show ?thesis by (rule that(2) [OF wq find_if_nth [OF wq(2)]]) (use f in simp_all)
  next
    case rq
    have f: "r = int ?rq \<and> out = []
        \<and> m' = set_channel (unat (dram_get_channel c (p_address packet))) (set_pkt (InRQ ?rq) (merge_deps lt (ch_RQ ?ch ! ?rq) packet) ?ch) m"
      using r rq by (auto simp: mc_add_rq_def Let_def)
    show ?thesis by (rule that(3) [OF rq(1,3) find_if_nth [OF rq(3)]]) (use f in simp_all)
  next
    case full
    have f: "r = 0 \<and> out = [] \<and> m' = m" using r full by (auto simp: mc_add_rq_def Let_def)
    have "\<forall>e \<in> set (ch_RQ ?ch). is_valid_PACKET e \<and> \<not> same_block c packet e"
      using full(3,4) by (simp add: find_if_not_def find_if_eq_length_iff)
    then show ?thesis by (rule that(4) [OF full(1)]) (use f in simp_all)
  next
    case free
    have f: "r = int (mc_get_occupancy c 1 (p_address packet) m') \<and> out = []
        \<and> m' = set_channel (unat (dram_get_channel c (p_address packet))) (set_pkt (InRQ ?free) (packet\<lparr>p_event_cycle := mc_cycle m\<rparr>) ?ch) m"
      using r free by (auto simp add: mc_add_rq_def Let_def)
    have "\<forall>e \<in> set (ch_RQ ?ch). \<not> same_block c packet e" using free(3) by (simp add: find_if_eq_length_iff)
    then show ?thesis by (rule that(5) [OF free(1,4) find_if_not_nth [OF free(4)]]) (use f in simp_all)
  qed
qed

lemma mc_wf_add_rq:
  assumes wf: "mc_wf c m" "dram_cfg c" and p: "\<not> p_scheduled packet" and r: "mc_add_rq c wu lt packet m = (r, out, m')"
  shows "mc_wf c m'"
  using r
proof (cases rule: mc_add_rq_cases)
  case (3 j)
  then have at: "pkt_at (chan_of c packet m) (InRQ j) = Inr (ch_RQ (chan_of c packet m) ! j)" by simp
  show ?thesis unfolding 3(6)
    by (intro mc_wf_set_channel [OF wf(1)] chan_wf_set_pkt [OF mc_wf_channel [OF wf] at]) (simp add: merge_deps_def)
next
  case (5 j)
  then have at: "pkt_at (chan_of c packet m) (InRQ j) = Inr (ch_RQ (chan_of c packet m) ! j)" by simp
  show ?thesis unfolding 5(7)
    by (intro mc_wf_set_channel [OF wf(1)] chan_wf_set_pkt [OF mc_wf_channel [OF wf] at])
      (use p 5(3) in \<open>simp add: is_valid_PACKET_def\<close>)
qed (use wf in simp_all)

lemma mc_wf_add_wq:
  assumes wf: "mc_wf c m" "dram_cfg c" and p: "\<not> p_scheduled packet" and r: "mc_add_wq c wu packet m = (r, m')"
  shows "mc_wf c m'"
proof -
  let ?k = "unat (dram_get_channel c (p_address packet))"
  let ?ch = "channels m ! ?k"
  let ?wq = "find_if (same_block c packet) (ch_WQ ?ch)"
  let ?free = "find_if_not is_valid_PACKET (ch_WQ ?ch)"
  note ch = mc_wf_channel [OF wf, of "p_address packet"]
  show ?thesis
  proof (cases "wu < NUM_CPUS c \<or> ?wq \<noteq> length (ch_WQ ?ch)")
    case True
    with r wf(1) show ?thesis by (auto simp: mc_add_wq_def Let_def split: if_splits)
  next
    case new: False
    show ?thesis
    proof (cases "?free = length (ch_WQ ?ch)")
      case True
      with r new have m': "m' = set_channel ?k (?ch\<lparr>ch_WQ_FULL := ch_WQ_FULL ?ch + 1\<rparr>) m"
        by (simp add: mc_add_wq_def Let_def)
      have "chan_wf c (?ch\<lparr>ch_WQ_FULL := ch_WQ_FULL ?ch + 1\<rparr>)" using ch by (subst chan_wf_cong [of _ ?ch]) simp_all
      with mc_wf_set_channel [OF wf(1)] m' show ?thesis by simp
    next
      case False
      with r new have m': "m' = set_channel ?k (set_pkt (InWQ ?free) (packet\<lparr>p_event_cycle := mc_cycle m\<rparr>) ?ch) m"
        by (simp add: mc_add_wq_def Let_def)
      from False have f: "?free < length (ch_WQ ?ch)" by (simp add: find_if_not_ne_iff [symmetric])
      then have at: "pkt_at ?ch (InWQ ?free) = Inr (ch_WQ ?ch ! ?free)" by simp
      have "p_address (ch_WQ ?ch ! ?free) = 0" using find_if_not_nth [OF f] by (simp add: is_valid_PACKET_def)
      with p show ?thesis unfolding m'
        by (intro mc_wf_set_channel [OF wf(1)] chan_wf_set_pkt [OF ch at]) simp
    qed
  qed
qed

lemma operate_channels_ok:
  "(\<forall>ch \<in> set chs. chan_wf (build P) ch) \<Longrightarrow>
   \<exists>out chs'. operate_channels P cycle chs = Inr (out, chs') \<and> length chs' = length chs
     \<and> (\<forall>ch \<in> set chs'. chan_wf (build P) ch)"
proof (induction chs)
  case (Cons ch chs)
  then have "chan_wf (build P) ch" by simp
  from operate_channel_ok [OF this, of cycle] obtain o1 d where "operate_channel P cycle ch = Inr (o1, d)" "chan_wf (build P) d" .
  moreover from Cons obtain o2 chs' where "operate_channels P cycle chs = Inr (o2, chs')" "length chs' = length chs"
    "\<forall>ch \<in> set chs'. chan_wf (build P) ch" by auto
  ultimately show ?case by simp
qed simp

lemma mc_wf_operate:
  assumes "mc_wf (build P) m"
  obtains out m' where "mc_operate P m = Inr (out, m')" "mc_wf (build P) m'" "mc_cycle m' = mc_cycle m"
  using operate_channels_ok [of "channels m" P "mc_cycle m"] assms
  by (auto simp: mc_operate_def mc_wf_def)

section \<open>The controller under any sequence of calls\<close>

text \<open>
  The calls the controller receives.  After \<open>operate()\<close>, \<open>_operate()\<close>
  increments the cycle.
\<close>

datatype mc_call = AddRQ PACKET | AddWQ PACKET | AddPQ PACKET | Operate

fun call_packet :: "mc_call \<Rightarrow> PACKET option" where
  "call_packet (AddRQ p) = Some p"
| "call_packet (AddWQ p) = Some p"
| "call_packet (AddPQ p) = Some p"
| "call_packet Operate = None"

fun mc_exec :: "dram_params \<Rightarrow> nat \<Rightarrow> (rob_it \<Rightarrow> rob_it \<Rightarrow> bool) \<Rightarrow> mc_call \<Rightarrow> MEMORY_CONTROLLER \<Rightarrow> MEMORY_CONTROLLER result" where
  "mc_exec P wu lt (AddRQ p) m = (case mc_add_rq (build P) wu lt p m of (_, _, m) \<Rightarrow> Inr m)"
| "mc_exec P wu lt (AddWQ p) m = (case mc_add_wq (build P) wu p m of (_, m) \<Rightarrow> Inr m)"
| "mc_exec P wu lt (AddPQ p) m = (case mc_add_pq (build P) wu lt p m of (_, _, m) \<Rightarrow> Inr m)"
| "mc_exec P wu lt Operate m = bindE (mc_operate P m) (\<lambda>(_, m). Inr (m\<lparr>mc_cycle := mc_cycle m + 1\<rparr>))"

definition fresh_call :: "mc_call \<Rightarrow> bool" where
  "fresh_call call \<longleftrightarrow> (case call_packet call of None \<Rightarrow> True | Some p \<Rightarrow> \<not> p_scheduled p)"

lemma mc_exec_ok:
  assumes "dram_cfg (build P)" "mc_wf (build P) m" "fresh_call call"
  shows "\<exists>m'. mc_exec P wu lt call m = Inr m' \<and> mc_wf (build P) m'"
proof (cases call)
  case (AddRQ p)
  with assms mc_wf_add_rq [OF assms(2,1), of p wu lt] show ?thesis
    by (auto simp: fresh_call_def split: prod.splits)
next
  case (AddWQ p)
  with assms mc_wf_add_wq [OF assms(2,1), of p wu] show ?thesis
    by (auto simp: fresh_call_def split: prod.splits)
next
  case (AddPQ p)
  with assms mc_wf_add_rq [OF assms(2,1), of p wu lt] show ?thesis
    by (auto simp: fresh_call_def mc_add_pq_def split: prod.splits)
next
  case Operate
  from mc_wf_operate [OF assms(2)] obtain out m' where "mc_operate P m = Inr (out, m')" "mc_wf (build P) m'" .
  with Operate show ?thesis by (simp add: mc_wf_def)
qed

section \<open>Fields of an address\<close>

lemma field_eq_iff:
  assumes "n \<le> 32"
  shows "(ucast (drop_bit s a AND bitmask n 0) :: u32) = ucast (drop_bit s b AND bitmask n 0)
    \<longleftrightarrow> (\<forall>i < n. bit a (s + i) = bit b (s + i))" (is "?l = ?r \<longleftrightarrow> _")
proof
  assume eq: "?l = ?r"
  show "\<forall>i < n. bit a (s + i) = bit b (s + i)"
  proof (intro allI impI)
    fix i assume "i < n"
    with assms eq have "bit ?l i = bit ?r i" "i < 32" by simp_all
    with \<open>i < n\<close> show "bit a (s + i) = bit b (s + i)"
      by (simp add: bitmask_mask bit_simps)
  qed
next
  assume "\<forall>i < n. bit a (s + i) = bit b (s + i)"
  then show "?l = ?r" by (intro bit_word_eqI) (auto simp: bitmask_mask bit_simps)
qed

text \<open>Bits of a concatenation of five fields from bit \<open>s\<close> on.\<close>

lemma all_bits_split:
  fixes s k1 k2 :: nat
  shows "(\<forall>i < k1 + k2. P (s + i)) \<longleftrightarrow> (\<forall>i < k1. P (s + i)) \<and> (\<forall>i < k2. P (s + k1 + i))"
proof (intro iffI conjI allI impI)
  fix i assume a: "(\<forall>i < k1. P (s + i)) \<and> (\<forall>i < k2. P (s + k1 + i))" "i < k1 + k2"
  show "P (s + i)"
  proof (cases "i < k1")
    case False
    then have "i = k1 + (i - k1)" "i - k1 < k2" using a(2) by simp_all
    with a(1) show ?thesis by (metis add.assoc)
  qed (use a in simp)
qed (simp_all add: add.assoc)

lemma drop_bit_eq_iff_bits:
  fixes a b :: "'a::len word"
  assumes "\<forall>i \<ge> s + n. \<not> bit a i" "\<forall>i \<ge> s + n. \<not> bit b i"
  shows "drop_bit s a = drop_bit s b \<longleftrightarrow> (\<forall>i < n. bit a (s + i) = bit b (s + i))"
proof
  assume eq: "drop_bit s a = drop_bit s b"
  have "bit (drop_bit s a) i = bit (drop_bit s b) i" for i using eq by simp
  then show "\<forall>i < n. bit a (s + i) = bit b (s + i)" by (simp add: bit_drop_bit_eq)
next
  assume r: "\<forall>i < n. bit a (s + i) = bit b (s + i)"
  show "drop_bit s a = drop_bit s b"
  proof (rule bit_word_eqI)
    fix i
    show "bit (drop_bit s a) i = bit (drop_bit s b) i"
      using r assms by (cases "i < n") (auto simp: bit_drop_bit_eq)
  qed
qed

lemma high_bits_clear: "unat (a :: u64) < 2 ^ n \<Longrightarrow> \<forall>i \<ge> n. \<not> bit a i"
proof (intro allI impI)
  fix i assume a: "unat a < 2 ^ n" "n \<le> i"
  have "(2::nat) ^ n \<le> 2 ^ i" using a(2) by (simp add: power_increasing)
  with a(1) have "unat a < 2 ^ i" by linarith
  then have "\<not> bit (unat a) i" by (simp add: bit_iff_odd)
  then show "\<not> bit a i" using bit_imp_le_length [of a i] by (auto simp: bit_unsigned_iff)
qed

section \<open>Properties\<close>

text \<open>A controller with one channel, two banks, one read slot and two write slots.\<close>

definition small_constants :: constants where
  "small_constants =
     \<lparr>BLOCK_SIZE = 64, PAGE_SIZE = 4096, NUM_CPUS = 1, DRAM_CHANNELS = 1, DRAM_RANKS = 1,
      DRAM_BANKS = 2, DRAM_ROWS = 16, DRAM_COLUMNS = 4, DRAM_WQ_SIZE = 2, DRAM_RQ_SIZE = 1,
      DRAM_CHANNEL_WIDTH = 8\<rparr>"

definition small_dram :: dram_params where
  "small_dram = \<lparr>build = small_constants, tRP_DRAM_NANOSECONDS = 25 / 2, tRCD_DRAM_NANOSECONDS = 25 / 2,
     tCAS_DRAM_NANOSECONDS = 25 / 2, DBUS_TURN_AROUND_NANOSECONDS = 15 / 2, DRAM_IO_FREQ = 3200\<rparr>"

definition read_of :: "u64 \<Rightarrow> PACKET" where
  "read_of a = (PACKET_new small_constants 0)\<lparr>p_address := a, p_to_return := [7]\<rparr>"

lemma small_fields [simp]:
  "BLOCK_SIZE small_constants = 64" "NUM_CPUS small_constants = 1" "DRAM_CHANNELS small_constants = 1"
  "DRAM_RANKS small_constants = 1" "DRAM_BANKS small_constants = 2" "DRAM_ROWS small_constants = 16"
  "DRAM_COLUMNS small_constants = 4" "DRAM_WQ_SIZE small_constants = 2" "DRAM_RQ_SIZE small_constants = 1"
  "build small_dram = small_constants"
  by (simp_all add: small_constants_def small_dram_def)

lemma small_cfg [simp]: "dram_cfg small_constants"
  by (simp add: dram_cfg_def)

lemma small_lg2 [simp]: "lg2 64 = 6" "lg2 16 = 4" "lg2 4 = 2" "lg2 2 = 1" "lg2 (Suc 0) = 0"
  using lg2_pow2 [of 6] lg2_pow2 [of 4] lg2_pow2 [of 2] lg2_pow2 [of 1] by simp_all

lemma read_of_fields [simp]:
  "p_scheduled (read_of a) = False" "p_address (read_of a) = a" "p_to_return (read_of a) = [7]"
  by (simp_all add: read_of_def PACKET_new_def)



text \<open>
  C29: One call of \<open>operate()\<close> on a channel either returns nothing and keeps
  every request in its slot, or it removes exactly one request and sends that
  request, once, to each of its requesters.  No request is lost or answered
  twice by changes of the mode, rescheduling or the bus.
\<close>

theorem dram_operate_answers_one_request:
  assumes "chan_wf (build P) ch"
  shows "\<exists>out d. operate_channel P cycle ch = Inr (out, d) \<and> chan_wf (build P) d
    \<and> (out = [] \<and> req_at d = req_at ch \<or> (\<exists>it p. pkt_at ch it = Inr p \<and> p_address p \<noteq> 0
         \<and> out = map (\<lambda>ret. (ret, p)) (p_to_return p) \<and> req_at d = (req_at ch)(it \<mapsto> core (PACKET_new (build P) 0))))"
proof -
  from operate_channel_ok [OF assms, of cycle] obtain out d where "operate_channel P cycle ch = Inr (out, d)" "chan_wf (build P) d"
    "out = [] \<and> req_at d = req_at ch \<or> (\<exists>it p. pkt_at ch it = Inr p \<and> p_address p \<noteq> 0
       \<and> out = map (\<lambda>ret. (ret, p)) (p_to_return p) \<and> req_at d = (req_at ch)(it \<mapsto> core (PACKET_new (build P) 0)))" .
  then show ?thesis by blast
qed

theorem dram_operate_answers_one_request_witness:
  "\<exists>out d. operate_channel small_dram 3 (set_pkt (InRQ 0) (read_of 64) (DRAM_CHANNEL_new (build small_dram))) = Inr (out, d)
    \<and> chan_wf (build small_dram) d"
proof -
  let ?ch = "DRAM_CHANNEL_new (build small_dram)"
  have "chan_wf (build small_dram) (set_pkt (InRQ 0) (read_of 64) ?ch)"
    by (rule chan_wf_set_pkt [OF chan_wf_new, of _ _ "PACKET_new small_constants 0"])
      (simp_all add: DRAM_CHANNEL_new_def PACKET_new_def)
  from dram_operate_answers_one_request [OF this, of 3] show ?thesis by blast
qed

text \<open>
  The row, rank, column, bank and channel of an address determine its
  block: two addresses inside the memory that agree in all five fields belong
  to the same block, and so no two blocks share a location of the DRAM.
\<close>

theorem dram_mapping_is_injective:
  assumes "\<forall>n \<in> {DRAM_CHANNELS c, DRAM_BANKS c, DRAM_COLUMNS c, DRAM_RANKS c, DRAM_ROWS c}. lg2 n \<le> 32"
    and "n = LOG2_BLOCK_SIZE c + lg2 (DRAM_CHANNELS c) + lg2 (DRAM_BANKS c) + lg2 (DRAM_COLUMNS c) + lg2 (DRAM_RANKS c) + lg2 (DRAM_ROWS c)"
    and "unat a < 2 ^ n" "unat b < 2 ^ n"
  shows "drop_bit (LOG2_BLOCK_SIZE c) a = drop_bit (LOG2_BLOCK_SIZE c) b \<longleftrightarrow>
    dram_get_channel c a = dram_get_channel c b \<and> dram_get_bank c a = dram_get_bank c b
    \<and> dram_get_column c a = dram_get_column c b \<and> dram_get_rank c a = dram_get_rank c b
    \<and> dram_get_row c a = dram_get_row c b"
proof -
  let ?s = "LOG2_BLOCK_SIZE c" and ?h = "lg2 (DRAM_CHANNELS c)" and ?b = "lg2 (DRAM_BANKS c)"
    and ?o = "lg2 (DRAM_COLUMNS c)" and ?k = "lg2 (DRAM_RANKS c)" and ?w = "lg2 (DRAM_ROWS c)"
  have n: "?s + (?h + (?b + (?o + (?k + ?w)))) = n" using assms(2) by simp
  have "drop_bit ?s a = drop_bit ?s b \<longleftrightarrow> (\<forall>i < ?h + (?b + (?o + (?k + ?w))). bit a (?s + i) = bit b (?s + i))"
    by (rule drop_bit_eq_iff_bits) (unfold n, rule high_bits_clear, fact, rule high_bits_clear, fact)
  moreover have "dram_get_channel c a = dram_get_channel c b \<longleftrightarrow> (\<forall>i < ?h. bit a (?s + i) = bit b (?s + i))"
    unfolding dram_get_channel_def using assms(1) by (intro field_eq_iff) simp
  moreover have "dram_get_bank c a = dram_get_bank c b \<longleftrightarrow> (\<forall>i < ?b. bit a (?s + ?h + i) = bit b (?s + ?h + i))"
    unfolding dram_get_bank_def using assms(1) field_eq_iff [of ?b "?h + ?s" a b] by (simp add: add.commute)
  moreover have "dram_get_column c a = dram_get_column c b
      \<longleftrightarrow> (\<forall>i < ?o. bit a (?s + ?h + ?b + i) = bit b (?s + ?h + ?b + i))"
    unfolding dram_get_column_def using assms(1) field_eq_iff [of ?o "?b + ?h + ?s" a b] by (simp add: ac_simps)
  moreover have "dram_get_rank c a = dram_get_rank c b
      \<longleftrightarrow> (\<forall>i < ?k. bit a (?s + ?h + ?b + ?o + i) = bit b (?s + ?h + ?b + ?o + i))"
    unfolding dram_get_rank_def using assms(1) field_eq_iff [of ?k "?b + ?o + ?h + ?s" a b] by (simp add: ac_simps)
  moreover have "dram_get_row c a = dram_get_row c b
      \<longleftrightarrow> (\<forall>i < ?w. bit a (?s + ?h + ?b + ?o + ?k + i) = bit b (?s + ?h + ?b + ?o + ?k + i))"
    unfolding dram_get_row_def using assms(1) field_eq_iff [of ?w "?k + ?b + ?o + ?h + ?s" a b] by (simp add: ac_simps)
  ultimately show ?thesis by (simp only: all_bits_split [where P = "\<lambda>j. bit a j = bit b j"] conj_assoc)
qed

theorem dram_mapping_is_injective_witness:
  "dram_get_row small_constants 1024 \<noteq> dram_get_row small_constants 512"
proof -
  have "drop_bit 6 (1024 :: u64) \<noteq> drop_bit 6 512" by (simp add: drop_bit_eq_div)
  then have "\<not> (dram_get_channel small_constants 1024 = dram_get_channel small_constants 512
    \<and> dram_get_bank small_constants 1024 = dram_get_bank small_constants 512
    \<and> dram_get_column small_constants 1024 = dram_get_column small_constants 512
    \<and> dram_get_rank small_constants 1024 = dram_get_rank small_constants 512
    \<and> dram_get_row small_constants 1024 = dram_get_row small_constants 512)"
    using dram_mapping_is_injective [of small_constants 13 1024 512] by simp
  moreover have "dram_get_channel small_constants 1024 = dram_get_channel small_constants 512"
    "dram_get_bank small_constants 1024 = dram_get_bank small_constants 512"
    "dram_get_column small_constants 1024 = dram_get_column small_constants 512"
    "dram_get_rank small_constants 1024 = dram_get_rank small_constants 512"
    by (simp_all add: dram_get_channel_def dram_get_bank_def dram_get_column_def dram_get_rank_def
         drop_bit_eq_div bitmask_mask take_bit_eq_mask [symmetric] take_bit_eq_mod)
  ultimately show ?thesis by simp
qed



end
