(* ===== verification/Hierarchy.thy ===== *)
theory Hierarchy
  imports Prefetchers Dram
begin

text \<open>
  Caches with their neighbours: the memory controller or another cache as the
  level below, a replacement policy and a prefetcher.  Both arrangements are
  interpretations of \<open>cache_modules\<close>, so that every cache keeps its invariant
  under any calls, and a cache above another keeps the invariant of both.
\<close>

section \<open>Above the memory controller\<close>

text \<open>
  The cache next to memory, with LRU replacement and the prefetcher of
  \<open>next_line\<close>.  The fill level of the controller, the largest \<open>unsigned\<close>, is
  255 in the byte of a packet that holds it.
\<close>

definition over_dram_base ::
  "constants \<Rightarrow> nat \<Rightarrow> (nat \<Rightarrow> bool) \<Rightarrow> (rob_it \<Rightarrow> rob_it \<Rightarrow> bool) \<Rightarrow> u32 \<Rightarrow> nat \<Rightarrow> (unit, 'p, MEMORY_CONTROLLER) cache_env" where
  "over_dram_base k all_warmup warm lt junk ways =
     \<lparr>consts_of = k, warmup_complete = warm, has_lower = True, lo_fill_level = 255,
      lo_add_rq = (\<lambda>pkt m. case mc_add_rq k all_warmup lt pkt m of (r, out, m) \<Rightarrow> Inr (r, map snd out, m)),
      lo_add_pq = (\<lambda>pkt m. case mc_add_pq k all_warmup lt pkt m of (r, out, m) \<Rightarrow> Inr (r, map snd out, m)),
      lo_add_wq = (\<lambda>pkt m. Inr (mc_add_wq k all_warmup pkt m)),
      lo_occupancy = mc_get_occupancy k, lo_size = mc_get_size k,
      uninit_metadata = junk, instr_lt = lt,
      find_victim = lru_find_victim ways, update_replacement_state = lru_update ways,
      prefetcher_cache_operate = no_cache_operate, prefetcher_cache_fill = no_cache_fill,
      prefetcher_cycle_operate = no_cycle_operate\<rparr>"

definition over_dram ::
  "constants \<Rightarrow> nat \<Rightarrow> (nat \<Rightarrow> bool) \<Rightarrow> (rob_it \<Rightarrow> rob_it \<Rightarrow> bool) \<Rightarrow> u32 \<Rightarrow> nat \<Rightarrow> (unit, 'p, MEMORY_CONTROLLER) cache_env" where
  "over_dram k all_warmup warm lt junk ways =
     (let E = over_dram_base k all_warmup warm lt junk ways
      in E\<lparr>prefetcher_cache_operate := next_line_cache_operate E\<rparr>)"

definition cache_errors :: "champ_error \<Rightarrow> bool" where
  "cache_errors e \<longleftrightarrow> e = AssertFailed ''packet->address != 0'' \<or> e = Undefined ''front() of an empty free list''"

lemma va_to_pa_errors: "va_to_pa k cpu v vm = Inl e \<Longrightarrow> cache_errors e"
  by (auto simp: va_to_pa_def cache_errors_def errs Let_def split: option.splits list.splits)

lemma mc_add_rq_answers:
  assumes "mc_add_rq k wu lt pkt m = (r, out, m')" "length (p_to_return pkt) \<le> 1"
  shows "answers pkt (map snd out)"
  using assms(1)
proof (cases rule: mc_add_rq_cases)
  case 1
  then show ?thesis using assms(2) by (cases "p_to_return pkt") (auto simp: answers_def intro: exI [of _ "p_data pkt"])
next
  case (2 j)
  then show ?thesis using assms(2) by (cases "p_to_return pkt") (auto simp: answers_def)
qed (simp_all add: answers_def)

lemma map_snd_answers:
  assumes "length (p_to_return pkt) \<le> 1" "msgs = map (\<lambda>t. (t, pkt\<lparr>p_data := x\<rparr>)) (p_to_return pkt) \<or> msgs = []"
  shows "answers pkt (map snd msgs)"
  using assms by (cases "p_to_return pkt") (auto simp: answers_def)

lemma over_dram_fields:
  "find_victim (over_dram k wu warm lt junk ways) = lru_find_victim ways"
  "update_replacement_state (over_dram k wu warm lt junk ways) = lru_update ways"
  "prefetcher_cache_operate (over_dram k wu warm lt junk ways) = next_line_cache_operate (over_dram_base k wu warm lt junk ways)"
  "prefetcher_cache_fill (over_dram k wu warm lt junk ways) = no_cache_fill"
  "prefetcher_cycle_operate (over_dram k wu warm lt junk ways) = no_cycle_operate"
  by (simp_all add: over_dram_def over_dram_base_def)

interpretation dram_cache: cache_modules sets ways "\<lambda>_. True" "over_dram k wu warm lt junk ways" cache_errors "\<lambda>_. True"
  for sets ways k wu warm lt junk
proof (rule cache_modules.intro)
  show "replacement_policy sets ways (\<lambda>_. True) (find_victim (over_dram k wu warm lt junk ways))
     (update_replacement_state (over_dram k wu warm lt junk ways))"
    unfolding over_dram_fields by (rule lru_policy.replacement_policy_axioms)
  have addr: "cache_errors (AssertFailed ''packet->address != 0'')" by (simp add: cache_errors_def)
  show "cache_modules_axioms (over_dram k wu warm lt junk ways) cache_errors (\<lambda>_. True)"
  proof (rule cache_modules_axioms.intro, goal_cases)
    case (1 c a ip h t m)
    then show ?case unfolding over_dram_fields by (intro next_line_frame addr)
  next
    case (2 c a st w pf ev m)
    then show ?case by (simp add: over_dram_fields no_cache_fill_def)
  next
    case (3 c)
    then show ?case by (simp add: over_dram_fields no_cycle_operate_def)
  next
    case (4 lw pkt)
    then show ?case by (auto simp: over_dram_def over_dram_base_def split: prod.splits intro: mc_add_rq_answers)
  next
    case (5 lw pkt)
    then show ?case
      by (auto simp: over_dram_def over_dram_base_def mc_add_pq_def split: prod.splits intro: mc_add_rq_answers)
  next
    case (6 lw pkt)
    then show ?case by (auto simp: over_dram_def over_dram_base_def resE_def)
  next
    case (7 cpu v vm e)
    then show ?case by (rule va_to_pa_errors)
  qed (rule addr)
qed

section \<open>Above another cache\<close>

text \<open>
  A cache with SRRIP replacement and the prefetcher of \<open>ip_stride\<close> above
  another cache, whose environment is \<open>L\<close> and whose fill level is \<open>lev\<close>.
\<close>

definition over_cache_base ::
  "('t, 'q, 'x) cache_env \<Rightarrow> nat \<Rightarrow> nat \<Rightarrow> (unit, 'p, ('t, 'q) CACHE) cache_env" where
  "over_cache_base L lev ways =
     \<lparr>consts_of = consts_of L, warmup_complete = warmup_complete L, has_lower = True, lo_fill_level = lev,
      lo_add_rq = (\<lambda>pkt d. bindE (add_rq L pkt d) (\<lambda>(r, msgs, d). Inr (r, map snd msgs, d))),
      lo_add_pq = (\<lambda>pkt d. bindE (add_pq L pkt d) (\<lambda>(r, msgs, d). Inr (r, map snd msgs, d))),
      lo_add_wq = (\<lambda>pkt d. bindE (add_wq L pkt d) (\<lambda>(r, msgs, d). Inr (r, d))),
      lo_occupancy = get_occupancy, lo_size = get_size,
      uninit_metadata = uninit_metadata L, instr_lt = instr_lt L,
      find_victim = srrip_find_victim ways, update_replacement_state = srrip_update ways,
      prefetcher_cache_operate = no_cache_operate, prefetcher_cache_fill = no_cache_fill,
      prefetcher_cycle_operate = no_cycle_operate\<rparr>"

definition over_cache ::
  "('t, 'q, 'x) cache_env \<Rightarrow> nat \<Rightarrow> nat \<Rightarrow> (unit, ip_stride, ('t, 'q) CACHE) cache_env" where
  "over_cache L lev ways =
     (let E = over_cache_base L lev ways
      in E\<lparr>prefetcher_cache_operate := ip_stride_cache_operate E,
           prefetcher_cycle_operate := ip_stride_cycle_operate E\<rparr>)"

lemma over_cache_fields:
  "find_victim (over_cache L lev ways) = srrip_find_victim ways"
  "update_replacement_state (over_cache L lev ways) = srrip_update ways"
  "prefetcher_cache_operate (over_cache L lev ways) = ip_stride_cache_operate (over_cache_base L lev ways)"
  "prefetcher_cache_fill (over_cache L lev ways) = no_cache_fill"
  "prefetcher_cycle_operate (over_cache L lev ways) = ip_stride_cycle_operate (over_cache_base L lev ways)"
  "lo_add_rq (over_cache L lev ways) pkt d = bindE (add_rq L pkt d) (\<lambda>(r, msgs, d). Inr (r, map snd msgs, d))"
  "lo_add_pq (over_cache L lev ways) pkt d = bindE (add_pq L pkt d) (\<lambda>(r, msgs, d). Inr (r, map snd msgs, d))"
  "lo_add_wq (over_cache L lev ways) pkt d = bindE (add_wq L pkt d) (\<lambda>(r, msgs, d). Inr (r, d))"
  by (simp_all add: over_cache_def over_cache_base_def Let_def)

lemma cache_wf_queues:
  assumes "cache_wf rinv c"
  shows "addressed (RQ c)" "addressed (WQ c)" "pq_good c"
    "addressed q \<Longrightarrow> cache_wf rinv (c\<lparr>RQ := q, stats := ss\<rparr>)" "addressed q \<Longrightarrow> cache_wf rinv (c\<lparr>WQ := q, stats := ss\<rparr>)"
    "pf_frame c d \<Longrightarrow> cache_wf rinv d"
  using assms by (simp_all add: cache_wf_def pq_good_def pf_frame_def)

text \<open>A cache keeps the contract of a lower level.\<close>

lemma cache_answers_rq:
  assumes "cache_wf rinv d" "p_address pkt \<noteq> 0" "length (p_to_return pkt) \<le> 1"
  shows "resE err (\<lambda>(r, rets, d'). answers pkt rets \<and> cache_wf rinv d') (bindE (add_rq L pkt d) (\<lambda>(r, msgs, d). Inr (r, map snd msgs, d)))"
proof (cases "add_rq L pkt d")
  case (Inl e)
  with add_total(1) [OF assms(2), of d L] cache_wf_queues(1) [OF assms(1)] show ?thesis by (simp add: addressed_def dq_good_wf)
next
  case (Inr x)
  obtain r msgs d' where x: "x = (r, msgs, d')" by (cases x) auto
  with add_rq_outcome [OF cache_wf_queues(1) [OF assms(1)], of pkt L] Inr obtain q ss y where
    o: "d' = d\<lparr>RQ := q, stats := ss\<rparr>" "addressed q" "msgs = map (\<lambda>t. (t, pkt\<lparr>p_data := y\<rparr>)) (p_to_return pkt) \<or> msgs = []"
    by auto
  then show ?thesis
    using Inr x map_snd_answers [OF assms(3) o(3)] cache_wf_queues(4) [OF assms(1) o(2)] by simp
qed

lemma cache_answers_pq:
  assumes "cache_wf rinv d" "p_address pkt \<noteq> 0" "length (p_to_return pkt) \<le> 1"
  shows "resE err (\<lambda>(r, rets, d'). answers pkt rets \<and> cache_wf rinv d') (bindE (add_pq L pkt d) (\<lambda>(r, msgs, d). Inr (r, map snd msgs, d)))"
proof (cases "add_pq L pkt d")
  case (Inl e)
  with add_total(2) [OF assms(2), of d L] cache_wf_queues(3) [OF assms(1)] show ?thesis by (simp add: pq_good_def dq_good_wf)
next
  case (Inr x)
  obtain r msgs d' where x: "x = (r, msgs, d')" by (cases x) auto
  have wf: "dq_wf (PQ d)" using cache_wf_queues(3) [OF assms(1)] by (simp add: pq_good_def dq_good_wf)
  from Inr [unfolded x] wf have "\<exists>y. msgs = map (\<lambda>t. (t, pkt\<lparr>p_data := y\<rparr>)) (p_to_return pkt) \<or> msgs = []"
    by (cases rule: add_pq_cases) auto
  then have "answers pkt (map snd msgs)" using map_snd_answers [OF assms(3)] by blast
  moreover have "cache_wf rinv d'"
    using add_pq_outcome [OF cache_wf_queues(3) [OF assms(1)], of L pkt] Inr x cache_wf_queues(6) [OF assms(1)] by simp
  ultimately show ?thesis using Inr x by simp
qed

lemma cache_answers_wq:
  assumes "cache_wf rinv d" "p_address pkt \<noteq> 0"
  shows "resE err (\<lambda>(r, d'). cache_wf rinv d') (bindE (add_wq L pkt d) (\<lambda>(r, msgs, d). Inr (r, d)))"
proof -
  have "resE err (\<lambda>(r, msgs, d'). cache_wf rinv d') (add_wq L pkt d)"
    using add_wq_outcome [OF cache_wf_queues(2) [OF assms(1)] assms(2), of L] cache_wf_queues(5) [OF assms(1)]
    by (cases "add_wq L pkt d") auto
  then show ?thesis by (rule resE_bind) auto
qed

interpretation two_caches: cache_modules sets ways "\<lambda>(bs, _). rrpv_inv bs" "over_cache L lev ways" cache_errors "cache_wf rinv"
  for sets ways L lev rinv
proof (rule cache_modules.intro)
  show "replacement_policy sets ways (\<lambda>(bs, _). rrpv_inv bs) (find_victim (over_cache L lev ways))
     (update_replacement_state (over_cache L lev ways))"
    unfolding over_cache_fields by (rule srrip_policy.replacement_policy_axioms)
  have addr: "cache_errors (AssertFailed ''packet->address != 0'')" by (simp add: cache_errors_def)
  show "cache_modules_axioms (over_cache L lev ways) cache_errors (cache_wf rinv)"
  proof (rule cache_modules_axioms.intro, goal_cases)
    case (1 c a ip h t m)
    then show ?case unfolding over_cache_fields by (intro ip_stride_operate_frame)
  next
    case (2 c a st w pf ev m)
    then show ?case by (simp add: over_cache_fields no_cache_fill_def)
  next
    case (3 c)
    then show ?case unfolding over_cache_fields by (intro ip_stride_cycle_frame addr)
  next
    case (4 lw pkt)
    then show ?case unfolding over_cache_fields by (rule cache_answers_rq)
  next
    case (5 lw pkt)
    then show ?case unfolding over_cache_fields by (rule cache_answers_pq)
  next
    case (6 lw pkt)
    then show ?case unfolding over_cache_fields by (rule cache_answers_wq)
  next
    case (7 cpu v vm e)
    then show ?case by (rule va_to_pa_errors)
  qed (rule addr)
qed

section \<open>Properties\<close>

definition cache_state_new :: "('s, 'p) CACHE \<Rightarrow> 'w \<Rightarrow> VirtualMemory \<Rightarrow> ('s, 'p, 'w) cache_state" where
  "cache_state_new c w vm = \<lparr>cache = c, c_lower = w, c_vmem = vm, outbox = []\<rparr>"

text \<open>
  C5: Whatever calls a new cache above the memory controller receives, as long
  as writes have an address and data are returned only for blocks that are
  being fetched, it keeps its invariant: every valid block lies in the set its
  address selects, the MSHR holds at most one entry for a block and never more
  than its size, and the queues are consistent.  None of its assertions fails
  but that on the address of a packet, and no iterator past the end is used; a
  virtual prefetch may find no free physical page.
\<close>

theorem cache_over_dram_keeps_invariant:
  assumes "cfg_wf cf" "calls_ok (over_dram k wu warm lt junk (NUM_WAY cf)) calls
      (cache_state_new (CACHE_new pkt cf cpu wq rq pq lat () p) m vm)"
  shows "case cache_run (over_dram k wu warm lt junk (NUM_WAY cf)) calls
      (cache_state_new (CACHE_new pkt cf cpu wq rq pq lat () p) m vm) of
    Inl e \<Rightarrow> e = AssertFailed ''packet->address != 0'' \<or> e = Undefined ''front() of an empty free list''
  | Inr t \<Rightarrow> cache_wf (\<lambda>_. True) (cache t)"
proof -
  let ?s = "cache_state_new (CACHE_new pkt cf cpu wq rq pq lat () p) m vm"
  have "dram_cache.sinv (NUM_SET cf) (NUM_WAY cf) ?s"
    using cache_wf_new [of cf "\<lambda>_. True", OF assms(1)]
    by (simp add: dram_cache.sinv_def dram_cache.cinv_def cache_state_new_def CACHE_new_def)
  from dram_cache.cache_run_ok [OF this assms(2)] show ?thesis
    by (simp add: resE_def cache_errors_def dram_cache.sinv_def dram_cache.cinv_def split: sum.splits)
qed

text \<open>
  C6: A cache above another one, with SRRIP replacement and the stride
  prefetcher: from consistent states, any calls of the upper cache leave both
  caches consistent.  What the upper cache sends down (reads, prefetches and
  the dirty blocks it evicts) and what the lower one returns at once always
  meets the obligations of the receiver.
\<close>

theorem two_caches_keep_invariants:
  assumes "cache_wf (\<lambda>(bs, _). rrpv_inv bs) (cache s)" "cache_wf rinv (c_lower s)"
    "calls_ok (over_cache L lev (NUM_WAY (cfg (cache s)))) calls s"
  shows "case cache_run (over_cache L lev (NUM_WAY (cfg (cache s)))) calls s of
    Inl e \<Rightarrow> e = AssertFailed ''packet->address != 0'' \<or> e = Undefined ''front() of an empty free list''
  | Inr t \<Rightarrow> cache_wf (\<lambda>(bs, _). rrpv_inv bs) (cache t) \<and> cache_wf rinv (c_lower t)"
proof -
  have "two_caches.sinv (NUM_SET (cfg (cache s))) (NUM_WAY (cfg (cache s))) rinv s"
    using assms(1,2) by (simp add: two_caches.sinv_def two_caches.cinv_def)
  from two_caches.cache_run_ok [OF this assms(3)] show ?thesis
    by (simp add: resE_def cache_errors_def two_caches.sinv_def two_caches.cinv_def split: sum.splits)
qed

end
