(* ===== verification/HierarchyExample.thy ===== *)
theory HierarchyExample
  imports Hierarchy
begin

text \<open>
  A small cache, above the small memory controller or above another small
  cache, on which the properties of the caches are applied.
\<close>

definition small_cache :: cache_config where
  "small_cache = \<lparr>cache_id = 3, fill_level = 4, NUM_SET = 2, NUM_WAY = 2, MSHR_SIZE = 2, FILL_LATENCY = 1, OFFSET_BITS = 6,
     MAX_READ = 1, MAX_WRITE = 1, prefetch_as_load = False, match_offset_bits = False, virtual_prefetch = False,
     pref_activate_mask = 1\<rparr>"

definition small_vmem :: VirtualMemory where
  "small_vmem = \<lparr>vpage_to_ppage_map = Map.empty, page_table = Map.empty, next_pte_page = 0, minor_fault_penalty = 0,
     pt_levels = 5, page_size = 4096, ppage_free_list = []\<rparr>"

definition small_env :: "(unit, unit, MEMORY_CONTROLLER) cache_env" where
  "small_env = over_dram small_constants 1 (\<lambda>_. True) (\<lambda>_ _. False) 0 2"

definition small_llc :: "(unit, unit) CACHE" where
  "small_llc = CACHE_new (read_of 0) small_cache 0 2 2 2 1 () ()"

text \<open>A cache that has sent a read of address 64 down and waits for the data.\<close>

definition waiting_cache :: "(unit, ip_stride) CACHE" where
  "waiting_cache =
     (let c = CACHE_new (read_of 0) small_cache 0 2 2 2 1 () ip_stride_new
      in c\<lparr>block := srrip_initialize (block c), MSHR := [(read_of 64)\<lparr>p_event_cycle := - 1\<rparr>]\<rparr>)"

lemma small_cache_wf: "cfg_wf small_cache" "NUM_WAY small_cache = 2"
  by (auto simp: cfg_wf_def small_cache_def intro: exI [of _ 1])

lemma small_llc_wf: "cache_wf (\<lambda>_. True) small_llc"
  unfolding small_llc_def by (rule cache_wf_new) (simp_all add: small_cache_wf)

lemma waiting_cache_wf: "cache_wf (\<lambda>(bs, _). rrpv_inv bs) waiting_cache"
proof -
  have "cache_wf (\<lambda>_. True) (CACHE_new (read_of 0) small_cache 0 2 2 2 1 () ip_stride_new)"
    by (rule cache_wf_new) (simp_all add: small_cache_wf)
  then show ?thesis
    by (auto simp: waiting_cache_def Let_def cache_wf_def pq_good_def block_distinct_def small_cache_def CACHE_new_def
        srrip_initialize_def rrpv_inv_def placed_def BLOCK_new_def)
qed

theorem cache_over_dram_keeps_invariant_witness:
  "case cache_run (over_dram small_constants 1 (\<lambda>_. True) (\<lambda>_ _. False) 0 (NUM_WAY small_cache))
      [Add_RQ (read_of 64), Add_WQ (read_of 192), Cycle, Cycle, Invalidate 64, Add_PQ (read_of 128), Cycle]
      (cache_state_new (CACHE_new (read_of 0) small_cache 0 2 2 2 1 () ()) (MEMORY_CONTROLLER_new small_constants) small_vmem) of
    Inl e \<Rightarrow> e = AssertFailed ''packet->address != 0'' \<or> e = Undefined ''front() of an empty free list''
  | Inr t \<Rightarrow> cache_wf (\<lambda>_. True) (cache t)"
  by (rule cache_over_dram_keeps_invariant) (auto simp: small_cache_wf split: sum.split simp del: cache_exec.simps)

theorem two_caches_keep_invariants_witness:
  "case cache_run (over_cache small_env 4 (NUM_WAY (cfg (cache (cache_state_new waiting_cache small_llc small_vmem)))))
      [Return_data (read_of 64), Add_RQ (read_of 128), Cycle, Cycle, Add_WQ (read_of 192), Cycle]
      (cache_state_new waiting_cache small_llc small_vmem) of
    Inl e \<Rightarrow> e = AssertFailed ''packet->address != 0'' \<or> e = Undefined ''front() of an empty free list''
  | Inr t \<Rightarrow> cache_wf (\<lambda>(bs, _). rrpv_inv bs) (cache t) \<and> cache_wf (\<lambda>_. True) (c_lower t)"
proof (rule two_caches_keep_invariants)
  have "outstanding (read_of 64) waiting_cache"
    by (simp add: outstanding_def waiting_cache_def Let_def eq_addr_PACKET_iff)
  then show "calls_ok (over_cache small_env 4 (NUM_WAY (cfg (cache (cache_state_new waiting_cache small_llc small_vmem)))))
      [Return_data (read_of 64), Add_RQ (read_of 128), Cycle, Cycle, Add_WQ (read_of 192), Cycle]
      (cache_state_new waiting_cache small_llc small_vmem)"
    by (auto simp: cache_state_new_def split: sum.split simp del: cache_exec.simps)
qed (simp_all add: cache_state_new_def waiting_cache_wf small_llc_wf)


text \<open>A cache whose stride prefetcher has seen instruction 1 access lines 1 and 2.\<close>

definition trained_cache :: "(unit, ip_stride) CACHE" where
  "trained_cache = CACHE_new (read_of 0) (small_cache\<lparr>virtual_prefetch := True\<rparr>) 0 2 2 2 1 ()
     (ip_stride_new\<lparr>trackers := (trackers ip_stride_new)[1 := \<lparr>te_ip = 1, last_cl_addr = 2, last_stride = 1, last_used_cycle = 0\<rparr>]\<rparr>)"

theorem ip_stride_prefetches_from_line_number_witness:
  "\<exists>d e q. ip_stride_cache_operate (over_cache_base small_env 4 2) 192 1 False 0 0 trained_cache = Inr (0, d)
    \<and> ip_stride_cycle_operate (over_cache_base small_env 4 2) d = Inr e
    \<and> dq_list (VAPQ e) = [q] \<and> p_v_address q = 67"
proof -
  let ?E = "over_cache_base small_env 4 2 :: (unit, ip_stride, (unit, unit) CACHE) cache_env"
  let ?t = "\<lparr>te_ip = 1, last_cl_addr = 2, last_stride = 1, last_used_cycle = 0\<rparr>"
  let ?ys = "slice 1 4 (trackers (pref trained_cache))"
  have tr: "trackers (pref trained_cache) = (trackers ip_stride_new)[1 := ?t]" by (simp add: trained_cache_def CACHE_new_def)
  have n: "length (trackers ip_stride_new) = 1024" unfolding ip_stride_new_def by (simp only: ip_stride.simps length_replicate)
  have len: "(1 :: nat) + 4 \<le> length (trackers (pref trained_cache))" by (simp add: tr n)
  have "?ys ! 0 = ?t" using nth_slice [OF len, of 0] by (simp add: tr n)
  moreover obtain y ys where ys: "?ys = y # ys" using length_slice [OF len] by (cases ?ys) simp_all
  ultimately have sl: "?ys = ?t # ys" by simp
  have k: "LOG2_BLOCK_SIZE (consts_of ?E) = 6" by (simp add: over_cache_base_def small_env_def over_dram_def over_dram_base_def)
  have v: "VAPQ trained_cache = dq_new (read_of 0) 2 2" by (simp add: trained_cache_def CACHE_new_def)
  have new: "dq_list (dq_new x n l) = []" "dq_size (dq_new x n l) = n" for x :: PACKET and n l
    by (simp_all add: dq_new_def dq_list_def dq_size_def) (simp add: cb_new_def)
  have vp: "virtual_prefetch (cfg trained_cache)" by (simp add: trained_cache_def CACHE_new_def)
  have wf: "dq_wf (VAPQ trained_cache)" by (simp add: v dq_new_wf)
  have l: "drop_bit 6 (192 :: u64) = 3" by (simp add: drop_bit_eq_div)
  have m: "unat ((1 :: u64) mod 256) = 1" by simp
  have p: "3 = drop_bit (LOG2_BLOCK_SIZE (consts_of ?E)) (192 :: u64)"
    "find_if (\<lambda>x. te_ip x = 1) (slice (unat ((1 :: u64) mod 256)) 4 (trackers (pref trained_cache))) = 0" "(0 :: nat) < 4"
    "?t = slice (unat ((1 :: u64) mod 256)) 4 (trackers (pref trained_cache)) ! 0"
    "last_stride ?t = 3 - last_cl_addr ?t" "3 \<noteq> last_cl_addr ?t"
    "length (dq_list (VAPQ trained_cache)) < dq_size (VAPQ trained_cache)"
    unfolding k m sl by (simp_all add: l v new)
  obtain d e q where o: "ip_stride_cache_operate ?E 192 1 False 0 0 trained_cache = Inr (0, d)" "ip_stride_cycle_operate ?E d = Inr e"
      "dq_list (VAPQ e) = dq_list (VAPQ trained_cache) @ [q]"
      "p_v_address q = 3 + push_bit (LOG2_BLOCK_SIZE (consts_of ?E)) (3 - last_cl_addr ?t)"
    using ip_stride_prefetches_from_line_number [OF p(1-6) vp wf p(7), of False 0 0] by blast
  have "dq_list (VAPQ e) = [q]" "p_v_address q = 67" using o(3,4) unfolding k by (simp_all add: v new)
  with o(1,2) show ?thesis by blast
qed

end
