(* ===== verification/Branch.thy ===== *)
theory Branch
  imports Util
begin

text \<open>
  The table-based direction predictors \<open>branch/bimodal\<close> and \<open>branch/gshare\<close>.
  The state is that of one core; the sources keep one such state per core.
  The parameter \<open>taken\<close>, 0 or 1 in the sources, is a truth value.  What both
  predictors share, a table of two-bit saturating counters, is the locale
  \<open>counter_predictor\<close>.
\<close>

section \<open>Bimodal predictor\<close>

abbreviation (input) BIMODAL_TABLE_SIZE :: nat where "BIMODAL_TABLE_SIZE \<equiv> 16384"
abbreviation (input) BIMODAL_PRIME :: nat where "BIMODAL_PRIME \<equiv> 16381"
abbreviation (input) COUNTER_BITS :: nat where "COUNTER_BITS \<equiv> 2"

type_synonym bimodal = "int list"

definition bimodal_initialize :: bimodal where
  "bimodal_initialize = replicate BIMODAL_TABLE_SIZE 0"

definition bimodal_hash :: "u64 \<Rightarrow> nat" where
  "bimodal_hash ip = unat ip mod BIMODAL_PRIME"

definition bimodal_predict :: "u64 \<Rightarrow> bimodal \<Rightarrow> bool" where
  "bimodal_predict ip table \<longleftrightarrow> table ! bimodal_hash ip \<ge> 2 ^ (COUNTER_BITS - 1)"

definition bimodal_update :: "u64 \<Rightarrow> bool \<Rightarrow> bimodal \<Rightarrow> bimodal" where
  "bimodal_update ip taken table =
     (let hash = bimodal_hash ip in
      if taken then table[hash := min (table ! hash + 1) (2 ^ COUNTER_BITS - 1)]
      else table[hash := max (table ! hash - 1) 0])"

section \<open>Gshare predictor\<close>

abbreviation (input) GLOBAL_HISTORY_LENGTH :: nat where "GLOBAL_HISTORY_LENGTH \<equiv> 14"
abbreviation (input) GS_HISTORY_TABLE_SIZE :: nat where "GS_HISTORY_TABLE_SIZE \<equiv> 16384"

record gshare =
  branch_history_vector :: u32
  gs_history_table :: "int list"
  my_last_prediction :: int

definition gshare_initialize :: gshare where
  "gshare_initialize =
     \<lparr>branch_history_vector = 0, gs_history_table = replicate GS_HISTORY_TABLE_SIZE 2, my_last_prediction = 0\<rparr>"

definition gs_table_hash :: "u64 \<Rightarrow> u32 \<Rightarrow> nat" where
  "gs_table_hash ip bh_vector =
     (let hash = (ucast (ip XOR drop_bit GLOBAL_HISTORY_LENGTH ip XOR drop_bit (GLOBAL_HISTORY_LENGTH * 2) ip
                         XOR scast bh_vector) :: u32)
      in unat hash mod GS_HISTORY_TABLE_SIZE)"

definition gshare_predict :: "u64 \<Rightarrow> gshare \<Rightarrow> bool \<times> gshare" where
  "gshare_predict ip g =
     (let gs_hash = gs_table_hash ip (branch_history_vector g);
          prediction = gs_history_table g ! gs_hash \<ge> 2
      in (prediction, g\<lparr>my_last_prediction := of_bool prediction\<rparr>))"

definition gshare_update :: "u64 \<Rightarrow> bool \<Rightarrow> gshare \<Rightarrow> gshare" where
  "gshare_update ip taken g =
     (let gs_hash = gs_table_hash ip (branch_history_vector g);
          v = gs_history_table g ! gs_hash;
          v' = (if taken then if v < 3 then v + 1 else v else if v > 0 then v - 1 else v);
          h = push_bit 1 (branch_history_vector g);
          h = h AND (push_bit GLOBAL_HISTORY_LENGTH 1 - 1);
          h = h OR of_bool taken
      in g\<lparr>gs_history_table := (gs_history_table g)[gs_hash := v'], branch_history_vector := h\<rparr>)"

section \<open>Tables of two-bit counters\<close>

definition saturate :: "bool \<Rightarrow> int \<Rightarrow> int" where
  "saturate taken v = (if taken then min (v + 1) 3 else max (v - 1) 0)"

lemma saturate_range: "0 \<le> v \<Longrightarrow> v \<le> 3 \<Longrightarrow> 0 \<le> saturate t v \<and> saturate t v \<le> 3"
  by (simp add: saturate_def)

lemma saturate_twice: "0 \<le> v \<Longrightarrow> v \<le> 3 \<Longrightarrow> 2 \<le> saturate t (saturate t v) \<longleftrightarrow> t"
  by (auto simp: saturate_def max_def min_def)

text \<open>
  A predictor with a counter per slot: \<open>slot\<close> selects the counter of a branch,
  \<open>predict\<close> compares it and \<open>update\<close> moves it by one.
\<close>

locale counter_predictor =
  fixes invar :: "'s \<Rightarrow> bool"
    and slot :: "u64 \<Rightarrow> 's \<Rightarrow> nat"
    and counter :: "nat \<Rightarrow> 's \<Rightarrow> int"
    and predict :: "u64 \<Rightarrow> 's \<Rightarrow> bool"
    and update :: "u64 \<Rightarrow> bool \<Rightarrow> 's \<Rightarrow> 's"
  assumes range: "invar s \<Longrightarrow> 0 \<le> counter (slot ip s) s \<and> counter (slot ip s) s \<le> 3"
    and predicts: "invar s \<Longrightarrow> predict ip s \<longleftrightarrow> 2 \<le> counter (slot ip s) s"
    and keeps: "invar s \<Longrightarrow> invar (update ip t s)"
    and moves: "invar s \<Longrightarrow>
      counter i (update ip t s) = (if i = slot ip s then saturate t (counter i s) else counter i s)"
begin

text \<open>The branches of a run, each with the slot it selects when it is resolved.\<close>

fun resolve :: "(u64 \<times> bool) list \<Rightarrow> 's \<Rightarrow> 's" where
  "resolve [] s = s"
| "resolve ((ip, t) # brs) s = resolve brs (update ip t s)"

fun slots :: "(u64 \<times> bool) list \<Rightarrow> 's \<Rightarrow> (nat \<times> bool) list" where
  "slots [] s = []"
| "slots ((ip, t) # brs) s = (slot ip s, t) # slots brs (update ip t s)"

lemma resolve_keeps: "invar s \<Longrightarrow> invar (resolve brs s)"
  by (induction brs s rule: resolve.induct) (auto simp: keeps)

text \<open>A counter has seen exactly the outcomes of the branches that selected it.\<close>

lemma counter_resolve:
  "invar s \<Longrightarrow> counter i (resolve brs s)
     = fold saturate (map snd (filter (\<lambda>(j, _). j = i) (slots brs s))) (counter i s)"
  by (induction brs s rule: resolve.induct) (auto simp: moves keeps)

lemma learns:
  assumes "invar s" "map snd (filter (\<lambda>(j, _). j = slot ip (resolve brs s)) (slots brs s)) = ts @ [t, t]"
    "0 \<le> counter (slot ip (resolve brs s)) s \<and> counter (slot ip (resolve brs s)) s \<le> 3"
  shows "predict ip (resolve brs s) \<longleftrightarrow> t"
proof -
  let ?i = "slot ip (resolve brs s)"
  have r: "0 \<le> fold saturate ts v \<and> fold saturate ts v \<le> 3" if "0 \<le> v \<and> v \<le> 3" for v
    using that saturate_range by (induction ts arbitrary: v) auto
  have "counter ?i (resolve brs s) = saturate t (saturate t (fold saturate ts (counter ?i s)))"
    using counter_resolve [OF assms(1), of ?i brs] assms(2) by simp
  with predicts [OF resolve_keeps [OF assms(1)], of ip] saturate_twice r [OF assms(3)] show ?thesis by simp
qed

end

subsection \<open>The bimodal table\<close>

definition bimodal_inv :: "bimodal \<Rightarrow> bool" where
  "bimodal_inv table \<longleftrightarrow> length table = BIMODAL_TABLE_SIZE \<and> (\<forall>v \<in> set table. 0 \<le> v \<and> v \<le> 3)"

lemma bimodal_hash_less: "bimodal_hash ip < 16384"
proof -
  have "unat ip mod 16381 < 16381" by simp
  then show ?thesis unfolding bimodal_hash_def by linarith
qed

lemma bimodal_update_eq:
  "bimodal_update ip t table = table[bimodal_hash ip := saturate t (table ! bimodal_hash ip)]"
  by (simp add: bimodal_update_def saturate_def Let_def)

interpretation bimodal_counters: counter_predictor bimodal_inv "\<lambda>ip _. bimodal_hash ip" "\<lambda>i table. table ! i"
  bimodal_predict bimodal_update
proof unfold_locales
  fix table :: bimodal and ip t i
  assume i: "bimodal_inv table"
  then have v: "0 \<le> table ! bimodal_hash ip \<and> table ! bimodal_hash ip \<le> 3" using bimodal_hash_less [of ip]
    by (auto simp: bimodal_inv_def)
  then show "0 \<le> table ! bimodal_hash ip \<and> table ! bimodal_hash ip \<le> 3" .
  show "bimodal_predict ip table \<longleftrightarrow> 2 \<le> table ! bimodal_hash ip" by (simp add: bimodal_predict_def)
  have "set (bimodal_update ip t table) \<subseteq> insert (saturate t (table ! bimodal_hash ip)) (set table)"
    unfolding bimodal_update_eq by (rule set_update_subset_insert)
  with i v saturate_range [of "table ! bimodal_hash ip" t] show "bimodal_inv (bimodal_update ip t table)"
    by (auto simp: bimodal_inv_def bimodal_update_eq)
  show "bimodal_update ip t table ! i = (if i = bimodal_hash ip then saturate t (table ! i) else table ! i)"
    using i bimodal_hash_less [of ip] by (simp add: bimodal_update_eq bimodal_inv_def)
qed

lemma bimodal_inv_initialize: "bimodal_inv bimodal_initialize"
  by (simp add: bimodal_inv_def bimodal_initialize_def)

lemma bimodal_slots: "bimodal_counters.slots brs s = map (\<lambda>(ip, t). (bimodal_hash ip, t)) brs"
  by (induction brs arbitrary: s) auto

subsection \<open>The gshare table\<close>

definition gshare_inv :: "gshare \<Rightarrow> bool" where
  "gshare_inv g \<longleftrightarrow> length (gs_history_table g) = GS_HISTORY_TABLE_SIZE
     \<and> (\<forall>v \<in> set (gs_history_table g). 0 \<le> v \<and> v \<le> 3)"

abbreviation gs_slot :: "u64 \<Rightarrow> gshare \<Rightarrow> nat" where
  "gs_slot ip g \<equiv> gs_table_hash ip (branch_history_vector g)"

lemma gs_table_hash_less: "gs_table_hash ip h < 16384"
  by (simp add: gs_table_hash_def Let_def)

interpretation gshare_counters: counter_predictor gshare_inv gs_slot "\<lambda>i g. gs_history_table g ! i"
  "\<lambda>ip g. fst (gshare_predict ip g)" gshare_update
proof unfold_locales
  fix g ip t i
  assume i: "gshare_inv g"
  let ?h = "gs_slot ip g"
  have v: "0 \<le> gs_history_table g ! ?h \<and> gs_history_table g ! ?h \<le> 3"
    using i gs_table_hash_less [of ip "branch_history_vector g"] by (auto simp: gshare_inv_def)
  then show "0 \<le> gs_history_table g ! ?h \<and> gs_history_table g ! ?h \<le> 3" .
  show "fst (gshare_predict ip g) \<longleftrightarrow> 2 \<le> gs_history_table g ! ?h" by (simp add: gshare_predict_def Let_def)
  have t: "gs_history_table (gshare_update ip t g) = (gs_history_table g)[?h := saturate t (gs_history_table g ! ?h)]"
  proof -
    have e: "(if t then if x < 3 then x + 1 else x else if x > 0 then x - 1 else x) = saturate t x" if "0 \<le> x \<and> x \<le> 3" for x
      using that by (auto simp: saturate_def)
    show ?thesis unfolding gshare_update_def Let_def e [OF v] by simp
  qed
  have "set (gs_history_table (gshare_update ip t g)) \<subseteq> insert (saturate t (gs_history_table g ! ?h)) (set (gs_history_table g))"
    unfolding t by (rule set_update_subset_insert)
  with i v saturate_range [of "gs_history_table g ! ?h" t] t show "gshare_inv (gshare_update ip t g)"
    by (auto simp: gshare_inv_def)
  show "gs_history_table (gshare_update ip t g) ! i
      = (if i = ?h then saturate t (gs_history_table g ! i) else gs_history_table g ! i)"
    using i gs_table_hash_less [of ip "branch_history_vector g"] by (simp add: t gshare_inv_def)
qed

lemma gshare_inv_initialize: "gshare_inv gshare_initialize"
  by (simp add: gshare_inv_def gshare_initialize_def)

lemma gshare_history_step:
  "bit (branch_history_vector (gshare_update ip t g)) k \<longleftrightarrow>
     k < 14 \<and> (case k of 0 \<Rightarrow> t | Suc j \<Rightarrow> bit (branch_history_vector g) j) \<and> k < 32"
proof -
  have m: "push_bit 14 1 - 1 = (mask 14 :: u32)" by (simp add: mask_eq_exp_minus_1 push_bit_eq_mult)
  have p: "bit (push_bit 1 (h :: u32)) k \<longleftrightarrow> 1 \<le> k \<and> k < 32 \<and> bit h (k - 1)" for h
    by (auto simp: bit_push_bit_iff simp del: push_bit_of_1 push_bit_Suc One_nat_def)
  have b: "branch_history_vector (gshare_update ip t g) = (push_bit 1 (branch_history_vector g) AND mask 14) OR of_bool t"
    unfolding gshare_update_def Let_def m by simp
  show ?thesis
    unfolding b bit_or_iff bit_and_iff p bit_mask_iff
    by (cases k) (auto simp: bit_simps)
qed

lemma gshare_history_resolve:
  "bit (branch_history_vector (gshare_counters.resolve brs g)) k \<longleftrightarrow>
     (if k < length brs then k < 14 \<and> snd (rev brs ! k)
      else if brs = [] then bit (branch_history_vector g) k
      else k < 14 \<and> bit (branch_history_vector g) (k - length brs))"
proof (induction brs arbitrary: k rule: rev_induct)
  case (snoc b brs)
  obtain ip t where b: "b = (ip, t)" by (cases b)
  have r: "gshare_counters.resolve (brs @ [b]) g = gshare_update ip t (gshare_counters.resolve brs g)"
    using b by (induction brs arbitrary: g) auto
  show ?case
    unfolding r gshare_history_step using snoc b by (cases k) (auto simp: nth_append)
qed simp

section \<open>Properties\<close>

text \<open>
  The bimodal predictor learns: whatever branches it has seen since it was
  initialised, if the last two of those that share the counter of \<open>ip\<close> had
  outcome \<open>t\<close>, it predicts \<open>t\<close> for \<open>ip\<close>.
\<close>

theorem bimodal_learns_after_two:
  assumes "map snd (filter (\<lambda>(ip', _). bimodal_hash ip' = bimodal_hash ip) brs) = ts @ [t, t]"
  shows "bimodal_predict ip (fold (\<lambda>(ip, t). bimodal_update ip t) brs bimodal_initialize) \<longleftrightarrow> t"
proof -
  have f: "fold (\<lambda>(ip, t). bimodal_update ip t) brs s = bimodal_counters.resolve brs s" for s
    by (induction brs arbitrary: s) auto
  have "map snd (filter (\<lambda>(j, _). j = bimodal_hash ip) (bimodal_counters.slots brs bimodal_initialize)) = ts @ [t, t]"
    using assms by (simp add: bimodal_slots filter_map comp_def case_prod_unfold)
  moreover have "0 \<le> bimodal_initialize ! bimodal_hash ip \<and> bimodal_initialize ! bimodal_hash ip \<le> 3"
    using bimodal_hash_less [of ip] by (simp add: bimodal_initialize_def)
  ultimately show ?thesis
    unfolding f using bimodal_counters.learns [OF bimodal_inv_initialize, of ip brs ts t] by simp
qed

theorem bimodal_learns_after_two_witness:
  "bimodal_predict 4096 (fold (\<lambda>(ip, t). bimodal_update ip t)
     [(4096, True), (8192, False), (4096, True)] bimodal_initialize)"
  using bimodal_learns_after_two [of 4096 "[(4096, True), (8192, False), (4096, True)]" "[]" True]
  by (simp add: bimodal_hash_def)

text \<open>
  C31: The history register of gshare holds the outcomes of the last fourteen
  branches, the most recent one in bit 0, and nothing else; and every counter
  stays between 0 and 3.
\<close>

theorem gshare_history_is_last_outcomes:
  "(bit (branch_history_vector (fold (\<lambda>(ip, t). gshare_update ip t) brs gshare_initialize)) k
     \<longleftrightarrow> k < 14 \<and> k < length brs \<and> snd (rev brs ! k))
   \<and> gshare_inv (fold (\<lambda>(ip, t). gshare_update ip t) brs gshare_initialize)"
proof -
  have f: "fold (\<lambda>(ip, t). gshare_update ip t) brs s = gshare_counters.resolve brs s" for s
    by (induction brs arbitrary: s) auto
  show ?thesis
    unfolding f gshare_history_resolve
    using gshare_counters.resolve_keeps [OF gshare_inv_initialize] by (auto simp: gshare_initialize_def)
qed

end
