(* ===== verification/Perceptron.thy ===== *)
theory Perceptron
  imports Util
begin

text \<open>
  The predictor \<open>branch/perceptron\<close>.  The state is that of one core.  A
  \<open>std::bitset\<close> of 24 bits is a word of that width, and the weights, \<open>int\<close> in
  the source, are integers: the bounds below show that no addition leaves the
  range of a 32-bit \<open>int\<close>.
\<close>

abbreviation (input) PERCEPTRON_HISTORY :: nat where "PERCEPTRON_HISTORY \<equiv> 24"
abbreviation (input) PERCEPTRON_BITS :: nat where "PERCEPTRON_BITS \<equiv> 8"
abbreviation (input) NUM_PERCEPTRONS :: nat where "NUM_PERCEPTRONS \<equiv> 163"
abbreviation (input) NUM_UPDATE_ENTRIES :: nat where "NUM_UPDATE_ENTRIES \<equiv> 100"

type_synonym history = "24 word"

definition THETA :: int where
  "THETA = 193 * int PERCEPTRON_HISTORY div 100 + 14"

section \<open>A perceptron\<close>

record perceptron =
  bias :: int
  weights :: "int list"

definition perceptron_new :: perceptron where
  "perceptron_new = \<lparr>bias = 0, weights = replicate PERCEPTRON_HISTORY 0\<rparr>"

definition max_weight :: int where
  "max_weight = 2 ^ (PERCEPTRON_BITS - 1) - 1"

definition min_weight :: int where
  "min_weight = - (max_weight + 1)"

definition perceptron_predict :: "history \<Rightarrow> perceptron \<Rightarrow> int" where
  "perceptron_predict history p =
     fold (\<lambda>i output. if bit history i then output + weights p ! i else output - weights p ! i)
       [0..<PERCEPTRON_HISTORY] (bias p)"

definition bump :: "bool \<Rightarrow> int \<Rightarrow> int" where
  "bump up w = (if up then min (w + 1) max_weight else max (w - 1) min_weight)"

definition perceptron_update :: "bool \<Rightarrow> history \<Rightarrow> perceptron \<Rightarrow> perceptron" where
  "perceptron_update result history p =
     (let upd_mask = (if result then history else NOT history) in
      \<lparr>bias = bump result (bias p),
       weights = fold (\<lambda>i ws. ws[i := bump (bit upd_mask i) (ws ! i)]) [0..<PERCEPTRON_HISTORY] (weights p)\<rparr>)"

section \<open>The predictor\<close>

record perceptron_state =
  ps_ip :: u64
  ps_prediction :: bool
  ps_output :: int
  ps_history :: history

record perceptron_predictor =
  perceptrons :: "perceptron list"
  perceptron_state_buf :: "perceptron_state list"
  spec_global_history :: history
  global_history :: history

definition perceptron_initialize :: perceptron_predictor where
  "perceptron_initialize =
     \<lparr>perceptrons = replicate NUM_PERCEPTRONS perceptron_new, perceptron_state_buf = [],
      spec_global_history = 0, global_history = 0\<rparr>"

definition shift_in :: "bool \<Rightarrow> history \<Rightarrow> history" where
  "shift_in b h = (if b then set_bit 0 (push_bit 1 h) else unset_bit 0 (push_bit 1 h))"

definition perceptron_predict_branch :: "u64 \<Rightarrow> perceptron_predictor \<Rightarrow> bool \<times> perceptron_predictor" where
  "perceptron_predict_branch ip s =
     (let index = unat ip mod NUM_PERCEPTRONS;
          output = perceptron_predict (spec_global_history s) (perceptrons s ! index);
          prediction = output \<ge> 0;
          buf = perceptron_state_buf s @
            [\<lparr>ps_ip = ip, ps_prediction = prediction, ps_output = output, ps_history = spec_global_history s\<rparr>];
          buf = (if length buf > NUM_UPDATE_ENTRIES then tl buf else buf)
      in (prediction, s\<lparr>perceptron_state_buf := buf,
                        spec_global_history := shift_in prediction (spec_global_history s)\<rparr>))"

definition perceptron_last_branch_result :: "u64 \<Rightarrow> bool \<Rightarrow> perceptron_predictor \<Rightarrow> perceptron_predictor" where
  "perceptron_last_branch_result ip taken s =
     (let buf = perceptron_state_buf s; k = find_if (\<lambda>x. ps_ip x = ip) buf in
      if k = length buf then s
      else
        let st = buf ! k; index = unat ip mod NUM_PERCEPTRONS;
            s = s\<lparr>perceptron_state_buf := take k buf @ drop (Suc k) buf,
                  global_history := shift_in taken (global_history s)\<rparr>;
            s = (if ps_prediction st \<noteq> taken then s\<lparr>spec_global_history := global_history s\<rparr> else s)
        in if (ps_output st \<le> THETA \<and> ps_output st \<ge> - THETA) \<or> ps_prediction st \<noteq> taken
           then s\<lparr>perceptrons := (perceptrons s)[index := perceptron_update taken (ps_history st) (perceptrons s ! index)]\<rparr>
           else s)"

section \<open>Weights\<close>

lemma weight_values: "max_weight = 127" "min_weight = - 128" "THETA = 60"
  by (simp_all add: max_weight_def min_weight_def THETA_def)

definition weight_ok :: "int \<Rightarrow> bool" where
  "weight_ok w \<longleftrightarrow> min_weight \<le> w \<and> w \<le> max_weight"

definition perceptron_ok :: "perceptron \<Rightarrow> bool" where
  "perceptron_ok p \<longleftrightarrow> length (weights p) = PERCEPTRON_HISTORY \<and> weight_ok (bias p) \<and> (\<forall>w \<in> set (weights p). weight_ok w)"

lemma bump_ok: "weight_ok w \<Longrightarrow> weight_ok (bump up w)"
  by (auto simp: weight_ok_def bump_def weight_values)

lemma fold_update_nth:
  "length (fold (\<lambda>i ws. ws[i := f i (ws ! i)]) ks ws) = length ws"
  "distinct ks \<Longrightarrow> j < length ws \<Longrightarrow> fold (\<lambda>i ws. ws[i := f i (ws ! i)]) ks ws ! j
     = (if j \<in> set ks then f j (ws ! j) else ws ! j)"
proof (induction ks arbitrary: ws)
  case (Cons a ks)
  case 1
  show ?case using Cons(1) by simp
next
  case (Cons a ks)
  case 2
  then show ?case using Cons(2) [of "ws[a := f a (ws ! a)]"] by (cases "j = a") auto
qed auto

lemma weights_update:
  assumes "length (weights p) = 24"
  shows "length (weights (perceptron_update r h p)) = 24"
    "i < 24 \<Longrightarrow> weights (perceptron_update r h p) ! i = bump (bit h i = r) (weights p ! i)"
    "bias (perceptron_update r h p) = bump r (bias p)"
  using assms fold_update_nth [where f = "\<lambda>i. bump (bit (if r then h else NOT h) i)" and ks = "[0..<24]" and ws = "weights p"]
  by (auto simp: perceptron_update_def Let_def bit_simps)

lemma perceptron_ok_update: "perceptron_ok p \<Longrightarrow> perceptron_ok (perceptron_update r h p)"
proof -
  assume p: "perceptron_ok p"
  then have l: "length (weights p) = 24" by (simp add: perceptron_ok_def)
  have "weight_ok w" if w: "w \<in> set (weights (perceptron_update r h p))" for w
  proof -
    from w obtain i where i: "i < 24" "w = weights (perceptron_update r h p) ! i"
      using weights_update(1) [OF l] by (auto simp: in_set_conv_nth)
    with p l have "weight_ok (weights p ! i)" by (simp add: perceptron_ok_def)
    with i weights_update(2) [OF l i(1)] show ?thesis by (simp add: bump_ok)
  qed
  with p weights_update(1,3) [OF l] show ?thesis by (simp add: perceptron_ok_def bump_ok)
qed

text \<open>The output is the bias plus the signed sum of the weights.\<close>

definition sgn_bit :: "bool \<Rightarrow> int" where
  "sgn_bit b = (if b then 1 else - 1)"

lemma perceptron_predict_sum:
  "perceptron_predict h p = bias p + (\<Sum>i<24. sgn_bit (bit h i) * weights p ! i)"
proof -
  have "fold (\<lambda>i output. if bit h i then output + weights p ! i else output - weights p ! i) [0..<n] b
      = b + (\<Sum>i<n. sgn_bit (bit h i) * weights p ! i)" for n b
    by (induction n arbitrary: b) (auto simp: sgn_bit_def)
  then show ?thesis by (simp only: perceptron_predict_def)
qed

lemma perceptron_output_bound:
  assumes "perceptron_ok p"
  shows "\<bar>perceptron_predict h p\<bar> \<le> 3200"
proof -
  have w: "\<bar>sgn_bit (bit h i) * weights p ! i\<bar> \<le> 128" if "i < 24" for i
  proof -
    have "weight_ok (weights p ! i)" using assms that by (simp add: perceptron_ok_def)
    then show ?thesis by (auto simp: weight_ok_def weight_values sgn_bit_def)
  qed
  have "\<bar>\<Sum>i<24. sgn_bit (bit h i) * weights p ! i\<bar> \<le> (\<Sum>i<24. \<bar>sgn_bit (bit h i) * weights p ! i\<bar>)"
    by (rule sum_abs)
  also have "\<dots> \<le> (\<Sum>i<24::nat. 128)" using w by (intro sum_mono) simp
  finally have "\<bar>\<Sum>i<24. sgn_bit (bit h i) * weights p ! i\<bar> \<le> 3072" by simp
  moreover have "\<bar>bias p\<bar> \<le> 128" using assms by (auto simp: perceptron_ok_def weight_ok_def weight_values)
  ultimately show ?thesis unfolding perceptron_predict_sum by linarith
qed

text \<open>The weights that training with \<open>r\<close> on history \<open>h\<close> can still move.\<close>

definition movable :: "bool \<Rightarrow> int \<Rightarrow> bool" where
  "movable up w \<longleftrightarrow> w \<noteq> (if up then max_weight else min_weight)"

lemma bump_gain: "weight_ok w \<Longrightarrow> sgn_bit up * (bump up w - w) = of_bool (movable up w)"
  by (auto simp: weight_ok_def bump_def sgn_bit_def movable_def weight_values)

lemma training_gain:
  assumes "perceptron_ok p"
  shows "sgn_bit r * (perceptron_predict h (perceptron_update r h p) - perceptron_predict h p)
    = of_bool (movable r (bias p)) + (\<Sum>i<24. of_bool (movable (bit h i = r) (weights p ! i)))"
proof -
  have l: "length (weights p) = 24" and b: "weight_ok (bias p)" and ws: "\<And>i. i < 24 \<Longrightarrow> weight_ok (weights p ! i)"
    using assms by (auto simp: perceptron_ok_def)
  let ?q = "perceptron_update r h p"
  have s: "sgn_bit r * sgn_bit x = sgn_bit (x = r)" for x by (simp add: sgn_bit_def)
  have "sgn_bit r * (perceptron_predict h ?q - perceptron_predict h p)
      = sgn_bit r * (bias ?q - bias p) + (\<Sum>i<24. sgn_bit r * (sgn_bit (bit h i) * (weights ?q ! i - weights p ! i)))"
    by (simp add: perceptron_predict_sum algebra_simps sum_subtractf sum_distrib_left)
  also have "(\<Sum>i<24. sgn_bit r * (sgn_bit (bit h i) * (weights ?q ! i - weights p ! i)))
      = (\<Sum>i<24. of_bool (movable (bit h i = r) (weights p ! i)))"
  proof (rule sum.cong)
    fix i :: nat assume "i \<in> {..<24}"
    then have "weights ?q ! i = bump (bit h i = r) (weights p ! i)" "weight_ok (weights p ! i)"
      using weights_update(2) [OF l] ws by simp_all
    then show "sgn_bit r * (sgn_bit (bit h i) * (weights ?q ! i - weights p ! i)) = of_bool (movable (bit h i = r) (weights p ! i))"
      by (simp add: bump_gain mult.assoc [symmetric] s)
  qed simp
  also have "sgn_bit r * (bias ?q - bias p) = of_bool (movable r (bias p))"
    using weights_update(3) [OF l, of r h] bump_gain [OF b, of r] by simp
  finally show ?thesis .
qed

section \<open>Predictor runs\<close>

definition predictor_ok :: "perceptron_predictor \<Rightarrow> bool" where
  "predictor_ok s \<longleftrightarrow> length (perceptrons s) = NUM_PERCEPTRONS \<and> (\<forall>p \<in> set (perceptrons s). perceptron_ok p)
     \<and> length (perceptron_state_buf s) \<le> NUM_UPDATE_ENTRIES"

datatype branch_event = Predict u64 | Resolve u64 bool

fun perceptron_event :: "branch_event \<Rightarrow> perceptron_predictor \<Rightarrow> perceptron_predictor" where
  "perceptron_event (Predict ip) s = snd (perceptron_predict_branch ip s)"
| "perceptron_event (Resolve ip t) s = perceptron_last_branch_result ip t s"

lemma predictor_ok_event:
  assumes "predictor_ok s"
  shows "predictor_ok (perceptron_event e s)"
proof (cases e)
  case (Predict ip)
  with assms show ?thesis by (auto simp: predictor_ok_def perceptron_predict_branch_def Let_def)
next
  case (Resolve ip t)
  let ?buf = "perceptron_state_buf s"
  let ?k = "find_if (\<lambda>x. ps_ip x = ip) ?buf" and ?i = "unat ip mod 163"
  have q: "perceptron_ok (perceptron_update t h (perceptrons s ! ?i))" for h
    using assms by (intro perceptron_ok_update) (simp add: predictor_ok_def)
  have "\<forall>p \<in> set ((perceptrons s)[?i := perceptron_update t h (perceptrons s ! ?i)]). perceptron_ok p" for h
    using set_update_subset_insert [of "perceptrons s" ?i "perceptron_update t h (perceptrons s ! ?i)"] q [of h] assms
    by (auto simp: predictor_ok_def)
  moreover have "length (take ?k ?buf @ drop (Suc ?k) ?buf) \<le> 100"
    using assms by (auto simp: predictor_ok_def min_def)
  ultimately show ?thesis
    using Resolve assms by (simp add: perceptron_last_branch_result_def Let_def predictor_ok_def)
qed

lemma predictor_ok_initialize: "predictor_ok perceptron_initialize"
  by (simp add: predictor_ok_def perceptron_initialize_def perceptron_ok_def perceptron_new_def weight_ok_def weight_values)

lemma predictor_ok_run: "predictor_ok s \<Longrightarrow> predictor_ok (fold perceptron_event es s)"
  by (induction es arbitrary: s) (auto simp: predictor_ok_event)

text \<open>A branch that is resolved before the next one is predicted, as the core does it.\<close>

definition predict_resolve :: "u64 \<times> bool \<Rightarrow> perceptron_predictor \<Rightarrow> perceptron_predictor" where
  "predict_resolve br s = (case br of (ip, t) \<Rightarrow> perceptron_last_branch_result ip t (snd (perceptron_predict_branch ip s)))"

definition in_order :: "perceptron_predictor \<Rightarrow> bool" where
  "in_order s \<longleftrightarrow> perceptron_state_buf s = [] \<and> spec_global_history s = global_history s"

lemma predict_resolve_in_order:
  assumes "in_order s"
  shows "in_order (predict_resolve (ip, t) s) \<and> global_history (predict_resolve (ip, t) s) = shift_in t (global_history s)"
  using assms by (auto simp: in_order_def predict_resolve_def perceptron_predict_branch_def
      perceptron_last_branch_result_def Let_def)

lemma bit_shift_in: "bit (shift_in b h) k \<longleftrightarrow> k < 24 \<and> (case k of 0 \<Rightarrow> b | Suc j \<Rightarrow> bit h j)"
proof -
  have "bit (push_bit 1 h) k \<longleftrightarrow> 1 \<le> k \<and> k < 24 \<and> bit h (k - 1)"
    by (auto simp: bit_push_bit_iff simp del: push_bit_Suc One_nat_def)
  then show ?thesis
    unfolding shift_in_def by (cases k) (auto simp: bit_set_bit_iff bit_unset_bit_iff simp del: push_bit_Suc)
qed

section \<open>Properties\<close>

text \<open>
  C32: Under any interleaving of predictions and results, every weight stays in
  the range of a signed byte, the output of every perceptron stays between
  -3200 and 3200, so that no \<open>int\<close> overflows, and the buffer of unresolved
  predictions never exceeds its bound.
\<close>

theorem perceptron_stays_in_range:
  "predictor_ok (fold perceptron_event es perceptron_initialize)
   \<and> \<bar>perceptron_predict h (perceptrons (fold perceptron_event es perceptron_initialize) ! (unat (ip :: u64) mod NUM_PERCEPTRONS))\<bar> \<le> 3200"
proof -
  let ?s = "fold perceptron_event es perceptron_initialize"
  have ok: "predictor_ok ?s" by (rule predictor_ok_run [OF predictor_ok_initialize])
  then have "perceptron_ok (perceptrons ?s ! (unat ip mod 163))" by (simp add: predictor_ok_def)
  with ok perceptron_output_bound show ?thesis by simp
qed

text \<open>
  Training a perceptron on a history moves its output for that history
  towards the outcome by one for each weight that is not saturated in that
  direction, and never away from it.
\<close>

theorem perceptron_training_moves_output:
  assumes "perceptron_ok p"
  shows "sgn_bit r * (perceptron_predict h (perceptron_update r h p) - perceptron_predict h p)
    = of_bool (movable r (bias p)) + (\<Sum>i<24. of_bool (movable (bit h i = r) (weights p ! i)))"
  using training_gain [OF assms] .

theorem perceptron_training_moves_output_witness:
  "perceptron_predict 5 (perceptron_update True 5 perceptron_new) - perceptron_predict 5 perceptron_new = 25"
proof -
  have ok: "perceptron_ok perceptron_new" by (simp add: perceptron_ok_def perceptron_new_def weight_ok_def weight_values)
  have "movable up 0" for up by (simp add: movable_def weight_values)
  with perceptron_training_moves_output [OF ok, of True 5] show ?thesis
    by (simp add: sgn_bit_def perceptron_new_def)
qed

text \<open>
  When every branch is resolved before the next is predicted, as the core
  does, the speculative history never differs from the real one, no prediction
  is left in the buffer, and bit \<open>k\<close> of the history is the outcome of the
  branch \<open>k\<close> before the last, for the last 24 branches.
\<close>

theorem perceptron_history_is_exact:
  "in_order (fold predict_resolve brs perceptron_initialize)
   \<and> (bit (spec_global_history (fold predict_resolve brs perceptron_initialize)) k
        \<longleftrightarrow> k < 24 \<and> k < length brs \<and> snd (rev brs ! k))"
proof (induction brs arbitrary: k rule: rev_induct)
  case Nil
  then show ?case by (simp add: in_order_def perceptron_initialize_def)
next
  case (snoc b brs)
  let ?s = "fold predict_resolve brs perceptron_initialize"
  obtain ip t where b: "b = (ip, t)" by (cases b)
  have io: "in_order ?s" using snoc by blast
  have IH: "bit (spec_global_history ?s) j \<longleftrightarrow> j < 24 \<and> j < length brs \<and> snd (rev brs ! j)" for j
    using snoc by blast
  note step = predict_resolve_in_order [OF io, of ip t]
  then have h: "spec_global_history (predict_resolve b ?s) = shift_in t (spec_global_history ?s)"
    using io b by (simp add: in_order_def)
  have "bit (spec_global_history (predict_resolve b ?s)) k \<longleftrightarrow> k < 24 \<and> k < length (brs @ [b]) \<and> snd (rev (brs @ [b]) ! k)"
    unfolding h bit_shift_in by (cases k) (auto simp: IH b)
  with step b show ?case by simp
qed

end
