(* ===== verification/HashedPerceptron.thy ===== *)
theory HashedPerceptron
  imports Util
begin

text \<open>
  The predictor \<open>branch/hashed_perceptron\<close>: sixteen tables of weights, each
  indexed by a hash of the program counter and of a prefix of the global
  history whose length grows geometrically.  The history is kept in words of
  twelve bits, bit \<open>k\<close> of the history being bit \<open>k mod 12\<close> of word
  \<open>k div 12\<close>.  The state is that of one core.
\<close>

abbreviation (input) NTABLES :: nat where "NTABLES \<equiv> 16"
abbreviation (input) MAXHIST :: nat where "MAXHIST \<equiv> 232"
abbreviation (input) SPEED :: int where "SPEED \<equiv> 18"
abbreviation (input) LOG_TABLE_SIZE :: nat where "LOG_TABLE_SIZE \<equiv> 12"
abbreviation (input) TABLE_SIZE :: nat where "TABLE_SIZE \<equiv> 4096"
abbreviation (input) NGHIST_WORDS :: nat where "NGHIST_WORDS \<equiv> 20"

definition history_lengths :: "nat list" where
  "history_lengths = [0, 3, 4, 6, 8, 10, 14, 19, 26, 36, 49, 67, 91, 125, 170, MAXHIST]"

record hashed_perceptron =
  hp_tables :: "int list list"
  ghist_words :: "u32 list"
  hp_indices :: "nat list"
  hp_theta :: int
  hp_tc :: int
  hp_yout :: int

definition hp_initialize :: hashed_perceptron where
  "hp_initialize =
     \<lparr>hp_tables = replicate NTABLES (replicate TABLE_SIZE 0), ghist_words = replicate NGHIST_WORDS 0,
      hp_indices = replicate NTABLES 0, hp_theta = 10, hp_tc = 0, hp_yout = 0\<rparr>"

definition hp_index :: "nat \<Rightarrow> u64 \<Rightarrow> u32 list \<Rightarrow> nat" where
  "hp_index n pc words =
     (let most_words = n div LOG_TABLE_SIZE; last_word = n mod LOG_TABLE_SIZE;
          x = fold (\<lambda>j x. x XOR words ! j) [0..<most_words] 0;
          x = x XOR (words ! most_words AND (push_bit last_word 1 - 1));
          x = (ucast (ucast x XOR pc) :: u32);
          x = x AND (4096 - 1)
      in unat x)"

definition hp_predict :: "u64 \<Rightarrow> hashed_perceptron \<Rightarrow> bool \<times> hashed_perceptron" where
  "hp_predict pc s =
     (let idx = map (\<lambda>i. hp_index (history_lengths ! i) pc (ghist_words s)) [0..<NTABLES];
          y = fold (\<lambda>i y. y + hp_tables s ! i ! (idx ! i)) [0..<NTABLES] 0
      in (y \<ge> 1, s\<lparr>hp_indices := idx, hp_yout := y\<rparr>))"

fun shift_words :: "bool \<Rightarrow> u32 list \<Rightarrow> u32 list" where
  "shift_words b [] = []"
| "shift_words b (w # ws) =
     (let w = push_bit 1 w; w = w OR of_bool b; b = (w AND 4096 \<noteq> 0) in (w AND (4096 - 1)) # shift_words b ws)"

definition train_weight :: "bool \<Rightarrow> int \<Rightarrow> int" where
  "train_weight taken c = (if taken then if c < 127 then c + 1 else c else if c > - 128 then c - 1 else c)"

definition hp_update :: "bool \<Rightarrow> hashed_perceptron \<Rightarrow> hashed_perceptron" where
  "hp_update taken s =
     (let correct = (taken = (hp_yout s \<ge> 1));
          s = s\<lparr>ghist_words := shift_words taken (ghist_words s)\<rparr>;
          a = (if hp_yout s < 0 then - hp_yout s else hp_yout s)
      in if \<not> correct \<or> a < hp_theta s then
           let s = s\<lparr>hp_tables := map (\<lambda>(t, k). t[k := train_weight taken (t ! k)]) (zip (hp_tables s) (hp_indices s))\<rparr>
           in if \<not> correct then
                let tc = hp_tc s + 1
                in if tc \<ge> SPEED then s\<lparr>hp_theta := hp_theta s + 1, hp_tc := 0\<rparr> else s\<lparr>hp_tc := tc\<rparr>
              else if a < hp_theta s then
                let tc = hp_tc s - 1
                in if tc \<le> - SPEED then s\<lparr>hp_theta := hp_theta s - 1, hp_tc := 0\<rparr> else s\<lparr>hp_tc := tc\<rparr>
              else s
         else s)"

section \<open>The history\<close>

definition hist_bit :: "u32 list \<Rightarrow> nat \<Rightarrow> bool" where
  "hist_bit words k = bit (words ! (k div 12)) (k mod 12)"

lemma mask_4096: "(4096 - 1 :: u32) = mask 12"
  by (simp add: mask_eq_exp_minus_1)

lemma bit_shifted:
  "bit ((push_bit 1 w OR of_bool b) AND mask 12) k \<longleftrightarrow> k < 12 \<and> (case k of 0 \<Rightarrow> b | Suc j \<Rightarrow> bit (w :: u32) j)"
proof -
  have p: "bit (push_bit 1 w) k \<longleftrightarrow> 1 \<le> k \<and> k < 32 \<and> bit w (k - 1)"
    by (auto simp: bit_push_bit_iff simp del: push_bit_Suc One_nat_def)
  show ?thesis unfolding bit_and_iff bit_or_iff p bit_mask_iff by (cases k) (auto simp: bit_simps)
qed

lemma and_4096_iff: "(x :: u32) AND 4096 \<noteq> 0 \<longleftrightarrow> bit x 12"
  using and_exp_eq_0_iff_not_bit [of x 12] by simp

lemma carry_out: "(push_bit 1 w OR of_bool b) AND 4096 \<noteq> 0 \<longleftrightarrow> bit (w :: u32) 11"
proof -
  have "bit (push_bit 1 w) 12 \<longleftrightarrow> bit w 11"
    by (subst bit_push_bit_iff) simp
  then show ?thesis unfolding and_4096_iff bit_or_iff by (simp add: bit_simps)
qed

lemma length_shift_words [simp]: "length (shift_words b ws) = length ws"
  by (induction ws arbitrary: b) (auto simp: Let_def)

text \<open>The words shifted as one register: each gets the outgoing bit of the one before.\<close>

lemma shift_words_nth:
  "i < length ws \<Longrightarrow> shift_words b ws ! i =
     (push_bit 1 (ws ! i) OR of_bool (if i = 0 then b else bit (ws ! (i - 1)) 11)) AND mask 12"
proof (induction ws arbitrary: b i)
  case (Cons w ws)
  have s: "shift_words b (w # ws) = ((push_bit 1 w OR of_bool b) AND mask 12) # shift_words (bit w 11) ws"
    unfolding shift_words.simps Let_def carry_out mask_4096 by (rule refl)
  show ?case
  proof (cases i)
    case (Suc j)
    with Cons.prems Cons.IH [of j "bit w 11"] show ?thesis unfolding s by (cases j) auto
  next
    case 0
    show ?thesis unfolding s 0 by simp
  qed
qed simp

lemma hist_bit_shift:
  assumes "k < 12 * length ws"
  shows "hist_bit (shift_words b ws) k \<longleftrightarrow> (case k of 0 \<Rightarrow> b | Suc j \<Rightarrow> hist_bit ws j)"
proof -
  have i: "k div 12 < length ws" using assms by (simp add: less_mult_imp_div_less mult.commute)
  show ?thesis
  proof (cases k)
    case 0
    show ?thesis unfolding hist_bit_def shift_words_nth [OF i] bit_shifted by (simp add: 0)
  next
    case (Suc j)
    have j: "j mod 12 < 12" by simp
    show ?thesis
    proof (cases "Suc (j mod 12) = 12")
      case True
      then have "k mod 12 = 0" "k div 12 = Suc (j div 12)" "j mod 12 = 11" by (simp_all add: Suc mod_Suc div_Suc)
      then show ?thesis unfolding hist_bit_def shift_words_nth [OF i] bit_shifted by (simp add: Suc)
    next
      case False
      then have "k mod 12 = Suc (j mod 12)" "k div 12 = j div 12" by (simp_all add: Suc mod_Suc div_Suc)
      moreover have "j mod 12 < 11" using False j by linarith
      ultimately show ?thesis unfolding hist_bit_def shift_words_nth [OF i] bit_shifted by (simp add: Suc)
    qed
  qed
qed

text \<open>The index of a table depends on the bits of its history length only.\<close>

lemma bit_fold_xor_cong:
  "(\<And>j. j < m \<Longrightarrow> bit (us ! j) k = bit (vs ! j) k) \<Longrightarrow>
   bit (fold (\<lambda>j x. x XOR us ! j) [0..<m] (0 :: u32)) k = bit (fold (\<lambda>j x. x XOR vs ! j) [0..<m] 0) k"
  by (induction m) (auto simp: bit_xor_iff)

lemma hp_index_cong:
  assumes "\<And>k. k < n \<Longrightarrow> hist_bit us k = hist_bit vs k"
  shows "hp_index n pc us = hp_index n pc vs"
proof -
  let ?m = "n div 12" and ?l = "n mod 12"
  have word: "bit (us ! j) k = bit (vs ! j) k" if "12 * j + k < n" "k < 12" for j k
    using assms [of "12 * j + k"] that by (simp add: hist_bit_def)
  have full: "bit (fold (\<lambda>j x. x XOR us ! j) [0..<?m] 0) k = bit (fold (\<lambda>j x. x XOR vs ! j) [0..<?m] 0) k" if "k < 12" for k
  proof (rule bit_fold_xor_cong)
    fix j assume "j < ?m"
    then have "12 * Suc j \<le> 12 * ?m" by (intro mult_le_mono2) simp
    also have "12 * ?m \<le> n" by simp
    finally have "12 * j + k < n" using that by simp
    with that show "bit (us ! j) k = bit (vs ! j) k" by (intro word)
  qed
  have rest: "us ! ?m AND (push_bit ?l 1 - 1) = vs ! ?m AND (push_bit ?l 1 - 1)"
  proof -
    have m: "push_bit ?l 1 - 1 = (mask ?l :: u32)" by (simp add: mask_eq_exp_minus_1 push_bit_eq_mult)
    have "bit (us ! ?m) k = bit (vs ! ?m) k" if "k < ?l" for k
    proof (rule word)
      show "12 * ?m + k < n" using that by (metis add_less_cancel_left mult_div_mod_eq)
      show "k < 12" using that by (meson less_trans mod_less_divisor zero_less_numeral)
    qed
    then show ?thesis unfolding m by (intro bit_word_eqI) (auto simp: bit_simps)
  qed
  show ?thesis
    unfolding hp_index_def Let_def mask_4096 rest
    by (intro arg_cong [of _ _ unat] bit_word_eqI) (auto simp: bit_simps full)
qed

section \<open>Weights and threshold\<close>

definition hp_ok :: "hashed_perceptron \<Rightarrow> bool" where
  "hp_ok s \<longleftrightarrow> length (hp_tables s) = NTABLES \<and> length (hp_indices s) = NTABLES \<and> length (ghist_words s) = NGHIST_WORDS
     \<and> (\<forall>t \<in> set (hp_tables s). length t = TABLE_SIZE \<and> (\<forall>w \<in> set t. - 128 \<le> w \<and> w \<le> 127))
     \<and> (\<forall>k \<in> set (hp_indices s). k < TABLE_SIZE)
     \<and> 0 \<le> hp_theta s \<and> \<bar>hp_tc s\<bar> < SPEED \<and> \<bar>hp_yout s\<bar> \<le> 2048"

lemma train_weight_range: "- 128 \<le> w \<and> w \<le> 127 \<Longrightarrow> - 128 \<le> train_weight t w \<and> train_weight t w \<le> 127"
  by (auto simp: train_weight_def)

lemma hp_index_less: "hp_index n pc ws < 4096"
proof -
  have "unat (x AND (4096 - 1) :: u32) < 4096" for x
    unfolding mask_4096 take_bit_eq_mask [symmetric] using unat_take_bit [of 12 x] by simp
  then show ?thesis by (simp only: hp_index_def Let_def)
qed

lemma hp_ok_initialize: "hp_ok hp_initialize"
  by (simp add: hp_ok_def hp_initialize_def)

lemma hp_ok_predict:
  assumes "hp_ok s"
  shows "hp_ok (snd (hp_predict pc s))"
proof -
  let ?idx = "map (\<lambda>i. hp_index (history_lengths ! i) pc (ghist_words s)) [0..<16]"
  have w: "\<bar>hp_tables s ! i ! (?idx ! i)\<bar> \<le> 128" if "i < 16" for i
  proof -
    have "hp_tables s ! i \<in> set (hp_tables s)" "?idx ! i < 4096" using assms that hp_index_less by (auto simp: hp_ok_def)
    with assms have "hp_tables s ! i ! (?idx ! i) \<in> set (hp_tables s ! i)" "hp_tables s ! i \<in> set (hp_tables s)"
      by (auto simp: hp_ok_def)
    with assms show ?thesis by (fastforce simp: hp_ok_def)
  qed
  have "\<bar>fold (\<lambda>i y. y + hp_tables s ! i ! (?idx ! i)) [0..<n] 0\<bar> \<le> 128 * int n" if "n \<le> 16" for n
    using that
  proof (induction n)
    case (Suc n)
    then have "n < 16" by simp
    with Suc w [OF this] show ?case by simp
  qed simp
  from this [of 16] have "\<bar>hp_yout (snd (hp_predict pc s))\<bar> \<le> 2048" by (simp add: hp_predict_def Let_def)
  with assms hp_index_less show ?thesis
    by (auto simp: hp_ok_def hp_predict_def Let_def)
qed

lemma hp_ok_tables:
  assumes "hp_ok s" "t \<in> set (map (\<lambda>(t, k). t[k := train_weight taken (t ! k)]) (zip (hp_tables s) (hp_indices s)))"
  shows "length t = 4096 \<and> (\<forall>w \<in> set t. - 128 \<le> w \<and> w \<le> 127)"
proof -
  from assms(2) obtain u k where u: "(u, k) \<in> set (zip (hp_tables s) (hp_indices s))" "t = u[k := train_weight taken (u ! k)]"
    by auto
  have uk: "u \<in> set (hp_tables s)" "k \<in> set (hp_indices s)" using u(1) by (auto dest: set_zip_leftD set_zip_rightD)
  with assms(1) have l: "length u = 4096" "\<forall>w \<in> set u. - 128 \<le> w \<and> w \<le> 127" "k < 4096" by (auto simp: hp_ok_def)
  then have "- 128 \<le> train_weight taken (u ! k) \<and> train_weight taken (u ! k) \<le> 127" by (intro train_weight_range) simp
  with l u(2) set_update_subset_insert [of u k "train_weight taken (u ! k)"] show ?thesis by auto
qed

lemma hp_ok_update:
  assumes "hp_ok s"
  shows "hp_ok (hp_update t s)"
proof -
  let ?T = "map (\<lambda>(u, k). u[k := train_weight t (u ! k)]) (zip (hp_tables s) (hp_indices s))"
  let ?d = "hp_update t s"
  have T: "length ?T = 16" "\<forall>u \<in> set ?T. length u = 4096 \<and> (\<forall>w \<in> set u. - 128 \<le> w \<and> w \<le> 127)"
    using assms hp_ok_tables [OF assms] by (simp_all add: hp_ok_def)
  have tt: "0 \<le> hp_theta s" "hp_tc s < 18" "- 18 < hp_tc s" using assms by (auto simp: hp_ok_def)
  have same: "hp_indices ?d = hp_indices s" "hp_yout ?d = hp_yout s" "length (ghist_words ?d) = length (ghist_words s)"
    by (simp_all add: hp_update_def Let_def)
  have tc: "0 \<le> hp_theta ?d" "\<bar>hp_tc ?d\<bar> < 18"
    using tt by (auto simp: hp_update_def Let_def)
  have "hp_tables ?d = ?T \<or> hp_tables ?d = hp_tables s"
    by (auto simp: hp_update_def Let_def)
  then have "length (hp_tables ?d) = 16"
    "\<forall>u \<in> set (hp_tables ?d). length u = 4096 \<and> (\<forall>w \<in> set u. - 128 \<le> w \<and> w \<le> 127)"
    using T assms by (auto simp: hp_ok_def)
  with assms same tc show ?thesis by (simp add: hp_ok_def)
qed

lemma ghist_words_update: "ghist_words (hp_update t s) = shift_words t (ghist_words s)"
  by (simp add: hp_update_def Let_def)

lemma ghist_words_predict: "ghist_words (snd (hp_predict pc s)) = ghist_words s"
  by (simp add: hp_predict_def Let_def)

text \<open>A branch predicted and then resolved.\<close>

definition hp_branch :: "u64 \<times> bool \<Rightarrow> hashed_perceptron \<Rightarrow> hashed_perceptron" where
  "hp_branch br s = (case br of (pc, t) \<Rightarrow> hp_update t (snd (hp_predict pc s)))"

lemma hp_run:
  "hp_ok (fold hp_branch brs hp_initialize)
   \<and> (\<forall>k < 240. hist_bit (ghist_words (fold hp_branch brs hp_initialize)) k \<longleftrightarrow> k < length brs \<and> snd (rev brs ! k))"
proof (induction brs rule: rev_induct)
  case Nil
  have "bit (replicate 20 (0 :: u32) ! (k div 12)) j = False" if "k < 240" for k j
  proof -
    have "k div 12 < 20" using that by (simp add: less_mult_imp_div_less)
    then show ?thesis by (simp add: nth_replicate)
  qed
  then show ?case using hp_ok_initialize by (simp add: hist_bit_def hp_initialize_def)
next
  case (snoc b brs)
  let ?s = "fold hp_branch brs hp_initialize"
  obtain pc t where b: "b = (pc, t)" by (cases b)
  have br: "hp_branch b ?s = hp_update t (snd (hp_predict pc ?s))" by (simp add: b hp_branch_def)
  have ok: "hp_ok (hp_branch b ?s)" unfolding br using snoc by (intro hp_ok_update hp_ok_predict) blast
  have l: "length (ghist_words ?s) = 20" using snoc by (simp add: hp_ok_def)
  have w: "ghist_words (hp_branch b ?s) = shift_words t (ghist_words ?s)"
    unfolding br by (simp add: ghist_words_update ghist_words_predict)
  have IH: "hist_bit (ghist_words ?s) k \<longleftrightarrow> k < length brs \<and> snd (rev brs ! k)" if "k < 240" for k using snoc that by blast
  have "hist_bit (ghist_words (hp_branch b ?s)) k \<longleftrightarrow> k < length (brs @ [b]) \<and> snd (rev (brs @ [b]) ! k)" if "k < 240" for k
  proof -
    have "k < 12 * length (ghist_words ?s)" using that l by simp
    from hist_bit_shift [OF this, of t] show ?thesis unfolding w using that by (cases k) (auto simp: IH b)
  qed
  with ok show ?case by simp
qed

section \<open>Properties\<close>

text \<open>
  C33: The words of the global history, shifted one into the next, are one
  register of the last 240 outcomes, the most recent first; the weights stay in
  the range of a signed byte, the sum between -2048 and 2048, the threshold
  is never negative and its counter never reaches 18 in magnitude.
\<close>

theorem hashed_perceptron_history_and_ranges:
  assumes "k < 240"
  shows "(hist_bit (ghist_words (fold hp_branch brs hp_initialize)) k \<longleftrightarrow> k < length brs \<and> snd (rev brs ! k))
    \<and> hp_ok (fold hp_branch brs hp_initialize)"
  using hp_run [of brs] assms by blast

theorem hashed_perceptron_history_and_ranges_witness:
  "hist_bit (ghist_words (fold hp_branch [(4096, True), (8192, False)] hp_initialize)) 1
   \<and> \<not> hist_bit (ghist_words (fold hp_branch [(4096, True), (8192, False)] hp_initialize)) 0"
  using hashed_perceptron_history_and_ranges [of 1 "[(4096, True), (8192, False)]"]
    hashed_perceptron_history_and_ranges [of 0 "[(4096, True), (8192, False)]"] by simp

text \<open>
  The index into table \<open>i\<close> is a function of the program counter and of the
  last \<open>history_lengths ! i\<close> outcomes: two runs that agree on these select the
  same weight, however they differ before.
\<close>

theorem hashed_perceptron_index_uses_its_history:
  assumes "i < NTABLES" "history_lengths ! i \<le> length brs" "history_lengths ! i \<le> length brs'"
    and "map snd (take (history_lengths ! i) (rev brs)) = map snd (take (history_lengths ! i) (rev brs'))"
  shows "hp_indices (snd (hp_predict pc (fold hp_branch brs hp_initialize))) ! i
    = hp_indices (snd (hp_predict pc (fold hp_branch brs' hp_initialize))) ! i"
proof -
  let ?n = "history_lengths ! i"
  have "i \<in> set [0..<16]" using assms(1) by simp
  then have n: "?n < 240" by (auto simp: history_lengths_def upt_rec)
  have "hist_bit (ghist_words (fold hp_branch brs hp_initialize)) k = hist_bit (ghist_words (fold hp_branch brs' hp_initialize)) k"
    if k: "k < ?n" for k
  proof -
    have "map snd (take ?n (rev brs)) ! k = map snd (take ?n (rev brs')) ! k" using assms(4) by simp
    with k assms(2,3) have "snd (rev brs ! k) = snd (rev brs' ! k)" by simp
    with hp_run [of brs] hp_run [of brs'] k n assms(2,3) show ?thesis by simp
  qed
  then have "hp_index ?n pc (ghist_words (fold hp_branch brs hp_initialize))
      = hp_index ?n pc (ghist_words (fold hp_branch brs' hp_initialize))" by (rule hp_index_cong)
  with assms(1) show ?thesis by (simp add: hp_predict_def Let_def)
qed

theorem hashed_perceptron_index_uses_its_history_witness:
  "hp_indices (snd (hp_predict 4096 (fold hp_branch [(64, False), (4, True), (8, False), (12, True)] hp_initialize))) ! 1
   = hp_indices (snd (hp_predict 4096 (fold hp_branch [(64, True), (4, True), (8, False), (12, True)] hp_initialize))) ! 1"
  by (rule hashed_perceptron_index_uses_its_history) (simp_all add: history_lengths_def)

end
