(* ===== verification/Instruction.thy ===== *)
theory Instruction
  imports Memory
begin

text \<open>
  The instructions the cores execute: the performance model's record
  \<open>ooo_model_instr\<close> with the constructors that fill it from the three trace
  formats (\<open>inc/instruction.h\<close>, \<open>inc/trace_instruction.h\<close>, \<open>inc/qemutrace.h\<close>),
  and the entries of the load and store queues (\<open>inc/block.h\<close>).  Iterators into
  the reorder buffer are positions, iterators into the load and store queue are
  indices; a default-constructed iterator is \<open>None\<close>.
\<close>

section \<open>Registers and branch types\<close>

abbreviation (input) REG_STACK_POINTER :: u8 where "REG_STACK_POINTER \<equiv> 6"
abbreviation (input) REG_FLAGS :: u8 where "REG_FLAGS \<equiv> 25"
abbreviation (input) REG_INSTRUCTION_POINTER :: u8 where "REG_INSTRUCTION_POINTER \<equiv> 26"

abbreviation (input) NOT_BRANCH :: u8 where "NOT_BRANCH \<equiv> 0"
abbreviation (input) BRANCH_DIRECT_JUMP :: u8 where "BRANCH_DIRECT_JUMP \<equiv> 1"
abbreviation (input) BRANCH_INDIRECT :: u8 where "BRANCH_INDIRECT \<equiv> 2"
abbreviation (input) BRANCH_CONDITIONAL :: u8 where "BRANCH_CONDITIONAL \<equiv> 3"
abbreviation (input) BRANCH_DIRECT_CALL :: u8 where "BRANCH_DIRECT_CALL \<equiv> 4"
abbreviation (input) BRANCH_INDIRECT_CALL :: u8 where "BRANCH_INDIRECT_CALL \<equiv> 5"
abbreviation (input) BRANCH_RETURN :: u8 where "BRANCH_RETURN \<equiv> 6"
abbreviation (input) BRANCH_OTHER :: u8 where "BRANCH_OTHER \<equiv> 7"

abbreviation (input) NUM_INSTR_DESTINATIONS_SPARC :: nat where "NUM_INSTR_DESTINATIONS_SPARC \<equiv> 2"
abbreviation (input) NUM_INSTR_DESTINATIONS :: nat where "NUM_INSTR_DESTINATIONS \<equiv> 2"
abbreviation (input) NUM_INSTR_SOURCES :: nat where "NUM_INSTR_SOURCES \<equiv> 4"

section \<open>Instructions\<close>

record ooo_model_instr =
  i_instr_id :: u64
  i_ip :: u64
  i_event_cycle :: u64
  i_is_branch :: bool
  i_is_memory :: bool
  i_branch_taken :: bool
  i_branch_mispredicted :: bool
  i_source_added :: "bool list"
  i_destination_added :: "bool list"
  i_is_btb_miss :: bool
  i_is_kernel :: bool
  i_asid :: "u8 \<times> u8"
  i_branch_type :: u8
  i_branch_target :: u64
  i_translated :: nat
  i_fetched :: nat
  i_decoded :: nat
  i_scheduled :: nat
  i_executed :: nat
  i_num_reg_ops :: int
  i_num_mem_ops :: int
  i_num_reg_dependent :: int
  i_destination_registers :: "u8 list"
  i_source_registers :: "u8 list"
  i_registers_instrs_depend_on_me :: "nat list"
  i_memory_instrs_depend_on_me :: "nat list"
  i_instruction_pa :: u64
  i_destination_memory :: "u64 list"
  i_source_memory :: "u64 list"
  i_lq_index :: "nat option list"
  i_sq_index :: "nat option list"

definition ooo_model_instr_new :: ooo_model_instr where
  "ooo_model_instr_new =
     \<lparr>i_instr_id = 0, i_ip = 0, i_event_cycle = 0, i_is_branch = False, i_is_memory = False,
      i_branch_taken = False, i_branch_mispredicted = False,
      i_source_added = replicate NUM_INSTR_SOURCES False,
      i_destination_added = replicate NUM_INSTR_DESTINATIONS_SPARC False,
      i_is_btb_miss = False, i_is_kernel = True, i_asid = (- 1, - 1), i_branch_type = NOT_BRANCH,
      i_branch_target = 0, i_translated = 0, i_fetched = 0, i_decoded = 0, i_scheduled = 0, i_executed = 0,
      i_num_reg_ops = 0, i_num_mem_ops = 0, i_num_reg_dependent = 0,
      i_destination_registers = replicate NUM_INSTR_DESTINATIONS_SPARC 0,
      i_source_registers = replicate NUM_INSTR_SOURCES 0,
      i_registers_instrs_depend_on_me = [], i_memory_instrs_depend_on_me = [], i_instruction_pa = 0,
      i_destination_memory = replicate NUM_INSTR_DESTINATIONS_SPARC 0,
      i_source_memory = replicate NUM_INSTR_SOURCES 0,
      i_lq_index = replicate NUM_INSTR_SOURCES None,
      i_sq_index = replicate NUM_INSTR_DESTINATIONS_SPARC None\<rparr>"

section \<open>Trace formats\<close>

record input_instr =
  in_ip :: u64
  in_is_branch :: u8
  in_branch_taken :: u8
  in_destination_registers :: "u8 list"
  in_source_registers :: "u8 list"
  in_destination_memory :: "u64 list"
  in_source_memory :: "u64 list"

record cloudsuite_instr = input_instr +
  in_asid :: "u8 \<times> u8"

record QEMU_event_header =
  eh_type :: u64
  eh_event :: u64
  eh_timestamp_ns :: u64
  eh_length :: u32
  eh_pid :: u32

record QEMU_trace_insn =
  ti_icount :: u64
  ti_vaddr :: u64
  ti_paddr :: u64
  ti_seg_states :: u64
  ti_cr3 :: u64
  ti_br_type :: u64
  ti_target_vaddr :: u64

record QEMU_trace_data =
  td_icount :: u64
  td_vaddr :: u64
  td_paddr :: u64
  td_load_store :: u64
  td_length :: u64
  td_seg_states :: u64
  td_cr3 :: u64

record QEMU_trace_nop =
  tn_byte0 :: u64
  tn_byte1 :: u64
  tn_byte2 :: u64

text \<open>\<open>std::copy\<close> of a range to the start of an array.\<close>

definition copy_to :: "'a list \<Rightarrow> 'a list \<Rightarrow> 'a list" where
  "copy_to src dest = src @ drop (length src) dest"

definition instr_of_input :: "u8 \<Rightarrow> ('a) input_instr_scheme \<Rightarrow> ooo_model_instr" where
  "instr_of_input cpu instr =
     ooo_model_instr_new
       \<lparr>i_destination_registers := copy_to (in_destination_registers instr) (i_destination_registers ooo_model_instr_new),
        i_destination_memory := copy_to (in_destination_memory instr) (i_destination_memory ooo_model_instr_new),
        i_source_registers := copy_to (in_source_registers instr) (i_source_registers ooo_model_instr_new),
        i_source_memory := copy_to (in_source_memory instr) (i_source_memory ooo_model_instr_new),
        i_ip := in_ip instr, i_is_branch := in_is_branch instr \<noteq> 0, i_branch_taken := in_branch_taken instr \<noteq> 0,
        i_asid := (cpu, cpu)\<rparr>"

text \<open>
  The constructor from a CloudSuite record copies the empty range from
  \<open>begin(instr.asid)\<close> to \<open>begin(instr.asid)\<close>, so the identifiers keep their
  defaults.
\<close>

definition instr_of_cloudsuite :: "u8 \<Rightarrow> cloudsuite_instr \<Rightarrow> ooo_model_instr" where
  "instr_of_cloudsuite cpu instr =
     ooo_model_instr_new
       \<lparr>i_destination_registers := copy_to (in_destination_registers instr) (i_destination_registers ooo_model_instr_new),
        i_destination_memory := copy_to (in_destination_memory instr) (i_destination_memory ooo_model_instr_new),
        i_source_registers := copy_to (in_source_registers instr) (i_source_registers ooo_model_instr_new),
        i_source_memory := copy_to (in_source_memory instr) (i_source_memory ooo_model_instr_new),
        i_ip := in_ip instr, i_is_branch := in_is_branch instr \<noteq> 0, i_branch_taken := in_branch_taken instr \<noteq> 0\<rparr>"

definition qemu_asid :: "u64 \<Rightarrow> u8 \<times> u8" where
  "qemu_asid cr3 = (ucast (drop_bit 12 cr3 AND 0xff), ucast (drop_bit 20 cr3 AND 0xff))"

definition instr_of_qemu :: "QEMU_trace_insn \<Rightarrow> ooo_model_instr" where
  "instr_of_qemu instr =
     ooo_model_instr_new
       \<lparr>i_ip := ti_vaddr instr, i_is_branch := ti_br_type instr > 0, i_branch_type := ucast (ti_br_type instr),
        i_branch_target := ti_target_vaddr instr, i_asid := qemu_asid (ti_cr3 instr),
        i_is_kernel := ti_seg_states instr < 3\<rparr>"

definition instr_of_qemu_data :: "QEMU_trace_insn \<Rightarrow> QEMU_trace_data \<Rightarrow> ooo_model_instr" where
  "instr_of_qemu_data instr trace_data =
     (let r = instr_of_qemu instr in
      if td_load_store trace_data \<noteq> 0 then r\<lparr>i_destination_memory := (i_destination_memory r)[0 := td_vaddr trace_data]\<rparr>
      else r\<lparr>i_source_memory := (i_source_memory r)[0 := td_vaddr trace_data]\<rparr>)"

section \<open>Load and store queue entries\<close>

record LSQ_ENTRY =
  l_instr_id :: u64
  l_producer_id :: u64
  l_virtual_address :: u64
  l_physical_address :: u64
  l_ip :: u64
  l_event_cycle :: u64
  l_rob_index :: "nat option"
  l_translated :: nat
  l_fetched :: nat
  l_asid :: "u8 \<times> u8"

definition LSQ_ENTRY_new :: LSQ_ENTRY where
  "LSQ_ENTRY_new =
     \<lparr>l_instr_id = 0, l_producer_id = - 1, l_virtual_address = 0, l_physical_address = 0, l_ip = 0,
      l_event_cycle = 0, l_rob_index = None, l_translated = 0, l_fetched = 0, l_asid = (- 1, - 1)\<rparr>"

definition is_valid_LSQ :: "LSQ_ENTRY \<Rightarrow> bool" where
  "is_valid_LSQ test \<longleftrightarrow> l_virtual_address test \<noteq> 0"

section \<open>Kinds of branches\<close>

text \<open>
  How the core tells the kind of a branch from the registers an instruction
  reads and writes (\<open>init_instruction\<close> in \<open>src/ooo_cpu.cc\<close>).
\<close>

abbreviation (input) MAX_INSTR_DESTINATIONS :: nat where "MAX_INSTR_DESTINATIONS \<equiv> 2"

record reg_use =
  reads_sp :: bool
  writes_sp :: bool
  reads_flags :: bool
  reads_ip :: bool
  writes_ip :: bool
  reads_other :: bool

definition register_use :: "ooo_model_instr \<Rightarrow> reg_use" where
  "register_use i =
     (let dst = take MAX_INSTR_DESTINATIONS (i_destination_registers i); src = i_source_registers i in
      \<lparr>reads_sp = REG_STACK_POINTER \<in> set src, writes_sp = REG_STACK_POINTER \<in> set dst,
       reads_flags = REG_FLAGS \<in> set src, reads_ip = REG_INSTRUCTION_POINTER \<in> set src,
       writes_ip = REG_INSTRUCTION_POINTER \<in> set dst,
       reads_other = list_ex (\<lambda>r. r \<notin> {0, REG_STACK_POINTER, REG_FLAGS, REG_INSTRUCTION_POINTER}) src\<rparr>)"

definition classify_branch :: "ooo_model_instr \<Rightarrow> ooo_model_instr" where
  "classify_branch i =
     (let u = register_use i in
      if \<not> reads_sp u \<and> \<not> reads_flags u \<and> writes_ip u \<and> \<not> reads_other u then
        i\<lparr>i_is_branch := True, i_branch_taken := True, i_branch_type := BRANCH_DIRECT_JUMP\<rparr>
      else if \<not> reads_sp u \<and> \<not> reads_flags u \<and> writes_ip u \<and> reads_other u then
        i\<lparr>i_is_branch := True, i_branch_taken := True, i_branch_type := BRANCH_INDIRECT\<rparr>
      else if \<not> reads_sp u \<and> reads_ip u \<and> \<not> writes_sp u \<and> writes_ip u \<and> reads_flags u \<and> \<not> reads_other u then
        i\<lparr>i_is_branch := True, i_branch_type := BRANCH_CONDITIONAL\<rparr>
      else if reads_sp u \<and> reads_ip u \<and> writes_sp u \<and> writes_ip u \<and> \<not> reads_flags u \<and> \<not> reads_other u then
        i\<lparr>i_is_branch := True, i_branch_taken := True, i_branch_type := BRANCH_DIRECT_CALL\<rparr>
      else if reads_sp u \<and> reads_ip u \<and> writes_sp u \<and> writes_ip u \<and> \<not> reads_flags u \<and> reads_other u then
        i\<lparr>i_is_branch := True, i_branch_taken := True, i_branch_type := BRANCH_INDIRECT_CALL\<rparr>
      else if reads_sp u \<and> \<not> reads_ip u \<and> writes_sp u \<and> writes_ip u then
        i\<lparr>i_is_branch := True, i_branch_taken := True, i_branch_type := BRANCH_RETURN\<rparr>
      else if writes_ip u then
        i\<lparr>i_is_branch := True, i_branch_type := BRANCH_OTHER\<rparr>
      else i)"

end
