(* ===== verification/Btb.thy ===== *)
theory Btb
  imports Instruction
begin

text \<open>
  The branch target buffer \<open>btb/basic_btb\<close>: a set-associative table of targets,
  a table for indirect branches hashed with the conditional history, and a
  return address stack with trackers of the sizes of call instructions.  The
  state is that of one core; \<open>taken\<close> and \<open>always_taken\<close> are truth values.
\<close>

section \<open>State\<close>

abbreviation (input) BASIC_BTB_SETS :: nat where "BASIC_BTB_SETS \<equiv> 1024"
abbreviation (input) BASIC_BTB_WAYS :: nat where "BASIC_BTB_WAYS \<equiv> 8"
abbreviation (input) BASIC_BTB_INDIRECT_SIZE :: nat where "BASIC_BTB_INDIRECT_SIZE \<equiv> 4096"
abbreviation (input) BASIC_BTB_RAS_SIZE :: nat where "BASIC_BTB_RAS_SIZE \<equiv> 64"
abbreviation (input) BASIC_BTB_CALL_INSTR_SIZE_TRACKERS :: nat where "BASIC_BTB_CALL_INSTR_SIZE_TRACKERS \<equiv> 1024"

record BASIC_BTB_ENTRY =
  e_ip_tag :: u64
  e_target :: u64
  e_always_taken :: bool
  e_lru :: u64

record basic_btb =
  btb_table :: "BASIC_BTB_ENTRY list list"
  btb_lru_counter :: u64
  btb_indirect :: "u64 list"
  btb_conditional_history :: u64
  btb_ras :: "u64 list"
  btb_ras_index :: int
  btb_call_instr_sizes :: "u64 list"

definition initialize_btb :: basic_btb where
  "initialize_btb =
     \<lparr>btb_table = replicate BASIC_BTB_SETS
        (replicate BASIC_BTB_WAYS \<lparr>e_ip_tag = 0, e_target = 0, e_always_taken = False, e_lru = 0\<rparr>),
      btb_lru_counter = 0, btb_indirect = replicate BASIC_BTB_INDIRECT_SIZE 0, btb_conditional_history = 0,
      btb_ras = replicate BASIC_BTB_RAS_SIZE 0, btb_ras_index = 0,
      btb_call_instr_sizes = replicate BASIC_BTB_CALL_INSTR_SIZE_TRACKERS 4\<rparr>"

section \<open>Operations\<close>

definition basic_btb_abs_addr_dist :: "u64 \<Rightarrow> u64 \<Rightarrow> u64" where
  "basic_btb_abs_addr_dist addr1 addr2 = (if addr1 > addr2 then addr1 - addr2 else addr2 - addr1)"

definition basic_btb_set_index :: "u64 \<Rightarrow> nat" where
  "basic_btb_set_index ip = unat (drop_bit 2 ip AND (of_nat BASIC_BTB_SETS - 1))"

definition basic_btb_find_entry :: "u64 \<Rightarrow> basic_btb \<Rightarrow> nat option" where
  "basic_btb_find_entry ip b =
     (let ways = btb_table b ! basic_btb_set_index ip; i = find_if (\<lambda>e. e_ip_tag e = ip) ways
      in if i < length ways then Some i else None)"

fun lru_scan :: "BASIC_BTB_ENTRY list \<Rightarrow> nat \<Rightarrow> nat \<Rightarrow> u64 \<Rightarrow> nat" where
  "lru_scan [] i lru_way lru_value = lru_way"
| "lru_scan (e # es) i lru_way lru_value =
     (if e_lru e < lru_value then lru_scan es (Suc i) i (e_lru e) else lru_scan es (Suc i) lru_way lru_value)"

definition basic_btb_get_lru_entry :: "nat \<Rightarrow> basic_btb \<Rightarrow> nat" where
  "basic_btb_get_lru_entry s b = lru_scan (btb_table b ! s) 0 0 (e_lru (btb_table b ! s ! 0))"

definition set_entry :: "nat \<Rightarrow> nat \<Rightarrow> BASIC_BTB_ENTRY \<Rightarrow> basic_btb \<Rightarrow> basic_btb" where
  "set_entry s way e b = b\<lparr>btb_table := (btb_table b)[s := (btb_table b ! s)[way := e]]\<rparr>"

definition basic_btb_update_lru :: "nat \<Rightarrow> nat \<Rightarrow> basic_btb \<Rightarrow> basic_btb" where
  "basic_btb_update_lru s way b =
     (set_entry s way ((btb_table b ! s ! way)\<lparr>e_lru := btb_lru_counter b\<rparr>) b)
       \<lparr>btb_lru_counter := btb_lru_counter b + 1\<rparr>"

definition basic_btb_indirect_hash :: "u64 \<Rightarrow> basic_btb \<Rightarrow> nat" where
  "basic_btb_indirect_hash ip b =
     unat ((drop_bit 2 ip XOR btb_conditional_history b) AND (of_nat BASIC_BTB_INDIRECT_SIZE - 1))"

definition push_basic_btb_ras :: "u64 \<Rightarrow> basic_btb \<Rightarrow> basic_btb" where
  "push_basic_btb_ras ip b =
     (let i = btb_ras_index b + 1; i = (if i = int BASIC_BTB_RAS_SIZE then 0 else i)
      in b\<lparr>btb_ras_index := i, btb_ras := (btb_ras b)[nat i := ip]\<rparr>)"

definition peek_basic_btb_ras :: "basic_btb \<Rightarrow> u64" where
  "peek_basic_btb_ras b = btb_ras b ! nat (btb_ras_index b)"

definition pop_basic_btb_ras :: "basic_btb \<Rightarrow> u64 \<times> basic_btb" where
  "pop_basic_btb_ras b =
     (let target = btb_ras b ! nat (btb_ras_index b);
          ras = (btb_ras b)[nat (btb_ras_index b) := 0];
          i = btb_ras_index b - 1; i = (if i = - 1 then i + int BASIC_BTB_RAS_SIZE else i)
      in (target, b\<lparr>btb_ras := ras, btb_ras_index := i\<rparr>))"

definition basic_btb_call_size_tracker_hash :: "u64 \<Rightarrow> nat" where
  "basic_btb_call_size_tracker_hash ip = unat (ip AND (of_nat BASIC_BTB_CALL_INSTR_SIZE_TRACKERS - 1))"

definition basic_btb_get_call_size :: "u64 \<Rightarrow> basic_btb \<Rightarrow> u64" where
  "basic_btb_get_call_size ip b = btb_call_instr_sizes b ! basic_btb_call_size_tracker_hash ip"

definition btb_prediction :: "u64 \<Rightarrow> u8 \<Rightarrow> basic_btb \<Rightarrow> (u64 \<times> bool) \<times> basic_btb" where
  "btb_prediction ip branch_type b =
     (let always_taken = (branch_type \<noteq> BRANCH_CONDITIONAL);
          b = (if branch_type = BRANCH_DIRECT_CALL \<or> branch_type = BRANCH_INDIRECT_CALL then push_basic_btb_ras ip b else b)
      in if branch_type = BRANCH_RETURN then
           let target = peek_basic_btb_ras b in ((target + basic_btb_get_call_size target b, always_taken), b)
         else if branch_type = BRANCH_INDIRECT \<or> branch_type = BRANCH_INDIRECT_CALL then
           ((btb_indirect b ! basic_btb_indirect_hash ip b, always_taken), b)
         else
           case basic_btb_find_entry ip b of
             None \<Rightarrow> ((0, True), b)
           | Some way \<Rightarrow>
               let e = btb_table b ! basic_btb_set_index ip ! way
               in ((e_target e, e_always_taken e), basic_btb_update_lru (basic_btb_set_index ip) way b))"

definition update_indirect :: "u64 \<Rightarrow> u64 \<Rightarrow> basic_btb \<Rightarrow> basic_btb" where
  "update_indirect ip branch_target b = b\<lparr>btb_indirect := (btb_indirect b)[basic_btb_indirect_hash ip b := branch_target]\<rparr>"

definition update_history :: "bool \<Rightarrow> basic_btb \<Rightarrow> basic_btb" where
  "update_history taken b =
     b\<lparr>btb_conditional_history :=
         (if taken then push_bit 1 (btb_conditional_history b) OR 1 else push_bit 1 (btb_conditional_history b))\<rparr>"

definition recalibrate :: "u64 \<Rightarrow> basic_btb \<Rightarrow> basic_btb" where
  "recalibrate branch_target b =
     (let (call_ip, b) = pop_basic_btb_ras b; estimated = basic_btb_abs_addr_dist call_ip branch_target
      in if estimated \<le> 10
         then b\<lparr>btb_call_instr_sizes := (btb_call_instr_sizes b)[basic_btb_call_size_tracker_hash call_ip := estimated]\<rparr>
         else b)"

definition update_table :: "u64 \<Rightarrow> u64 \<Rightarrow> bool \<Rightarrow> basic_btb \<Rightarrow> basic_btb" where
  "update_table ip branch_target taken b =
     (let s = basic_btb_set_index ip in
      case basic_btb_find_entry ip b of
        None \<Rightarrow>
          if branch_target \<noteq> 0 \<and> taken then
            let way = basic_btb_get_lru_entry s b; e = btb_table b ! s ! way
            in basic_btb_update_lru s way
                 (set_entry s way (e\<lparr>e_ip_tag := ip, e_target := branch_target, e_always_taken := True\<rparr>) b)
          else b
      | Some way \<Rightarrow>
          let e = btb_table b ! s ! way
          in set_entry s way (e\<lparr>e_target := branch_target, e_always_taken := (if taken then e_always_taken e else False)\<rparr>) b)"

definition update_btb :: "u64 \<Rightarrow> u64 \<Rightarrow> bool \<Rightarrow> u8 \<Rightarrow> basic_btb \<Rightarrow> basic_btb" where
  "update_btb ip branch_target taken branch_type b =
     (let indirect = (branch_type = BRANCH_INDIRECT \<or> branch_type = BRANCH_INDIRECT_CALL);
          b = (if indirect then update_indirect ip branch_target b else b);
          b = (if branch_type = BRANCH_CONDITIONAL then update_history taken b else b)
      in if branch_type = BRANCH_RETURN then recalibrate branch_target b
         else if \<not> indirect then update_table ip branch_target taken b
         else b)"

section \<open>Invariant\<close>

definition btb_ok :: "basic_btb \<Rightarrow> bool" where
  "btb_ok b \<longleftrightarrow> length (btb_table b) = BASIC_BTB_SETS \<and> (\<forall>ws \<in> set (btb_table b). length ws = BASIC_BTB_WAYS)
     \<and> length (btb_indirect b) = BASIC_BTB_INDIRECT_SIZE \<and> length (btb_ras b) = BASIC_BTB_RAS_SIZE
     \<and> length (btb_call_instr_sizes b) = BASIC_BTB_CALL_INSTR_SIZE_TRACKERS
     \<and> 0 \<le> btb_ras_index b \<and> btb_ras_index b < int BASIC_BTB_RAS_SIZE"

lemma and_mask_less: "unat ((x :: u64) AND (2 ^ n - 1)) < 2 ^ n"
  using unat_take_bit [of n x] by (simp add: take_bit_eq_mask mask_eq_exp_minus_1)

lemma basic_btb_set_index_less: "basic_btb_set_index ip < 1024"
  using and_mask_less [of "drop_bit 2 ip" 10] by (simp add: basic_btb_set_index_def)

lemma btb_ok_initialize: "btb_ok initialize_btb"
  by (simp add: btb_ok_def initialize_btb_def)

lemma btb_ok_ways: "btb_ok b \<Longrightarrow> length (btb_table b ! basic_btb_set_index ip) = 8"
  using basic_btb_set_index_less [of ip] by (simp add: btb_ok_def)

lemma btb_ok_set_entry: "btb_ok b \<Longrightarrow> btb_ok (set_entry (basic_btb_set_index ip) way e b)"
  using set_update_subset_insert [of "btb_table b" "basic_btb_set_index ip" "(btb_table b ! basic_btb_set_index ip)[way := e]"]
    btb_ok_ways [of b ip]
  by (auto simp: btb_ok_def set_entry_def)

lemma btb_ok_update_lru: "btb_ok b \<Longrightarrow> btb_ok (basic_btb_update_lru (basic_btb_set_index ip) way b)"
  using btb_ok_set_entry [of b ip way] by (simp add: basic_btb_update_lru_def btb_ok_def)

lemma btb_ok_push: "btb_ok b \<Longrightarrow> btb_ok (push_basic_btb_ras ip b)"
  by (simp add: btb_ok_def push_basic_btb_ras_def Let_def)

lemma btb_ok_pop: "btb_ok b \<Longrightarrow> btb_ok (snd (pop_basic_btb_ras b))"
  by (simp add: btb_ok_def pop_basic_btb_ras_def Let_def)

lemma btb_ok_prediction: "btb_ok b \<Longrightarrow> btb_ok (snd (btb_prediction ip ty b))"
  using btb_ok_push [of b ip] btb_ok_update_lru [of _ ip]
  by (auto simp: btb_prediction_def Let_def split: option.splits)

lemma btb_ok_update_parts:
  assumes "btb_ok b"
  shows "btb_ok (update_indirect ip t b)" "btb_ok (update_history taken b)" "btb_ok (recalibrate t b)" "btb_ok (update_table ip t taken b)"
proof -
  show "btb_ok (update_indirect ip t b)" "btb_ok (update_history taken b)"
    using assms by (simp_all add: btb_ok_def update_indirect_def update_history_def)
  show "btb_ok (recalibrate t b)"
    using btb_ok_pop [OF assms] by (cases "pop_basic_btb_ras b") (simp add: recalibrate_def Let_def btb_ok_def)
  show "btb_ok (update_table ip t taken b)"
    unfolding update_table_def Let_def
    by (auto intro!: btb_ok_update_lru btb_ok_set_entry assms split: option.splits)
qed

lemma btb_ok_update: "btb_ok b \<Longrightarrow> btb_ok (update_btb ip t taken ty b)"
  unfolding update_btb_def Let_def by (simp add: btb_ok_update_parts)

section \<open>The table of targets\<close>

lemma find_entry_SomeD:
  assumes "basic_btb_find_entry ip b = Some w"
  shows "w < length (btb_table b ! basic_btb_set_index ip)" "e_ip_tag (btb_table b ! basic_btb_set_index ip ! w) = ip"
  using assms find_if_nth [of "\<lambda>e. e_ip_tag e = ip" "btb_table b ! basic_btb_set_index ip"]
  by (auto simp: basic_btb_find_entry_def Let_def split: if_splits)

lemma lru_scan_less: "w < n \<Longrightarrow> i + length es \<le> n \<Longrightarrow> lru_scan es i w v < n"
  by (induction es arbitrary: i w v) auto

lemma get_lru_less: "btb_ok b \<Longrightarrow> basic_btb_get_lru_entry (basic_btb_set_index ip) b < 8"
  using btb_ok_ways [of b ip] by (simp add: basic_btb_get_lru_entry_def lru_scan_less)


lemma find_entry_set_entry:
  assumes ok: "btb_ok b" and w: "w < 8" and tag: "e_ip_tag e = ip"
    and first: "basic_btb_find_entry ip b = None \<or> basic_btb_find_entry ip b = Some w"
  shows "basic_btb_find_entry ip (set_entry (basic_btb_set_index ip) w e b) = Some w"
proof -
  let ?ws = "btb_table b ! basic_btb_set_index ip"
  have len: "length ?ws = 8" by (rule btb_ok_ways [OF ok])
  have tb: "btb_table (set_entry (basic_btb_set_index ip) w e b) ! basic_btb_set_index ip = ?ws[w := e]"
    using ok basic_btb_set_index_less [of ip] by (simp add: set_entry_def btb_ok_def)
  have "w \<le> find_if (\<lambda>e. e_ip_tag e = ip) ?ws"
    using first find_if_le [of "\<lambda>e. e_ip_tag e = ip" ?ws] len w
    by (auto simp: basic_btb_find_entry_def Let_def split: if_splits)
  then have "find_if (\<lambda>e. e_ip_tag e = ip) (?ws[w := e]) = w"
    using len w tag find_if_before [of _ "\<lambda>e. e_ip_tag e = ip" ?ws] by (intro find_if_unique) auto
  then show ?thesis using tb len w by (simp add: basic_btb_find_entry_def)
qed

lemma set_entry_entry:
  assumes "btb_ok b" "w < 8"
  shows "btb_table (set_entry (basic_btb_set_index ip) w e b) ! basic_btb_set_index ip ! w = e"
  using assms basic_btb_set_index_less [of ip] btb_ok_ways [of b ip] by (simp add: set_entry_def btb_ok_def)

text \<open>What the table answers for an address: the target and the always-taken bit.\<close>

definition table_lookup :: "u64 \<Rightarrow> basic_btb \<Rightarrow> (u64 \<times> bool) option" where
  "table_lookup ip b =
     map_option (\<lambda>w. let e = btb_table b ! basic_btb_set_index ip ! w in (e_target e, e_always_taken e))
       (basic_btb_find_entry ip b)"

lemma table_lookup_set_entry:
  assumes "btb_ok b" "w < 8" "e_ip_tag e = ip"
    and "basic_btb_find_entry ip b = None \<or> basic_btb_find_entry ip b = Some w"
  shows "table_lookup ip (set_entry (basic_btb_set_index ip) w e b) = Some (e_target e, e_always_taken e)"
  using find_entry_set_entry [OF assms] set_entry_entry [OF assms(1,2)] by (simp add: table_lookup_def)

lemma table_lookup_counter [simp]: "table_lookup ip (b\<lparr>btb_lru_counter := c\<rparr>) = table_lookup ip b"
  "table_lookup ip (b\<lparr>btb_conditional_history := h\<rparr>) = table_lookup ip b"
  "table_lookup ip (b\<lparr>btb_ras := r, btb_ras_index := i\<rparr>) = table_lookup ip b"
  by (simp_all add: table_lookup_def basic_btb_find_entry_def)

lemma table_lookup_history [simp]: "table_lookup ip (update_history taken b) = table_lookup ip b"
  by (simp add: update_history_def)

lemma table_lookup_update:
  assumes ok: "btb_ok b"
  shows "table_lookup ip (update_table ip t taken b) =
    (case table_lookup ip b of
       Some (_, a) \<Rightarrow> Some (t, taken \<and> a)
     | None \<Rightarrow> if t \<noteq> 0 \<and> taken then Some (t, True) else None)"
proof (cases "basic_btb_find_entry ip b")
  case None
  let ?w = "basic_btb_get_lru_entry (basic_btb_set_index ip) b"
  let ?e = "(btb_table b ! basic_btb_set_index ip ! ?w)\<lparr>e_ip_tag := ip, e_target := t, e_always_taken := True\<rparr>"
  let ?b = "set_entry (basic_btb_set_index ip) ?w ?e b"
  have w: "?w < 8" by (rule get_lru_less [OF ok])
  have f: "basic_btb_find_entry ip ?b = Some ?w"
    by (rule find_entry_set_entry [OF ok w]) (simp_all add: None)
  have "table_lookup ip (basic_btb_update_lru (basic_btb_set_index ip) ?w ?b) = Some (t, True)"
    unfolding basic_btb_update_lru_def table_lookup_counter
    by (subst table_lookup_set_entry) (simp_all add: btb_ok_set_entry ok w f set_entry_entry)
  then show ?thesis using None by (simp add: update_table_def Let_def table_lookup_def [of ip b] table_lookup_def [of ip b])
next
  case (Some w)
  have w: "w < 8" and tag: "e_ip_tag (btb_table b ! basic_btb_set_index ip ! w) = ip"
    using find_entry_SomeD [OF Some] btb_ok_ways [OF ok, of ip] by simp_all
  show ?thesis
    unfolding update_table_def Let_def Some option.case
    by (subst table_lookup_set_entry) (simp_all add: ok w tag Some table_lookup_def [of ip b] Let_def)
qed

lemma find_entry_push [simp]: "basic_btb_find_entry ip (push_basic_btb_ras x b) = basic_btb_find_entry ip b"
  "btb_table (push_basic_btb_ras x b) = btb_table b"
  by (simp_all add: push_basic_btb_ras_def Let_def basic_btb_find_entry_def)

lemma btb_prediction_table:
  assumes "ty \<noteq> BRANCH_RETURN" "ty \<noteq> BRANCH_INDIRECT" "ty \<noteq> BRANCH_INDIRECT_CALL"
  shows "fst (btb_prediction ip ty b) = (case table_lookup ip b of None \<Rightarrow> (0, True) | Some r \<Rightarrow> r)"
  using assms by (auto simp: btb_prediction_def table_lookup_def Let_def split: option.splits)


section \<open>The return address stack\<close>

text \<open>
  The contract of the stack: a stack of at most 64 call addresses which drops
  the oldest one when it overflows and answers 0 when it is empty, and one call
  size for every tracker.  A branch is what the core hands to the predictor:
  address, target, outcome and kind.
\<close>

type_synonym branch_event = "u64 \<times> u64 \<times> bool \<times> u8"

fun btb_step :: "branch_event \<Rightarrow> basic_btb \<Rightarrow> basic_btb" where
  "btb_step (ip, t, taken, ty) b = update_btb ip t taken ty (snd (btb_prediction ip ty b))"

definition stack_top :: "u64 list \<Rightarrow> u64" where
  "stack_top st = (case st of [] \<Rightarrow> 0 | c # _ \<Rightarrow> c)"

fun stack_step :: "branch_event \<Rightarrow> u64 list \<times> (nat \<Rightarrow> u64) \<Rightarrow> u64 list \<times> (nat \<Rightarrow> u64)" where
  "stack_step (ip, t, taken, ty) (st, sz) =
     (if ty = BRANCH_DIRECT_CALL \<or> ty = BRANCH_INDIRECT_CALL then (take BASIC_BTB_RAS_SIZE (ip # st), sz)
      else if ty = BRANCH_RETURN then
        let c = stack_top st; d = basic_btb_abs_addr_dist c t
        in (tl st, if d \<le> 10 then sz(basic_btb_call_size_tracker_hash c := d) else sz)
      else (st, sz))"

definition ras_rep :: "u64 list \<times> (nat \<Rightarrow> u64) \<Rightarrow> basic_btb \<Rightarrow> bool" where
  "ras_rep a b \<longleftrightarrow> (case a of (st, sz) \<Rightarrow>
     length st \<le> 64 \<and>
     (\<forall>k < 64. btb_ras b ! nat ((btb_ras_index b - int k) mod 64) = (if k < length st then st ! k else 0)) \<and>
     (\<forall>k < 1024. btb_call_instr_sizes b ! k = sz k))"

lemma ras_rep_cong:
  assumes "btb_ras b' = btb_ras b" "btb_ras_index b' = btb_ras_index b" "btb_call_instr_sizes b' = btb_call_instr_sizes b"
  shows "ras_rep a b' = ras_rep a b"
  using assms by (simp add: ras_rep_def)

lemma ras_rep_initialize: "ras_rep ([], \<lambda>_. 4) initialize_btb"
  by (simp add: ras_rep_def initialize_btb_def nat_less_iff)

lemma peek_top: "btb_ok b \<Longrightarrow> ras_rep (st, sz) b \<Longrightarrow> peek_basic_btb_ras b = stack_top st"
  by (auto simp: btb_ok_def ras_rep_def peek_basic_btb_ras_def stack_top_def dest: spec [of _ 0] split: list.splits)

lemma tracker_less: "basic_btb_call_size_tracker_hash ip < 1024"
  using and_mask_less [of ip 10] by (simp add: basic_btb_call_size_tracker_hash_def)

lemma ras_rep_push:
  assumes ok: "btb_ok b" and r: "ras_rep (st, sz) b"
  shows "ras_rep (take 64 (ip # st), sz) (push_basic_btb_ras ip b)"
proof -
  let ?i = "btb_ras_index b"
  let ?j = "(?i + 1) mod 64"
  have i: "0 \<le> ?i" "?i < 64" and len: "length (btb_ras b) = 64" using ok by (simp_all add: btb_ok_def)
  have j: "(if ?i + 1 = 64 then 0 else ?i + 1) = ?j" using i by (simp add: mod_pos_pos_trivial)
  have push: "btb_ras (push_basic_btb_ras ip b) = (btb_ras b)[nat ?j := ip]" "btb_ras_index (push_basic_btb_ras ip b) = ?j"
    "btb_call_instr_sizes (push_basic_btb_ras ip b) = btb_call_instr_sizes b"
    using j by (simp_all add: push_basic_btb_ras_def Let_def)
  have "(btb_ras b)[nat ?j := ip] ! nat ((?j - int k) mod 64) =
      (if k < length (take 64 (ip # st)) then take 64 (ip # st) ! k else 0)" if k: "k < 64" for k
  proof (cases k)
    case 0
    then show ?thesis using len by (simp add: nat_less_iff)
  next
    case (Suc k')
    have eq: "(?j - int k) mod 64 = (?i - int k') mod 64" by (simp add: Suc mod_diff_left_eq)
    have "nat ?j \<noteq> nat ((?i - int k') mod 64)"
    proof
      assume "nat ?j = nat ((?i - int k') mod 64)"
      then have "(?i + 1) mod 64 = (?i - int k') mod 64" by (simp add: eq_nat_nat_iff)
      then have "((?i + 1) - (?i - int k')) mod 64 = 0" by (simp add: mod_eq_dvd_iff)
      then show False using k Suc by simp
    qed
    then show ?thesis using r k Suc unfolding eq by (auto simp: ras_rep_def)
  qed
  moreover have "length (take 64 (ip # st)) \<le> 64" "\<forall>k < 1024. btb_call_instr_sizes b ! k = sz k"
    using r by (simp_all add: ras_rep_def)
  ultimately show ?thesis unfolding ras_rep_def prod.case push by blast
qed

lemma ras_rep_pop:
  assumes ok: "btb_ok b" and r: "ras_rep (st, sz) b"
  shows "fst (pop_basic_btb_ras b) = stack_top st" "ras_rep (tl st, sz) (snd (pop_basic_btb_ras b))"
proof -
  let ?i = "btb_ras_index b"
  let ?j = "(?i - 1) mod 64"
  have i: "0 \<le> ?i" "?i < 64" and len: "length (btb_ras b) = 64" using ok by (simp_all add: btb_ok_def)
  show "fst (pop_basic_btb_ras b) = stack_top st"
    using peek_top [OF ok r] by (simp add: pop_basic_btb_ras_def peek_basic_btb_ras_def Let_def)
  have j: "(if ?i - 1 = - 1 then ?i - 1 + 64 else ?i - 1) = ?j"
    using i by (cases "?i = 0") (simp_all add: mod_pos_pos_trivial)
  have pop: "btb_ras (snd (pop_basic_btb_ras b)) = (btb_ras b)[nat ?i := 0]" "btb_ras_index (snd (pop_basic_btb_ras b)) = ?j"
    "btb_call_instr_sizes (snd (pop_basic_btb_ras b)) = btb_call_instr_sizes b"
    unfolding j [symmetric] by (simp_all add: pop_basic_btb_ras_def Let_def)
  have "(btb_ras b)[nat ?i := 0] ! nat ((?j - int k) mod 64) = (if k < length (tl st) then tl st ! k else 0)"
    if k: "k < 64" for k
  proof (cases "k = 63")
    case True
    have "(?j - int k) mod 64 = ?i" using i True by (simp add: mod_diff_left_eq mod_pos_pos_trivial flip: mod_add_self2 [of "?i - 64"])
    moreover have "\<not> 63 < length (tl st)" using r by (auto simp: ras_rep_def)
    ultimately show ?thesis using True len i by (simp add: nat_less_iff)
  next
    case False
    have eq: "(?j - int k) mod 64 = (?i - int (Suc k)) mod 64" by (simp add: mod_diff_left_eq algebra_simps)
    have "nat ?i \<noteq> nat ((?i - int (Suc k)) mod 64)"
    proof
      assume "nat ?i = nat ((?i - int (Suc k)) mod 64)"
      then have "?i mod 64 = (?i - int (Suc k)) mod 64" using i by (simp add: eq_nat_nat_iff mod_pos_pos_trivial)
      then have "(?i - (?i - int (Suc k))) mod 64 = 0" unfolding mod_eq_dvd_iff by simp
      then show False using k False by simp
    qed
    then have "(btb_ras b)[nat ?i := 0] ! nat ((?j - int k) mod 64) = btb_ras b ! nat ((?i - int (Suc k)) mod 64)"
      unfolding eq by simp
    also have "\<dots> = (if Suc k < length st then st ! Suc k else 0)"
    proof -
      have "\<forall>k < 64. btb_ras b ! nat ((?i - int k) mod 64) = (if k < length st then st ! k else 0)"
        using r by (simp add: ras_rep_def)
      then show ?thesis using k False by (elim allE [of _ "Suc k"]) simp
    qed
    also have "\<dots> = (if k < length (tl st) then tl st ! k else 0)" by (cases st) simp_all
    finally show ?thesis .
  qed
  moreover have "length (tl st) \<le> 64" "\<forall>k < 1024. btb_call_instr_sizes b ! k = sz k"
    using r by (auto simp: ras_rep_def)
  ultimately show "ras_rep (tl st, sz) (snd (pop_basic_btb_ras b))" unfolding ras_rep_def prod.case pop by blast
qed

lemma ras_rep_recalibrate:
  assumes ok: "btb_ok b" and r: "ras_rep (st, sz) b"
  shows "ras_rep (stack_step (ip, t, taken, BRANCH_RETURN) (st, sz)) (recalibrate t b)"
proof -
  obtain c b' where p: "pop_basic_btb_ras b = (c, b')" by (cases "pop_basic_btb_ras b")
  have c: "c = stack_top st" and r': "ras_rep (tl st, sz) b'" using ras_rep_pop [OF ok r] by (simp_all add: p)
  have "length (btb_call_instr_sizes b') = 1024" using btb_ok_pop [OF ok] by (simp add: p btb_ok_def)
  then show ?thesis using r' by (simp add: recalibrate_def p c Let_def ras_rep_def nth_list_update)
qed

lemma ras_frame_table:
  "btb_ras (set_entry s w e b) = btb_ras b" "btb_ras_index (set_entry s w e b) = btb_ras_index b"
  "btb_call_instr_sizes (set_entry s w e b) = btb_call_instr_sizes b"
  "btb_ras (basic_btb_update_lru s w b) = btb_ras b" "btb_ras_index (basic_btb_update_lru s w b) = btb_ras_index b"
  "btb_call_instr_sizes (basic_btb_update_lru s w b) = btb_call_instr_sizes b"
  by (simp_all add: set_entry_def basic_btb_update_lru_def)

lemma ras_rep_frame:
  "ras_rep a (update_indirect ip t b) = ras_rep a b" "ras_rep a (update_history taken b) = ras_rep a b"
  "ras_rep a (update_table ip t taken b) = ras_rep a b" "ras_rep a (basic_btb_update_lru s w b) = ras_rep a b"
     apply (simp_all add: update_indirect_def update_history_def ras_rep_def ras_frame_table)
  apply (simp add: update_table_def Let_def ras_frame_table split: option.splits)
  done

lemma ras_rep_prediction:
  assumes "btb_ok b" "ras_rep (st, sz) b"
  shows "ras_rep (if ty = BRANCH_DIRECT_CALL \<or> ty = BRANCH_INDIRECT_CALL then take 64 (ip # st) else st, sz) (snd (btb_prediction ip ty b))"
  using assms ras_rep_push [OF assms, of ip]
  by (simp add: btb_prediction_def Let_def ras_rep_frame split: option.splits)

lemma ras_rep_step:
  assumes ok: "btb_ok b" and r: "ras_rep a b"
  shows "ras_rep (stack_step ev a) (btb_step ev b)"
proof -
  obtain ip t taken ty where ev: "ev = (ip, t, taken, ty)" by (cases ev)
  obtain st sz where a: "a = (st, sz)" by (cases a)
  note p = ras_rep_prediction [OF ok r [unfolded a], of ty ip] and okp = btb_ok_prediction [OF ok, of ip ty]
  show ?thesis
  proof (cases "ty = BRANCH_RETURN")
    case True
    then show ?thesis using ras_rep_recalibrate [OF okp, of st sz ip t taken] p
      by (simp add: ev a update_btb_def del: stack_step.simps)
  next
    case False
    then show ?thesis using p by (auto simp: ev a update_btb_def Let_def ras_rep_frame split: if_splits)
  qed
qed

lemma ras_rep_run:
  "btb_ok b \<Longrightarrow> ras_rep a b \<Longrightarrow> btb_ok (fold btb_step evs b) \<and> ras_rep (fold stack_step evs a) (fold btb_step evs b)"
proof (induction evs arbitrary: a b)
  case (Cons ev evs)
  have "btb_ok (btb_step ev b)" using Cons.prems(1) by (cases ev) (simp add: btb_ok_update btb_ok_prediction)
  then show ?case using Cons.IH [OF _ ras_rep_step [OF Cons.prems]] by simp
qed simp

lemma return_prediction:
  assumes "btb_ok b" "ras_rep (st, sz) b"
  shows "fst (btb_prediction ip BRANCH_RETURN b) =
    (stack_top st + sz (basic_btb_call_size_tracker_hash (stack_top st)), True)"
  using assms(2) tracker_less by (simp add: btb_prediction_def Let_def peek_top [OF assms] basic_btb_get_call_size_def ras_rep_def)

section \<open>Properties\<close>

text \<open>
  after the buffer was told that a branch other than a return was taken to a
  target other than 0, it predicts exactly that target for the same branch, in
  every well-formed state, whether the branch was known before or replaced the
  least recently used entry of its set; and the update keeps the state well
  formed.
\<close>

theorem btb_update_then_predict:
  assumes "btb_ok b" "t \<noteq> 0" "ty \<noteq> BRANCH_RETURN"
  shows "fst (fst (btb_prediction ip ty (update_btb ip t True ty b))) = t \<and> btb_ok (update_btb ip t True ty b)"
    (is "?P \<and> _")
proof (rule conjI [OF _ btb_ok_update [OF assms(1)]], cases "ty = BRANCH_INDIRECT \<or> ty = BRANCH_INDIRECT_CALL")
  case True
  have h: "basic_btb_indirect_hash ip b < 4096"
    using and_mask_less [of "drop_bit 2 ip XOR btb_conditional_history b" 12] by (simp add: basic_btb_indirect_hash_def)
  have frame: "basic_btb_indirect_hash ip (push_basic_btb_ras ip c) = basic_btb_indirect_hash ip c"
    "btb_indirect (push_basic_btb_ras ip c) = btb_indirect c"
    "basic_btb_indirect_hash ip (c\<lparr>btb_indirect := v\<rparr>) = basic_btb_indirect_hash ip c" for c v
    by (simp_all add: basic_btb_indirect_hash_def push_basic_btb_ras_def Let_def)
  have "length (btb_indirect b) = 4096" using assms by (simp add: btb_ok_def)
  with True h show ?P
    by (auto simp: update_btb_def btb_prediction_def Let_def update_indirect_def frame)
next
  case False
  then show ?P
    using assms table_lookup_update [OF assms(1), of ip t True]
      table_lookup_update [OF btb_ok_update_parts(2) [OF assms(1)], of ip t True True]
    by (auto simp: btb_prediction_table update_btb_def Let_def split: option.splits)
qed

theorem btb_update_then_predict_witness:
  "fst (fst (btb_prediction 0x400 BRANCH_CONDITIONAL (update_btb 0x400 0x480 True BRANCH_CONDITIONAL initialize_btb))) = 0x480"
  using btb_update_then_predict [of initialize_btb "0x480" BRANCH_CONDITIONAL "0x400"] btb_ok_initialize by simp

text \<open>
  C39: a conditional branch that was taken to a known target and is then not
  taken loses its target.  The core clears the target of a branch that is not
  taken before it updates the buffer, and the buffer stores that 0 over the
  target it had: the next prediction for the branch has target 0.
\<close>

theorem btb_forgets_untaken_target:
  assumes "btb_ok b" "t \<noteq> 0"
  shows "fst (btb_prediction ip BRANCH_CONDITIONAL
           (update_btb ip 0 False BRANCH_CONDITIONAL (update_btb ip t True BRANCH_CONDITIONAL b))) = (0, False)"
proof -
  let ?b1 = "update_history True b"
  let ?b2 = "update_table ip t True ?b1"
  have ok: "btb_ok ?b1" "btb_ok (update_history False ?b2)" using assms(1) by (simp_all add: btb_ok_update_parts)
  show ?thesis
    using assms(2) table_lookup_update [OF ok(1), of ip t True] table_lookup_update [OF ok(2), of ip 0 False]
    by (auto simp: btb_prediction_table update_btb_def Let_def split: option.splits)
qed

theorem btb_forgets_untaken_target_witness:
  "fst (btb_prediction 0x400 BRANCH_CONDITIONAL
     (update_btb 0x400 0 False BRANCH_CONDITIONAL (update_btb 0x400 0x480 True BRANCH_CONDITIONAL initialize_btb))) = (0, False)"
  using btb_forgets_untaken_target [of initialize_btb "0x480" "0x400"] btb_ok_initialize by simp

text \<open>
  C40: the circular return address stack refines a bounded stack.  After any
  sequence of branches a return is predicted to go to the youngest call that has
  not returned among the last 64 ones (to address 0 when there is none) plus the
  size its tracker has for that call, which is 4 until a return from a call of
  the same tracker measured a distance of at most 10 bytes.
\<close>

theorem btb_returns_refine_bounded_stack:
  "fst (btb_prediction ip BRANCH_RETURN (fold btb_step evs initialize_btb)) =
     (let (st, sz) = fold stack_step evs ([], \<lambda>_. 4); c = stack_top st
      in (c + sz (basic_btb_call_size_tracker_hash c), True))"
proof -
  obtain st sz where a: "fold stack_step evs ([], \<lambda>_. 4) = (st, sz)" by (cases "fold stack_step evs ([], \<lambda>_. 4)")
  show ?thesis
    using return_prediction [of "fold btb_step evs initialize_btb" st sz ip]
      ras_rep_run [OF btb_ok_initialize ras_rep_initialize, of evs] by (simp add: a Let_def)
qed

end
