(* ===== verification/Core.thy ===== *)
theory Core
  imports Instruction DelayQueue
begin

text \<open>
  The out-of-order core of \<open>inc/ooo_cpu.h\<close> and \<open>src/ooo_cpu.cc\<close>.  The branch
  predictor, the branch target buffer and the instruction prefetcher are bound
  by the generated \<open>ooo_cpu_modules.inc\<close> and are fields of \<open>core_env\<close>, as are the
  four caches below the core.  A call of \<open>add_rq\<close> of one of these caches gives
  its return code, the packets it returned to the bus before it came back, and
  the new state of the memory below.  Iterators into the instruction buffers
  are positions of the circular buffer, iterators into the load and store queue
  are indices; dereferencing a default-constructed iterator is \<open>Undefined\<close>.
\<close>

section \<open>State\<close>

record dib_entry_t =
  dib_valid :: bool
  dib_lru :: u32
  dib_address :: u64

definition dib_entry_new :: dib_entry_t where
  "dib_entry_new = \<lparr>dib_valid = False, dib_lru = 999999, dib_address = 0\<rparr>"

record core_config =
  dib_set :: nat
  dib_way :: nat
  dib_window :: nat
  FETCH_WIDTH :: nat
  DECODE_WIDTH :: nat
  DISPATCH_WIDTH :: nat
  SCHEDULER_SIZE :: nat
  EXEC_WIDTH :: nat
  LQ_WIDTH :: nat
  SQ_WIDTH :: nat
  RETIRE_WIDTH :: nat
  BRANCH_MISPREDICT_PENALTY :: u64
  SCHEDULING_LATENCY :: u64
  EXEC_LATENCY :: u64
  ITLB_bus_id :: nat
  DTLB_bus_id :: nat
  L1I_bus_id :: nat
  L1D_bus_id :: nat

record ('b, 'w) O3_CPU =
  ocfg :: core_config
  o_cpu :: nat
  current_cycle :: u64
  kernel_insn :: u64
  kernel_data :: u64
  user_insn :: u64
  user_data :: u64
  instr_unique_id :: u64
  completed_executions :: u64
  instrs_to_read_this_cycle :: u64
  num_retired :: u64
  inflight_reg_executions :: u32
  inflight_mem_executions :: u32
  DIB :: "dib_entry_t list"
  IFETCH_BUFFER :: "ooo_model_instr circular_buffer"
  DISPATCH_BUFFER :: "ooo_model_instr delay_queue"
  DECODE_BUFFER :: "ooo_model_instr delay_queue"
  ROB :: "ooo_model_instr circular_buffer"
  LQ :: "LSQ_ENTRY list"
  SQ :: "LSQ_ENTRY list"
  STA :: "u64 list"
  ready_to_execute :: "nat list"
  RTL0 :: "nat list"
  RTL1 :: "nat list"
  RTS0 :: "nat list"
  RTS1 :: "nat list"
  fetch_stall :: bool
  fetch_resume_cycle :: u64
  num_branch :: u64
  branch_mispredictions :: u64
  total_rob_occupancy_at_branch_mispredict :: u64
  total_branch_types :: "u64 list"
  branch_type_misses :: "u64 list"
  ITLB_bus :: "PACKET circular_buffer"
  DTLB_bus :: "PACKET circular_buffer"
  L1I_bus :: "PACKET circular_buffer"
  L1D_bus :: "PACKET circular_buffer"
  modules :: 'b
  o_lower :: 'w

type_synonym 'w add_rq_fun = "PACKET \<Rightarrow> 'w \<Rightarrow> (int \<times> PACKET list \<times> 'w) result"

record ('b, 'w) core_env =
  o_consts :: constants
  o_warm :: "nat \<Rightarrow> bool"
  o_metadata :: u32
  impl_btb_prediction :: "u64 \<Rightarrow> u8 \<Rightarrow> 'b \<Rightarrow> (u64 \<times> bool) \<times> 'b"
  impl_predict_branch :: "u64 \<Rightarrow> u64 \<Rightarrow> bool \<Rightarrow> u8 \<Rightarrow> 'b \<Rightarrow> bool \<times> 'b"
  impl_prefetcher_branch_operate :: "u64 \<Rightarrow> u8 \<Rightarrow> u64 \<Rightarrow> 'b \<times> 'w \<Rightarrow> 'b \<times> 'w"
  impl_update_btb :: "u64 \<Rightarrow> u64 \<Rightarrow> bool \<Rightarrow> u8 \<Rightarrow> 'b \<Rightarrow> 'b"
  impl_last_branch_result :: "u64 \<Rightarrow> u64 \<Rightarrow> bool \<Rightarrow> u8 \<Rightarrow> 'b \<Rightarrow> 'b"
  itlb_add_rq :: "'w add_rq_fun"
  dtlb_add_rq :: "'w add_rq_fun"
  l1i_add_rq :: "'w add_rq_fun"
  l1d_add_rq :: "'w add_rq_fun"
  l1d_add_wq :: "PACKET \<Rightarrow> 'w \<Rightarrow> (int \<times> 'w) result"
  l1i_prefetch_line :: "u64 \<Rightarrow> bool \<Rightarrow> u32 \<Rightarrow> 'w \<Rightarrow> (int \<times> 'w) result"
  itlb_fill_level :: nat
  dtlb_fill_level :: nat
  l1i_fill_level :: nat
  l1d_fill_level :: nat
  itlb_MAX_READ :: nat
  dtlb_MAX_READ :: nat
  l1i_MAX_READ :: nat
  l1d_MAX_READ :: nat

record core_sizes =
  ifetch_buffer_size :: nat
  decode_buffer_size :: nat
  dispatch_buffer_size :: nat
  rob_size :: nat
  lq_size :: nat
  sq_size :: nat
  decode_latency :: nat
  dispatch_latency :: nat

definition O3_CPU_new :: "('b, 'w) core_env \<Rightarrow> core_config \<Rightarrow> core_sizes \<Rightarrow> nat \<Rightarrow> 'b \<Rightarrow> 'w \<Rightarrow> ('b, 'w) O3_CPU" where
  "O3_CPU_new E cf sz cpu b w =
     (let i = ooo_model_instr_new; bus = cb_new (PACKET_new (o_consts E) (o_metadata E)) (rob_size sz) in
      \<lparr>ocfg = cf, o_cpu = cpu, current_cycle = 0, kernel_insn = 0, kernel_data = 0, user_insn = 0, user_data = 0,
       instr_unique_id = 0, completed_executions = 0, instrs_to_read_this_cycle = 0, num_retired = 0,
       inflight_reg_executions = 0, inflight_mem_executions = 0,
       DIB = replicate (dib_set cf * dib_way cf) dib_entry_new,
       IFETCH_BUFFER = cb_new i (ifetch_buffer_size sz),
       DISPATCH_BUFFER = dq_new i (dispatch_buffer_size sz) (dispatch_latency sz),
       DECODE_BUFFER = dq_new i (decode_buffer_size sz) (decode_latency sz),
       ROB = cb_new i (rob_size sz), LQ = replicate (lq_size sz) LSQ_ENTRY_new,
       SQ = replicate (sq_size sz) LSQ_ENTRY_new, STA = [], ready_to_execute = [], RTL0 = [], RTL1 = [],
       RTS0 = [], RTS1 = [], fetch_stall = False, fetch_resume_cycle = 0, num_branch = 0,
       branch_mispredictions = 0, total_rob_occupancy_at_branch_mispredict = 0,
       total_branch_types = replicate 8 0, branch_type_misses = replicate 8 0,
       ITLB_bus = bus, DTLB_bus = bus, L1I_bus = bus, L1D_bus = bus, modules = b, o_lower = w\<rparr>)"

section \<open>Helpers\<close>

definition DEADLOCK_CYCLE :: u64 where "DEADLOCK_CYCLE = 1000000"

abbreviation warm :: "('b, 'w) core_env \<Rightarrow> ('b, 'w) O3_CPU \<Rightarrow> bool" where
  "warm E c \<equiv> o_warm E (o_cpu c)"

text \<open>\<open>CacheBus::return_data\<close>.\<close>

definition bus_return_data :: "PACKET \<Rightarrow> PACKET circular_buffer \<Rightarrow> PACKET circular_buffer result" where
  "bus_return_data packet bus = (if p_type packet \<noteq> PREFETCH then cb_push_back packet bus else Inr bus)"

definition upd_rob :: "nat \<Rightarrow> (ooo_model_instr \<Rightarrow> ooo_model_instr) \<Rightarrow> ('b, 'w) O3_CPU \<Rightarrow> ('b, 'w) O3_CPU" where
  "upd_rob p f c = c\<lparr>ROB := cb_set p (f (cb_at (ROB c) p)) (ROB c)\<rparr>"

definition upd_ifetch :: "nat \<Rightarrow> (ooo_model_instr \<Rightarrow> ooo_model_instr) \<Rightarrow> ('b, 'w) O3_CPU \<Rightarrow> ('b, 'w) O3_CPU" where
  "upd_ifetch p f c = c\<lparr>IFETCH_BUFFER := cb_set p (f (cb_at (IFETCH_BUFFER c) p)) (IFETCH_BUFFER c)\<rparr>"

definition upd_lq :: "nat \<Rightarrow> (LSQ_ENTRY \<Rightarrow> LSQ_ENTRY) \<Rightarrow> ('b, 'w) O3_CPU \<Rightarrow> ('b, 'w) O3_CPU" where
  "upd_lq i f c = c\<lparr>LQ := (LQ c)[i := f (LQ c ! i)]\<rparr>"

definition upd_sq :: "nat \<Rightarrow> (LSQ_ENTRY \<Rightarrow> LSQ_ENTRY) \<Rightarrow> ('b, 'w) O3_CPU \<Rightarrow> ('b, 'w) O3_CPU" where
  "upd_sq i f c = c\<lparr>SQ := (SQ c)[i := f (SQ c ! i)]\<rparr>"

definition deref :: "'a option \<Rightarrow> 'a result" where
  "deref p = (case p of None \<Rightarrow> Inl (Undefined ''default iterator'') | Some x \<Rightarrow> Inr x)"

definition check_deadlock :: "ooo_model_instr \<Rightarrow> ('b, 'w) O3_CPU \<Rightarrow> ('b, 'w) O3_CPU result" where
  "check_deadlock i c =
     (if i_event_cycle i + DEADLOCK_CYCLE \<le> current_cycle c then Inl (DeadlockThrown (of_nat (o_cpu c))) else Inr c)"

section \<open>Reading an instruction\<close>

text \<open>The loop over the destinations (lines 58 to 94), without the flags of \<open>register_use\<close>.\<close>

definition init_destination ::
  "nat \<Rightarrow> ooo_model_instr \<times> ('b, 'w) O3_CPU \<Rightarrow> (ooo_model_instr \<times> ('b, 'w) O3_CPU) result" where
  "init_destination i s =
     (case s of (a, c) \<Rightarrow>
      let a = (if i_destination_registers a ! i \<noteq> 0 then a\<lparr>i_num_reg_ops := i_num_reg_ops a + 1\<rparr> else a) in
      if i_destination_memory a ! i \<noteq> 0 then
        let a = a\<lparr>i_num_mem_ops := i_num_mem_ops a + 1\<rparr> in
        if i_num_mem_ops a > 0 then
          bindE (assertE ''STA.size() < ROB.size() * NUM_INSTR_DESTINATIONS_SPARC''
                   (length (STA c) < cb_sz (ROB c) * NUM_INSTR_DESTINATIONS_SPARC)) (\<lambda>_.
          Inr (a, c\<lparr>STA := STA c @ [instr_unique_id c]\<rparr>))
        else Inr (a, c)
      else Inr (a, c))"

definition init_source :: "nat \<Rightarrow> ooo_model_instr \<Rightarrow> ooo_model_instr" where
  "init_source i a =
     (let a = (if i_source_registers a ! i \<noteq> 0 then a\<lparr>i_num_reg_ops := i_num_reg_ops a + 1\<rparr> else a)
      in if i_source_memory a ! i \<noteq> 0 then a\<lparr>i_num_mem_ops := i_num_mem_ops a + 1\<rparr> else a)"

text \<open>Stack pointer folding (lines 182 to 196).\<close>

definition fold_sp :: "reg_use \<Rightarrow> ooo_model_instr \<Rightarrow> ooo_model_instr" where
  "fold_sp u a =
     (if writes_sp u \<and> (i_is_branch a \<or> i_num_mem_ops a > 0 \<or> \<not> reads_other u) then
        fold (\<lambda>i a. if i_destination_registers a ! i = REG_STACK_POINTER
                   then a\<lparr>i_destination_registers := (i_destination_registers a)[i := 0],
                          i_num_reg_ops := i_num_reg_ops a - 1\<rparr> else a)
          [0..<MAX_INSTR_DESTINATIONS] a
      else a)"

text \<open>Branch prediction (lines 201 to 250).\<close>

definition predict :: "('b, 'w) core_env \<Rightarrow> ooo_model_instr \<Rightarrow> ('b, 'w) O3_CPU \<Rightarrow> ooo_model_instr \<times> ('b, 'w) O3_CPU" where
  "predict E a c =
     (let c = c\<lparr>num_branch := num_branch c + 1\<rparr>;
          ((target, always_taken), b) = impl_btb_prediction E (i_ip a) (i_branch_type a) (modules c);
          (prediction, b) = impl_predict_branch E (i_ip a) target always_taken (i_branch_type a) b;
          target = (if \<not> prediction \<and> \<not> always_taken then 0 else target);
          (b, w) = impl_prefetcher_branch_operate E (i_ip a) (i_branch_type a) target (b, o_lower c);
          c = c\<lparr>modules := b, o_lower := w\<rparr>;
          (a, c) =
            (if prediction \<noteq> i_branch_taken a then
               let ty = unat (i_branch_type a);
                   c = c\<lparr>branch_mispredictions := branch_mispredictions c + 1,
                         total_rob_occupancy_at_branch_mispredict :=
                           total_rob_occupancy_at_branch_mispredict c + of_nat (cb_occupancy (ROB c)),
                         branch_type_misses := (branch_type_misses c)[ty := branch_type_misses c ! ty + 1]\<rparr>
               in if warm E c
                  then (a\<lparr>i_branch_mispredicted := True\<rparr>, c\<lparr>fetch_stall := True, instrs_to_read_this_cycle := 0\<rparr>)
                  else (a, c)
             else if i_branch_taken a then (a, c\<lparr>instrs_to_read_this_cycle := 0\<rparr>)
             else (a, c));
          b = impl_update_btb E (i_ip a) (i_branch_target a) (i_branch_taken a) (i_branch_type a) (modules c);
          b = impl_last_branch_result E (i_ip a) (i_branch_target a) (i_branch_taken a) (i_branch_type a) b
      in (a, c\<lparr>modules := b\<rparr>))"

text \<open>From the count of the operands on (lines 128 to 270).\<close>

definition enter_ifetch :: "('b, 'w) core_env \<Rightarrow> reg_use \<Rightarrow> ooo_model_instr \<Rightarrow> ('b, 'w) O3_CPU \<Rightarrow> ('b, 'w) O3_CPU result" where
  "enter_ifetch E u a c =
     (let a = (if i_num_mem_ops a > 0 then a\<lparr>i_is_memory := True\<rparr> else a);
          a = classify_branch a;
          ty = unat (i_branch_type a)
      in if 8 \<le> ty then Inl (Undefined ''total_branch_types'')
         else
           let c = c\<lparr>total_branch_types := (total_branch_types c)[ty := total_branch_types c ! ty + 1]\<rparr>;
               a = (if \<not> i_is_branch a \<or> \<not> i_branch_taken a then a\<lparr>i_branch_target := 0\<rparr> else a);
               a = fold_sp u a;
               (a, c) = (if i_is_branch a then predict E a c else (a, c));
               a = a\<lparr>i_event_cycle := current_cycle c\<rparr>;
               a = (if \<not> warm E c
                    then a\<lparr>i_source_registers := replicate NUM_INSTR_SOURCES 0,
                           i_destination_registers := replicate MAX_INSTR_DESTINATIONS 0, i_num_reg_ops := 0\<rparr>
                    else a)
           in bindE (cb_push_back a (IFETCH_BUFFER c)) (\<lambda>buf.
              Inr (c\<lparr>IFETCH_BUFFER := buf, instr_unique_id := instr_unique_id c + 1\<rparr>)))"

definition init_instruction :: "('b, 'w) core_env \<Rightarrow> ooo_model_instr \<Rightarrow> ('b, 'w) O3_CPU \<Rightarrow> ('b, 'w) O3_CPU result" where
  "init_instruction E arch_instr c =
     (let c = c\<lparr>instrs_to_read_this_cycle := instrs_to_read_this_cycle c - 1\<rparr>;
          a = arch_instr\<lparr>i_instr_id := instr_unique_id c\<rparr>
      in bindE (foldE init_destination [0..<MAX_INSTR_DESTINATIONS] (a, c)) (\<lambda>(b, c).
         enter_ifetch E (register_use a) (fold init_source [0..<NUM_INSTR_SOURCES] b) c))"

section \<open>The decoded instruction buffer\<close>

definition dib_set_begin :: "u64 \<Rightarrow> core_config \<Rightarrow> nat" where
  "dib_set_begin ip cf = (unat (drop_bit (lg2 (dib_window cf)) ip) mod dib_set cf) * dib_way cf"

abbreviation dib_ways :: "u64 \<Rightarrow> ('b, 'w) O3_CPU \<Rightarrow> dib_entry_t list" where
  "dib_ways ip c \<equiv> slice (dib_set_begin ip (ocfg c)) (dib_way (ocfg c)) (DIB c)"

definition dib_find :: "u64 \<Rightarrow> ('b, 'w) O3_CPU \<Rightarrow> nat" where
  "dib_find ip c = find_if (eq_addr dib_valid dib_address ip (lg2 (dib_window (ocfg c)))) (dib_ways ip c)"

definition dib_touch :: "u64 \<Rightarrow> nat \<Rightarrow> ('b, 'w) O3_CPU \<Rightarrow> ('b, 'w) O3_CPU" where
  "dib_touch ip way c =
     c\<lparr>DIB := map_slice (dib_set_begin ip (ocfg c)) (dib_way (ocfg c))
         (lru_updater dib_lru (\<lambda>v x. x\<lparr>dib_lru := v\<rparr>) (dib_lru (dib_ways ip c ! way))) (DIB c)\<rparr>"

definition do_check_dib :: "nat \<Rightarrow> ('b, 'w) O3_CPU \<Rightarrow> ('b, 'w) O3_CPU" where
  "do_check_dib p c =
     (let ip = i_ip (cb_at (IFETCH_BUFFER c) p); way = dib_find ip c in
      if way \<noteq> dib_way (ocfg c) then
        dib_touch ip way
          (upd_ifetch p (\<lambda>i. i\<lparr>i_translated := COMPLETED, i_fetched := COMPLETED, i_decoded := COMPLETED,
                              i_event_cycle := current_cycle c\<rparr>) c)
      else c)"

text \<open>The positions a loop from \<open>b\<close> to \<open>e\<close> visits.\<close>

definition it_range :: "'a circular_buffer \<Rightarrow> nat \<Rightarrow> nat \<Rightarrow> nat list" where
  "it_range buf b e = takeWhile (\<lambda>p. it_ne buf p e) (map (\<lambda>k. it_add buf b (int k)) [0..<length (cb_entry buf)])"

definition check_dib :: "('b, 'w) O3_CPU \<Rightarrow> ('b, 'w) O3_CPU" where
  "check_dib c =
     (let buf = IFETCH_BUFFER c;
          a = cb_end buf; b = it_add buf (cb_begin buf) (int (FETCH_WIDTH (ocfg c)));
          end_it = (if it_lt buf b a then b else a)
      in fold do_check_dib (it_range buf (cb_begin buf) end_it) c)"

definition do_dib_update :: "ooo_model_instr \<Rightarrow> ('b, 'w) O3_CPU \<Rightarrow> ('b, 'w) O3_CPU result" where
  "do_dib_update instr c =
     (let ip = i_ip instr; way = dib_find ip c in
      if way = dib_way (ocfg c) then
        let way = max_element (lru_comparator dib_valid dib_lru) (dib_ways ip c); i = dib_set_begin ip (ocfg c) + way in
        bindE (assertE ''way != dib_set_end'' (way \<noteq> dib_way (ocfg c))) (\<lambda>_.
        Inr (dib_touch ip way (c\<lparr>DIB := (DIB c)[i := (DIB c ! i)\<lparr>dib_valid := True, dib_address := ip\<rparr>]\<rparr>)))
      else Inr (dib_touch ip way c))"

section \<open>Translating and fetching instructions\<close>

definition bus_packet :: "('b, 'w) core_env \<Rightarrow> nat \<Rightarrow> ('b, 'w) O3_CPU \<Rightarrow> PACKET" where
  "bus_packet E level c = (PACKET_new (o_consts E) (o_metadata E))\<lparr>p_fill_level := level, p_cpu := o_cpu c\<rparr>"

definition send_itlb :: "('b, 'w) core_env \<Rightarrow> PACKET \<Rightarrow> ('b, 'w) O3_CPU \<Rightarrow> (int \<times> ('b, 'w) O3_CPU) result" where
  "send_itlb E pkt c =
     bindE (itlb_add_rq E pkt (o_lower c)) (\<lambda>(r, rets, w).
     bindE (foldE bus_return_data rets (ITLB_bus c)) (\<lambda>bus. Inr (r, c\<lparr>ITLB_bus := bus, o_lower := w\<rparr>)))"

definition send_dtlb :: "('b, 'w) core_env \<Rightarrow> PACKET \<Rightarrow> ('b, 'w) O3_CPU \<Rightarrow> (int \<times> ('b, 'w) O3_CPU) result" where
  "send_dtlb E pkt c =
     bindE (dtlb_add_rq E pkt (o_lower c)) (\<lambda>(r, rets, w).
     bindE (foldE bus_return_data rets (DTLB_bus c)) (\<lambda>bus. Inr (r, c\<lparr>DTLB_bus := bus, o_lower := w\<rparr>)))"

definition send_l1i :: "('b, 'w) core_env \<Rightarrow> PACKET \<Rightarrow> ('b, 'w) O3_CPU \<Rightarrow> (int \<times> ('b, 'w) O3_CPU) result" where
  "send_l1i E pkt c =
     bindE (l1i_add_rq E pkt (o_lower c)) (\<lambda>(r, rets, w).
     bindE (foldE bus_return_data rets (L1I_bus c)) (\<lambda>bus. Inr (r, c\<lparr>L1I_bus := bus, o_lower := w\<rparr>)))"

definition send_l1d :: "('b, 'w) core_env \<Rightarrow> PACKET \<Rightarrow> ('b, 'w) O3_CPU \<Rightarrow> (int \<times> ('b, 'w) O3_CPU) result" where
  "send_l1d E pkt c =
     bindE (l1d_add_rq E pkt (o_lower c)) (\<lambda>(r, rets, w).
     bindE (foldE bus_return_data rets (L1D_bus c)) (\<lambda>bus. Inr (r, c\<lparr>L1D_bus := bus, o_lower := w\<rparr>)))"

definition do_translate_fetch :: "('b, 'w) core_env \<Rightarrow> nat list \<Rightarrow> ooo_model_instr \<Rightarrow> ('b, 'w) O3_CPU \<Rightarrow> ('b, 'w) O3_CPU result" where
  "do_translate_fetch E deps i c =
     (let trace_packet = (bus_packet E (itlb_fill_level E) c)
            \<lparr>p_address := i_ip i, p_v_address := i_ip i, p_instr_id := i_instr_id i, p_ip := i_ip i, p_type := LOAD,
             p_asid := (0, 0), p_to_return := [ITLB_bus_id (ocfg c)], p_instr_dep := map (Pair (o_cpu c)) deps\<rparr>
      in bindE (send_itlb E trace_packet c) (\<lambda>(rq_index, c).
         Inr (if rq_index \<noteq> - 2 then fold (\<lambda>p. upd_ifetch p (\<lambda>i. i\<lparr>i_translated := INFLIGHT\<rparr>)) deps c else c)))"

text \<open>
  The first instruction a predicate selects and the end of the run of
  instructions that share its block or page.  When none is selected the source
  reads the cell \<open>end()\<close> points to, but then does not act on it.
\<close>

definition translate_fetch :: "('b, 'w) core_env \<Rightarrow> ('b, 'w) O3_CPU \<Rightarrow> ('b, 'w) O3_CPU result" where
  "translate_fetch E c =
     (let buf = IFETCH_BUFFER c; xs = cb_list buf; sh = LOG2_PAGE_SIZE (o_consts E) in
      if cb_empty buf then Inr c
      else
        let b = find_if (\<lambda>x. i_translated x = 0) xs;
            find_addr = i_ip (cb_at buf (cb_pos buf b));
            e = b + find_if (\<lambda>x. drop_bit sh find_addr \<noteq> drop_bit sh (i_ip x)) (drop b xs)
        in if e \<noteq> length xs \<or> b = 0
           then do_translate_fetch E (map (cb_pos buf) [b..<e]) (cb_at buf (cb_pos buf b)) c
           else Inr c)"

definition do_fetch_instruction :: "('b, 'w) core_env \<Rightarrow> nat list \<Rightarrow> ooo_model_instr \<Rightarrow> ('b, 'w) O3_CPU \<Rightarrow> ('b, 'w) O3_CPU result" where
  "do_fetch_instruction E deps i c =
     (let fetch_packet = (bus_packet E (l1i_fill_level E) c)
            \<lparr>p_address := i_instruction_pa i, p_data := i_instruction_pa i, p_v_address := i_ip i,
             p_instr_id := i_instr_id i, p_ip := i_ip i, p_type := LOAD,
             p_asid := (0, 0), p_to_return := [L1I_bus_id (ocfg c)], p_instr_dep := map (Pair (o_cpu c)) deps\<rparr>
      in bindE (send_l1i E fetch_packet c) (\<lambda>(rq_index, c).
         Inr (if rq_index \<noteq> - 2 then fold (\<lambda>p. upd_ifetch p (\<lambda>i. i\<lparr>i_fetched := INFLIGHT\<rparr>)) deps c else c)))"

definition fetch_instruction :: "('b, 'w) core_env \<Rightarrow> ('b, 'w) O3_CPU \<Rightarrow> ('b, 'w) O3_CPU result" where
  "fetch_instruction E c =
     (let c = (if fetch_stall c \<and> fetch_resume_cycle c \<le> current_cycle c \<and> fetch_resume_cycle c \<noteq> 0
               then c\<lparr>fetch_stall := False, fetch_resume_cycle := 0\<rparr> else c);
          buf = IFETCH_BUFFER c; xs = cb_list buf; sh = LOG2_BLOCK_SIZE (o_consts E)
      in if cb_empty buf then Inr c
         else
           let b = find_if (\<lambda>x. i_translated x = COMPLETED \<and> i_fetched x = 0) xs;
               find_addr = i_instruction_pa (cb_at buf (cb_pos buf b));
               e = b + find_if (\<lambda>x. drop_bit sh find_addr \<noteq> drop_bit sh (i_instruction_pa x)) (drop b xs)
           in if e \<noteq> length xs \<or> b = 0
              then do_fetch_instruction E (map (cb_pos buf) [b..<e]) (cb_at buf (cb_pos buf b)) c
              else Inr c)"

fun promote_loop :: "('b, 'w) core_env \<Rightarrow> nat \<Rightarrow> ('b, 'w) O3_CPU \<Rightarrow> ('b, 'w) O3_CPU result" where
  "promote_loop E 0 c = Inr c"
| "promote_loop E (Suc bw) c =
     (let front = cb_front (IFETCH_BUFFER c) in
      if \<not> cb_empty (IFETCH_BUFFER c) \<and> \<not> dq_full (DECODE_BUFFER c) \<and> i_translated front = COMPLETED \<and> i_fetched front = COMPLETED then
        bindE (if \<not> warm E c \<or> i_decoded front \<noteq> 0 then dq_push_back_ready front (DECODE_BUFFER c)
               else dq_push_back front (DECODE_BUFFER c)) (\<lambda>q.
        bindE (cb_pop_front (IFETCH_BUFFER c)) (\<lambda>buf.
        promote_loop E bw (c\<lparr>DECODE_BUFFER := q, IFETCH_BUFFER := buf\<rparr>)))
      else Inr c)"

definition promote_to_decode :: "('b, 'w) core_env \<Rightarrow> ('b, 'w) O3_CPU \<Rightarrow> ('b, 'w) O3_CPU result" where
  "promote_to_decode E c =
     bindE (promote_loop E (FETCH_WIDTH (ocfg c)) c) (\<lambda>c.
     if \<not> cb_empty (IFETCH_BUFFER c) then check_deadlock (cb_front (IFETCH_BUFFER c)) c else Inr c)"

section \<open>Decoding and dispatching\<close>

fun decode_loop :: "('b, 'w) core_env \<Rightarrow> nat \<Rightarrow> ('b, 'w) O3_CPU \<Rightarrow> ('b, 'w) O3_CPU result" where
  "decode_loop E 0 c = Inr c"
| "decode_loop E (Suc bw) c =
     (if dq_has_ready (DECODE_BUFFER c) \<and> \<not> dq_full (DISPATCH_BUFFER c) then
        let db_entry = dq_front (DECODE_BUFFER c) in
        bindE (do_dib_update db_entry c) (\<lambda>c.
        let early = i_branch_mispredicted db_entry
              \<and> (i_branch_type db_entry = BRANCH_DIRECT_JUMP \<or> i_branch_type db_entry = BRANCH_DIRECT_CALL);
            db_entry = (if early then db_entry\<lparr>i_branch_mispredicted := False\<rparr> else db_entry);
            c = (if early then c\<lparr>fetch_resume_cycle := current_cycle c + BRANCH_MISPREDICT_PENALTY (ocfg c)\<rparr> else c)
        in bindE (if warm E c then dq_push_back db_entry (DISPATCH_BUFFER c)
                  else dq_push_back_ready db_entry (DISPATCH_BUFFER c)) (\<lambda>q.
           bindE (dq_pop_front (DECODE_BUFFER c)) (\<lambda>d.
           decode_loop E bw (c\<lparr>DISPATCH_BUFFER := q, DECODE_BUFFER := d\<rparr>))))
      else Inr c)"

definition decode_instruction :: "('b, 'w) core_env \<Rightarrow> ('b, 'w) O3_CPU \<Rightarrow> ('b, 'w) O3_CPU result" where
  "decode_instruction E c =
     bindE (decode_loop E (DECODE_WIDTH (ocfg c)) c) (\<lambda>c.
     if \<not> dq_empty (DECODE_BUFFER c) then check_deadlock (dq_front (DECODE_BUFFER c)) c else Inr c)"

fun dispatch_loop :: "nat \<Rightarrow> ('b, 'w) O3_CPU \<Rightarrow> ('b, 'w) O3_CPU result" where
  "dispatch_loop 0 c = Inr c"
| "dispatch_loop (Suc bw) c =
     (if dq_has_ready (DISPATCH_BUFFER c) \<and> \<not> cb_full (ROB c) then
        bindE (cb_push_back (dq_front (DISPATCH_BUFFER c)) (ROB c)) (\<lambda>rob.
        bindE (dq_pop_front (DISPATCH_BUFFER c)) (\<lambda>q.
        dispatch_loop bw (c\<lparr>ROB := rob, DISPATCH_BUFFER := q\<rparr>)))
      else Inr c)"

definition dispatch_instruction :: "('b, 'w) O3_CPU \<Rightarrow> ('b, 'w) O3_CPU result" where
  "dispatch_instruction c =
     (if dq_empty (DISPATCH_BUFFER c) then Inr c
      else
        bindE (dispatch_loop (DISPATCH_WIDTH (ocfg c)) c) (\<lambda>c.
        if \<not> dq_empty (DISPATCH_BUFFER c) then check_deadlock (dq_front (DISPATCH_BUFFER c)) c else Inr c))"

definition prefetch_code_line :: "('b, 'w) core_env \<Rightarrow> u64 \<Rightarrow> ('b, 'w) O3_CPU \<Rightarrow> (int \<times> ('b, 'w) O3_CPU) result" where
  "prefetch_code_line E pf_v_addr c =
     bindE (l1i_prefetch_line E pf_v_addr True 0 (o_lower c)) (\<lambda>(r, w). Inr (r, c\<lparr>o_lower := w\<rparr>))"

end
