(* ===== verification/CoreExec.thy ===== *)
theory CoreExec
  imports Core
begin

text \<open>
  The second half of \<open>src/ooo_cpu.cc\<close>: scheduling, execution, the load and store
  queue, memory returns, retirement, and the order of the stages in \<open>operate\<close>.
\<close>

section \<open>Scheduling and execution\<close>

definition instr_reg_will_produce :: "u8 \<Rightarrow> ooo_model_instr \<Rightarrow> bool" where
  "instr_reg_will_produce match_reg test \<longleftrightarrow>
     i_executed test \<noteq> COMPLETED \<and> match_reg \<in> set (i_destination_registers test)"

text \<open>
  The search backwards from the instruction at index \<open>k\<close> of the reorder buffer:
  the index of the youngest older instruction with a property.
\<close>

definition find_prior :: "(ooo_model_instr \<Rightarrow> bool) \<Rightarrow> nat \<Rightarrow> ('b, 'w) O3_CPU \<Rightarrow> nat option" where
  "find_prior P k c =
     (let older = rev (take k (cb_list (ROB c))); i = find_if P older
      in if i = length older then None else Some (k - 1 - i))"

definition mark_dependency :: "nat \<Rightarrow> u8 \<Rightarrow> ('b, 'w) O3_CPU \<Rightarrow> ('b, 'w) O3_CPU" where
  "mark_dependency k src_reg c =
     (if src_reg = 0 then c
      else
        case find_prior (instr_reg_will_produce src_reg) k c of
          None \<Rightarrow> c
        | Some j \<Rightarrow>
            let rob_it = cb_pos (ROB c) k; prior = cb_pos (ROB c) j;
                deps = i_registers_instrs_depend_on_me (cb_at (ROB c) prior)
            in if deps = [] \<or> last deps \<noteq> rob_it
               then upd_rob rob_it (\<lambda>i. i\<lparr>i_num_reg_dependent := i_num_reg_dependent i + 1\<rparr>)
                      (upd_rob prior (\<lambda>i. i\<lparr>i_registers_instrs_depend_on_me := deps @ [rob_it]\<rparr>) c)
               else c)"

definition do_scheduling :: "('b, 'w) core_env \<Rightarrow> nat \<Rightarrow> ('b, 'w) O3_CPU \<Rightarrow> ('b, 'w) O3_CPU" where
  "do_scheduling E k c =
     (let rob_it = cb_pos (ROB c) k;
          c = fold (mark_dependency k) (i_source_registers (cb_at (ROB c) rob_it)) c
      in upd_rob rob_it (\<lambda>i.
           if i_is_memory i then i\<lparr>i_scheduled := INFLIGHT\<rparr>
           else i\<lparr>i_scheduled := COMPLETED,
                  i_event_cycle := current_cycle c + (if warm E c then SCHEDULING_LATENCY (ocfg c) else 0)\<rparr>) c)"

definition push_ready :: "nat \<Rightarrow> ('b, 'w) O3_CPU \<Rightarrow> ('b, 'w) O3_CPU result" where
  "push_ready p c =
     bindE (assertE ''ready_to_execute.size() < ROB.size()'' (length (ready_to_execute c) < cb_sz (ROB c))) (\<lambda>_.
     Inr (c\<lparr>ready_to_execute := ready_to_execute c @ [p]\<rparr>))"

definition schedule_one :: "('b, 'w) core_env \<Rightarrow> nat \<Rightarrow> ('b, 'w) O3_CPU \<Rightarrow> ('b, 'w) O3_CPU result" where
  "schedule_one E k c =
     (let rob_it = cb_pos (ROB c) k in
      if i_scheduled (cb_at (ROB c) rob_it) = 0 then
        let c = do_scheduling E k c; i = cb_at (ROB c) rob_it
        in if i_scheduled i = COMPLETED \<and> i_num_reg_dependent i = 0 then push_ready rob_it c else Inr c
      else Inr c)"

fun schedule_loop :: "('b, 'w) core_env \<Rightarrow> nat list \<Rightarrow> nat \<Rightarrow> ('b, 'w) O3_CPU \<Rightarrow> ('b, 'w) O3_CPU result" where
  "schedule_loop E [] bw c = Inr c"
| "schedule_loop E (k # ks) bw c =
     (if bw = 0 then Inr c
      else
        bindE (schedule_one E k c) (\<lambda>c.
        schedule_loop E ks (if i_executed (cb_at (ROB c) (cb_pos (ROB c) k)) = 0 then bw - 1 else bw) c))"

definition schedule_instruction :: "('b, 'w) core_env \<Rightarrow> ('b, 'w) O3_CPU \<Rightarrow> ('b, 'w) O3_CPU result" where
  "schedule_instruction E c = schedule_loop E [0..<cb_occupancy (ROB c)] (SCHEDULER_SIZE (ocfg c)) c"

definition do_execution :: "('b, 'w) core_env \<Rightarrow> nat \<Rightarrow> ('b, 'w) O3_CPU \<Rightarrow> ('b, 'w) O3_CPU" where
  "do_execution E rob_it c =
     (upd_rob rob_it (\<lambda>i. i\<lparr>i_executed := INFLIGHT,
        i_event_cycle := current_cycle c + (if warm E c then EXEC_LATENCY (ocfg c) else 0)\<rparr>) c)
       \<lparr>inflight_reg_executions := inflight_reg_executions c + 1\<rparr>"

fun execute_loop :: "('b, 'w) core_env \<Rightarrow> nat \<Rightarrow> ('b, 'w) O3_CPU \<Rightarrow> ('b, 'w) O3_CPU" where
  "execute_loop E 0 c = c"
| "execute_loop E (Suc n) c =
     (case ready_to_execute c of
        [] \<Rightarrow> c
      | p # ps \<Rightarrow> execute_loop E n ((do_execution E p c)\<lparr>ready_to_execute := ps\<rparr>))"

definition execute_instruction :: "('b, 'w) core_env \<Rightarrow> ('b, 'w) O3_CPU \<Rightarrow> ('b, 'w) O3_CPU" where
  "execute_instruction E c = execute_loop E (EXEC_WIDTH (ocfg c)) c"

section \<open>Loads and stores\<close>

definition finish_mem_op :: "nat \<Rightarrow> ('b, 'w) O3_CPU \<Rightarrow> ('b, 'w) O3_CPU" where
  "finish_mem_op p c =
     (let c = upd_rob p (\<lambda>i. i\<lparr>i_num_mem_ops := i_num_mem_ops i - 1, i_event_cycle := current_cycle c\<rparr>) c
      in if i_num_mem_ops (cb_at (ROB c) p) = 0 then c\<lparr>inflight_mem_executions := inflight_mem_executions c + 1\<rparr> else c)"

text \<open>
  The source also writes the physical address and the state of the load before
  it resets the entry; nothing reads them in between.
\<close>

definition do_sq_forward_to_lq :: "nat \<Rightarrow> ('b, 'w) O3_CPU \<Rightarrow> ('b, 'w) O3_CPU result" where
  "do_sq_forward_to_lq lq c =
     bindE (deref (l_rob_index (LQ c ! lq))) (\<lambda>p.
     let c' = finish_mem_op p c in
     bindE (assertE ''lq_entry.rob_index->num_mem_ops >= 0'' (i_num_mem_ops (cb_at (ROB c') p) \<ge> 0)) (\<lambda>_.
     Inr (upd_lq lq (\<lambda>_. LSQ_ENTRY_new) c')))"

definition instr_mem_will_produce :: "u64 \<Rightarrow> ooo_model_instr \<Rightarrow> bool" where
  "instr_mem_will_produce match_mem test \<longleftrightarrow> match_mem \<in> set (i_destination_memory test)"

definition sq_will_forward :: "u64 \<Rightarrow> u64 \<Rightarrow> LSQ_ENTRY \<Rightarrow> bool" where
  "sq_will_forward match_id match_addr sq_test \<longleftrightarrow>
     l_fetched sq_test = COMPLETED \<and> l_instr_id sq_test = match_id \<and> l_virtual_address sq_test = match_addr"

definition add_load_queue :: "nat \<Rightarrow> nat \<Rightarrow> ('b, 'w) O3_CPU \<Rightarrow> ('b, 'w) O3_CPU result" where
  "add_load_queue k data_index c =
     (let lq_it = find_if_not is_valid_LSQ (LQ c) in
      bindE (assertE ''lq_it != std::end(LQ)'' (lq_it \<noteq> length (LQ c))) (\<lambda>_.
      let rob_it = cb_pos (ROB c) k; i = cb_at (ROB c) rob_it; va = i_source_memory i ! data_index;
          c = upd_rob rob_it (\<lambda>i. i\<lparr>i_lq_index := (i_lq_index i)[data_index := Some lq_it],
                                  i_source_added := (i_source_added i)[data_index := True]\<rparr>) c;
          c = upd_lq lq_it (\<lambda>e. e\<lparr>l_instr_id := i_instr_id i, l_virtual_address := va, l_ip := i_ip i,
                l_rob_index := Some rob_it, l_asid := i_asid i,
                l_event_cycle := current_cycle c + SCHEDULING_LATENCY (ocfg c)\<rparr>) c
      in case find_prior (instr_mem_will_produce va) k c of
           None \<Rightarrow> Inr (c\<lparr>RTL0 := RTL0 c @ [lq_it]\<rparr>)
         | Some j \<Rightarrow>
             let prior = cb_pos (ROB c) j; producer = i_instr_id (cb_at (ROB c) prior);
                 c = upd_rob prior (\<lambda>i. i\<lparr>i_memory_instrs_depend_on_me := i_memory_instrs_depend_on_me i @ [rob_it]\<rparr>) c;
                 c = upd_lq lq_it (\<lambda>e. e\<lparr>l_producer_id := producer, l_translated := INFLIGHT\<rparr>) c;
                 sq_it = find_if (sq_will_forward producer va) (SQ c)
             in if sq_it \<noteq> length (SQ c) then do_sq_forward_to_lq lq_it c else Inr c))"

definition add_store_queue :: "nat \<Rightarrow> nat \<Rightarrow> ('b, 'w) O3_CPU \<Rightarrow> ('b, 'w) O3_CPU result" where
  "add_store_queue k data_index c =
     (let sq_it = find_if_not is_valid_LSQ (SQ c) in
      if sq_it = length (SQ c) then Inl (Undefined ''std::end(SQ)'')
      else
        bindE (assertE ''sq_it->virtual_address == 0'' (l_virtual_address (SQ c ! sq_it) = 0)) (\<lambda>_.
        let rob_it = cb_pos (ROB c) k; i = cb_at (ROB c) rob_it;
            c = upd_rob rob_it (\<lambda>i. i\<lparr>i_sq_index := (i_sq_index i)[data_index := Some sq_it]\<rparr>) c;
            c = upd_sq sq_it (\<lambda>e. e\<lparr>l_instr_id := i_instr_id i, l_virtual_address := i_destination_memory i ! data_index,
                  l_ip := i_ip i, l_rob_index := Some rob_it, l_asid := i_asid i,
                  l_event_cycle := current_cycle c + SCHEDULING_LATENCY (ocfg c)\<rparr>) c;
            c = c\<lparr>STA := tl (STA c)\<rparr>;
            c = upd_rob rob_it (\<lambda>i. i\<lparr>i_destination_added := (i_destination_added i)[data_index := True]\<rparr>) c
        in Inr (c\<lparr>RTS0 := RTS0 c @ [sq_it]\<rparr>)))"

text \<open>The two loops of \<open>do_memory_scheduling\<close> count the operations and how many of them are in a queue.\<close>

definition schedule_load :: "nat \<Rightarrow> nat \<Rightarrow> (nat \<times> nat) \<times> ('b, 'w) O3_CPU \<Rightarrow> ((nat \<times> nat) \<times> ('b, 'w) O3_CPU) result" where
  "schedule_load k i s =
     (case s of ((ops, added), c) \<Rightarrow>
      let a = cb_at (ROB c) (cb_pos (ROB c) k) in
      if i_source_memory a ! i = 0 then Inr s
      else if i_source_added a ! i then Inr ((ops + 1, added + 1), c)
      else if \<not> list_all is_valid_LSQ (LQ c) then
        bindE (add_load_queue k i c) (\<lambda>c. Inr ((ops + 1, added + 1), c))
      else Inr ((ops + 1, added), c))"

definition schedule_store :: "nat \<Rightarrow> nat \<Rightarrow> (nat \<times> nat) \<times> ('b, 'w) O3_CPU \<Rightarrow> ((nat \<times> nat) \<times> ('b, 'w) O3_CPU) result" where
  "schedule_store k i s =
     (case s of ((ops, added), c) \<Rightarrow>
      let a = cb_at (ROB c) (cb_pos (ROB c) k) in
      if i_destination_memory a ! i = 0 then Inr s
      else if i_destination_added a ! i then Inr ((ops + 1, added + 1), c)
      else if \<not> list_all is_valid_LSQ (SQ c) then
        case STA c of
          [] \<Rightarrow> Inl (Undefined ''STA.front()'')
        | sta_id # _ \<Rightarrow>
            if sta_id = i_instr_id a then bindE (add_store_queue k i c) (\<lambda>c. Inr ((ops + 1, added + 1), c))
            else Inr ((ops + 1, added), c)
      else Inr ((ops + 1, added), c))"

definition do_memory_scheduling :: "nat \<Rightarrow> ('b, 'w) O3_CPU \<Rightarrow> ('b, 'w) O3_CPU result" where
  "do_memory_scheduling k c =
     bindE (foldE (schedule_load k) [0..<NUM_INSTR_SOURCES] ((0, 0), c)) (\<lambda>s.
     bindE (foldE (schedule_store k) [0..<MAX_INSTR_DESTINATIONS] s) (\<lambda>((num_mem_ops, num_added), c).
     bindE (assertE ''num_added <= num_mem_ops'' (num_added \<le> num_mem_ops)) (\<lambda>_.
     Inr (if num_mem_ops = num_added
          then upd_rob (cb_pos (ROB c) k)
                 (\<lambda>i. i\<lparr>i_scheduled := COMPLETED, i_executed := (if i_executed i = 0 then INFLIGHT else i_executed i)\<rparr>) c
          else c))))"

fun schedule_memory_loop :: "nat list \<Rightarrow> nat \<Rightarrow> ('b, 'w) O3_CPU \<Rightarrow> ('b, 'w) O3_CPU result" where
  "schedule_memory_loop [] bw c = Inr c"
| "schedule_memory_loop (k # ks) bw c =
     (if bw = 0 then Inr c
      else
        let i = cb_at (ROB c) (cb_pos (ROB c) k) in
        bindE (if i_is_memory i \<and> i_num_reg_dependent i = 0 \<and> i_scheduled i = INFLIGHT
               then do_memory_scheduling k c else Inr c) (\<lambda>c.
        schedule_memory_loop ks (if i_executed (cb_at (ROB c) (cb_pos (ROB c) k)) = 0 then bw - 1 else bw) c))"

definition schedule_memory_instruction :: "('b, 'w) O3_CPU \<Rightarrow> ('b, 'w) O3_CPU result" where
  "schedule_memory_instruction c = schedule_memory_loop [0..<cb_occupancy (ROB c)] (SCHEDULER_SIZE (ocfg c)) c"

definition do_translate_store :: "('b, 'w) core_env \<Rightarrow> nat \<Rightarrow> ('b, 'w) O3_CPU \<Rightarrow> (int \<times> ('b, 'w) O3_CPU) result" where
  "do_translate_store E sq_it c =
     (let e = SQ c ! sq_it;
          data_packet = (bus_packet E (dtlb_fill_level E) c)
            \<lparr>p_address := l_virtual_address e, p_v_address := l_virtual_address e, p_instr_id := l_instr_id e,
             p_ip := l_ip e, p_type := RFO, p_asid := l_asid e, p_to_return := [DTLB_bus_id (ocfg c)], p_sq_dep := [sq_it]\<rparr>
      in bindE (send_dtlb E data_packet c) (\<lambda>(rq_index, c).
         Inr (rq_index, if rq_index \<noteq> - 2 then upd_sq sq_it (\<lambda>e. e\<lparr>l_translated := INFLIGHT\<rparr>) c else c)))"

definition do_translate_load :: "('b, 'w) core_env \<Rightarrow> nat \<Rightarrow> ('b, 'w) O3_CPU \<Rightarrow> (int \<times> ('b, 'w) O3_CPU) result" where
  "do_translate_load E lq_it c =
     (let e = LQ c ! lq_it;
          data_packet = (bus_packet E (dtlb_fill_level E) c)
            \<lparr>p_address := l_virtual_address e, p_v_address := l_virtual_address e, p_instr_id := l_instr_id e,
             p_ip := l_ip e, p_type := LOAD, p_asid := l_asid e, p_to_return := [DTLB_bus_id (ocfg c)], p_lq_dep := [lq_it]\<rparr>
      in bindE (send_dtlb E data_packet c) (\<lambda>(rq_index, c).
         Inr (rq_index, if rq_index \<noteq> - 2 then upd_lq lq_it (\<lambda>e. e\<lparr>l_translated := INFLIGHT\<rparr>) c else c)))"

definition execute_load :: "('b, 'w) core_env \<Rightarrow> nat \<Rightarrow> ('b, 'w) O3_CPU \<Rightarrow> (int \<times> ('b, 'w) O3_CPU) result" where
  "execute_load E lq_it c =
     (let e = LQ c ! lq_it;
          data_packet = (bus_packet E (l1d_fill_level E) c)
            \<lparr>p_address := l_physical_address e, p_v_address := l_virtual_address e, p_instr_id := l_instr_id e,
             p_ip := l_ip e, p_type := LOAD, p_asid := l_asid e, p_to_return := [L1D_bus_id (ocfg c)], p_lq_dep := [lq_it]\<rparr>
      in bindE (send_l1d E data_packet c) (\<lambda>(rq_index, c).
         Inr (rq_index, if rq_index \<noteq> - 2 then upd_lq lq_it (\<lambda>e. e\<lparr>l_fetched := INFLIGHT\<rparr>) c else c)))"

text \<open>Forwarding to the sources of one dependent load instruction (lines 866 to 877).\<close>

definition forward_source :: "nat \<Rightarrow> nat \<Rightarrow> nat \<Rightarrow> ('b, 'w) O3_CPU \<Rightarrow> ('b, 'w) O3_CPU result" where
  "forward_source sq_it dependent j c =
     (let d = cb_at (ROB c) dependent; e = SQ c ! sq_it in
      if i_source_memory d ! j \<noteq> 0 \<and> i_source_added d ! j \<and> i_source_memory d ! j = l_virtual_address e then
        bindE (deref (i_lq_index d ! j)) (\<lambda>lq.
        bindE (assertE ''dependent->lq_index[j]->producer_id == sq_it->instr_id''
                 (l_producer_id (LQ c ! lq) = l_instr_id e)) (\<lambda>_.
        do_sq_forward_to_lq lq c))
      else Inr c)"

definition execute_store :: "nat \<Rightarrow> ('b, 'w) O3_CPU \<Rightarrow> ('b, 'w) O3_CPU result" where
  "execute_store sq_it c =
     (let c = upd_sq sq_it (\<lambda>e. e\<lparr>l_fetched := COMPLETED, l_event_cycle := current_cycle c\<rparr>) c in
      bindE (deref (l_rob_index (SQ c ! sq_it))) (\<lambda>p.
      let c = finish_mem_op p c in
      bindE (assertE ''sq_it->rob_index->num_mem_ops >= 0'' (i_num_mem_ops (cb_at (ROB c) p) \<ge> 0)) (\<lambda>_.
      foldE (\<lambda>dependent. foldE (forward_source sq_it dependent) [0..<NUM_INSTR_SOURCES])
        (i_memory_instrs_depend_on_me (cb_at (ROB c) p)) c)))"

text \<open>
  The four loops of \<open>operate_lsq\<close>: each takes what is left of the bandwidth and
  gives what it leaves.
\<close>

fun rts0_loop :: "('b, 'w) core_env \<Rightarrow> nat \<Rightarrow> ('b, 'w) O3_CPU \<Rightarrow> (nat \<times> ('b, 'w) O3_CPU) result" where
  "rts0_loop E 0 c = Inr (0, c)"
| "rts0_loop E (Suc bw) c =
     (case RTS0 c of
        [] \<Rightarrow> Inr (Suc bw, c)
      | sq_it # _ \<Rightarrow>
          bindE (do_translate_store E sq_it c) (\<lambda>(rq_index, c).
          if rq_index = - 2 then Inr (Suc bw, c) else rts0_loop E bw (c\<lparr>RTS0 := tl (RTS0 c)\<rparr>)))"

fun rts1_loop :: "nat \<Rightarrow> ('b, 'w) O3_CPU \<Rightarrow> ('b, 'w) O3_CPU result" where
  "rts1_loop 0 c = Inr c"
| "rts1_loop (Suc bw) c =
     (case RTS1 c of
        [] \<Rightarrow> Inr c
      | sq_it # _ \<Rightarrow> bindE (execute_store sq_it c) (\<lambda>c. rts1_loop bw (c\<lparr>RTS1 := tl (RTS1 c)\<rparr>)))"

fun rtl0_loop :: "('b, 'w) core_env \<Rightarrow> nat \<Rightarrow> ('b, 'w) O3_CPU \<Rightarrow> (nat \<times> ('b, 'w) O3_CPU) result" where
  "rtl0_loop E 0 c = Inr (0, c)"
| "rtl0_loop E (Suc bw) c =
     (case RTL0 c of
        [] \<Rightarrow> Inr (Suc bw, c)
      | lq_it # _ \<Rightarrow>
          bindE (do_translate_load E lq_it c) (\<lambda>(rq_index, c).
          if rq_index = - 2 then Inr (Suc bw, c) else rtl0_loop E bw (c\<lparr>RTL0 := tl (RTL0 c)\<rparr>)))"

fun rtl1_loop :: "('b, 'w) core_env \<Rightarrow> nat \<Rightarrow> ('b, 'w) O3_CPU \<Rightarrow> ('b, 'w) O3_CPU result" where
  "rtl1_loop E 0 c = Inr c"
| "rtl1_loop E (Suc bw) c =
     (case RTL1 c of
        [] \<Rightarrow> Inr c
      | lq_it # _ \<Rightarrow>
          bindE (execute_load E lq_it c) (\<lambda>(rq_index, c).
          if rq_index = - 2 then Inr c else rtl1_loop E bw (c\<lparr>RTL1 := tl (RTL1 c)\<rparr>)))"

definition operate_lsq :: "('b, 'w) core_env \<Rightarrow> ('b, 'w) O3_CPU \<Rightarrow> ('b, 'w) O3_CPU result" where
  "operate_lsq E c =
     bindE (rts0_loop E (SQ_WIDTH (ocfg c)) c) (\<lambda>(bw, c).
     bindE (rts1_loop bw c) (\<lambda>c.
     bindE (rtl0_loop E (LQ_WIDTH (ocfg c)) c) (\<lambda>(bw, c).
     rtl1_loop E bw c)))"

section \<open>Completion\<close>

definition release_dependent :: "nat \<Rightarrow> ('b, 'w) O3_CPU \<Rightarrow> ('b, 'w) O3_CPU result" where
  "release_dependent dependent c =
     (let c = upd_rob dependent (\<lambda>i. i\<lparr>i_num_reg_dependent := i_num_reg_dependent i - 1\<rparr>) c;
          n = i_num_reg_dependent (cb_at (ROB c) dependent)
      in bindE (assertE ''dependent->num_reg_dependent >= 0'' (n \<ge> 0)) (\<lambda>_.
         Inr (if n = 0
              then upd_rob dependent (\<lambda>i. i\<lparr>i_scheduled := (if i_is_memory i then INFLIGHT else COMPLETED)\<rparr>) c
              else c)))"

definition do_complete_execution :: "nat \<Rightarrow> ('b, 'w) O3_CPU \<Rightarrow> ('b, 'w) O3_CPU result" where
  "do_complete_execution rob_it c =
     (let c = upd_rob rob_it (\<lambda>i. i\<lparr>i_executed := COMPLETED\<rparr>) c; i = cb_at (ROB c) rob_it;
          c = (if \<not> i_is_memory i then c\<lparr>inflight_reg_executions := inflight_reg_executions c - 1\<rparr>
               else c\<lparr>inflight_mem_executions := inflight_mem_executions c - 1\<rparr>);
          c = c\<lparr>completed_executions := completed_executions c + 1\<rparr>
      in bindE (foldE release_dependent (i_registers_instrs_depend_on_me i) c) (\<lambda>c.
         Inr (if i_branch_mispredicted (cb_at (ROB c) rob_it)
              then c\<lparr>fetch_resume_cycle := current_cycle c + BRANCH_MISPREDICT_PENALTY (ocfg c)\<rparr> else c)))"

definition wake_dependent :: "nat \<Rightarrow> ('b, 'w) O3_CPU \<Rightarrow> ('b, 'w) O3_CPU result" where
  "wake_dependent dependent c =
     (let i = cb_at (ROB c) dependent in
      if i_scheduled i = COMPLETED \<and> i_num_reg_dependent i = 0 then push_ready dependent c else Inr c)"

fun complete_loop :: "nat list \<Rightarrow> nat \<Rightarrow> ('b, 'w) O3_CPU \<Rightarrow> ('b, 'w) O3_CPU result" where
  "complete_loop [] bw c = Inr c"
| "complete_loop (p # ps) bw c =
     (if bw = 0 then Inr c
      else
        let i = cb_at (ROB c) p in
        if i_executed i = INFLIGHT \<and> i_event_cycle i \<le> current_cycle c \<and> i_num_mem_ops i = 0 then
          bindE (do_complete_execution p c) (\<lambda>c.
          bindE (foldE wake_dependent (i_registers_instrs_depend_on_me (cb_at (ROB c) p)) c) (\<lambda>c.
          complete_loop ps (bw - 1) c))
        else complete_loop ps bw c)"

definition complete_inflight_instruction :: "('b, 'w) O3_CPU \<Rightarrow> ('b, 'w) O3_CPU result" where
  "complete_inflight_instruction c =
     (if inflight_reg_executions c > 0 \<or> inflight_mem_executions c > 0
      then complete_loop (cb_positions (ROB c)) (EXEC_WIDTH (ocfg c)) c else Inr c)"

section \<open>Memory returns\<close>

text \<open>
  Serving the instructions that wait for a translation or a line: the inner
  loop takes the dependants of the front packet while there is bandwidth, and
  gives the bandwidth left and the dependants not served.
\<close>

fun serve_itlb :: "constants \<Rightarrow> PACKET \<Rightarrow> nat \<Rightarrow> rob_it list \<Rightarrow> ('b, 'w) O3_CPU \<Rightarrow> nat \<times> rob_it list \<times> ('b, 'w) O3_CPU" where
  "serve_itlb k e bw [] c = (bw, [], c)"
| "serve_itlb k e bw ((b, it) # ds) c =
     (if bw = 0 then (0, (b, it) # ds, c)
      else
        let i = cb_at (IFETCH_BUFFER c) it in
        if drop_bit (LOG2_PAGE_SIZE k) (i_ip i) = drop_bit (LOG2_PAGE_SIZE k) (p_address e) \<and> i_translated i \<noteq> 0
        then serve_itlb k e (bw - 1) ds
               (upd_ifetch it (\<lambda>i. i\<lparr>i_translated := COMPLETED,
                  i_instruction_pa := splice_bits (p_data e) (i_ip i) (LOG2_PAGE_SIZE k)\<rparr>) c)
        else serve_itlb k e bw ds c)"

fun serve_l1i :: "constants \<Rightarrow> PACKET \<Rightarrow> nat \<Rightarrow> rob_it list \<Rightarrow> ('b, 'w) O3_CPU \<Rightarrow> nat \<times> rob_it list \<times> ('b, 'w) O3_CPU" where
  "serve_l1i k e bw [] c = (bw, [], c)"
| "serve_l1i k e bw ((b, it) # ds) c =
     (if bw = 0 then (0, (b, it) # ds, c)
      else
        let i = cb_at (IFETCH_BUFFER c) it in
        if drop_bit (LOG2_BLOCK_SIZE k) (i_instruction_pa i) = drop_bit (LOG2_BLOCK_SIZE k) (p_address e)
           \<and> i_fetched i \<noteq> 0 \<and> i_translated i = COMPLETED
        then serve_l1i k e (bw - 1) ds (upd_ifetch it (\<lambda>i. i\<lparr>i_fetched := COMPLETED\<rparr>) c)
        else serve_l1i k e bw ds c)"

definition bus_step :: "PACKET circular_buffer \<Rightarrow> rob_it list \<Rightarrow> PACKET circular_buffer result" where
  "bus_step bus ds =
     (let bus = cb_set (cb_begin bus) ((cb_front bus)\<lparr>p_instr_dep := ds\<rparr>) bus
      in if ds = [] then cb_pop_front bus else Inr bus)"

fun itlb_loop :: "constants \<Rightarrow> nat \<Rightarrow> nat \<Rightarrow> ('b, 'w) O3_CPU \<Rightarrow> ('b, 'w) O3_CPU result" where
  "itlb_loop k bw 0 c = Inr c"
| "itlb_loop k bw (Suc to_read) c =
     (if bw > 0 \<and> \<not> cb_empty (ITLB_bus c) then
        let e = cb_front (ITLB_bus c); (bw, ds, c) = serve_itlb k e bw (p_instr_dep e) c
        in bindE (bus_step (ITLB_bus c) ds) (\<lambda>bus. itlb_loop k bw to_read (c\<lparr>ITLB_bus := bus\<rparr>))
      else Inr c)"

fun l1i_loop :: "constants \<Rightarrow> nat \<Rightarrow> nat \<Rightarrow> ('b, 'w) O3_CPU \<Rightarrow> ('b, 'w) O3_CPU result" where
  "l1i_loop k bw 0 c = Inr c"
| "l1i_loop k bw (Suc to_read) c =
     (if bw > 0 \<and> \<not> cb_empty (L1I_bus c) then
        let e = cb_front (L1I_bus c); (bw, ds, c) = serve_l1i k e bw (p_instr_dep e) c
        in bindE (bus_step (L1I_bus c) ds) (\<lambda>bus. l1i_loop k bw to_read (c\<lparr>L1I_bus := bus\<rparr>))
      else Inr c)"

definition translate_entry :: "constants \<Rightarrow> PACKET \<Rightarrow> u64 \<Rightarrow> LSQ_ENTRY \<Rightarrow> LSQ_ENTRY" where
  "translate_entry k pkt cycle e =
     e\<lparr>l_physical_address := splice_bits (p_data pkt) (l_virtual_address e) (LOG2_PAGE_SIZE k),
       l_translated := COMPLETED, l_event_cycle := cycle\<rparr>"

fun dtlb_loop :: "constants \<Rightarrow> nat \<Rightarrow> ('b, 'w) O3_CPU \<Rightarrow> ('b, 'w) O3_CPU result" where
  "dtlb_loop k 0 c = Inr c"
| "dtlb_loop k (Suc to_read) c =
     (if \<not> cb_empty (DTLB_bus c) then
        let e = cb_front (DTLB_bus c);
            c = fold (\<lambda>sq c. (upd_sq sq (translate_entry k e (current_cycle c)) c)\<lparr>RTS1 := RTS1 c @ [sq]\<rparr>) (p_sq_dep e) c;
            c = fold (\<lambda>lq c. (upd_lq lq (translate_entry k e (current_cycle c)) c)\<lparr>RTL1 := RTL1 c @ [lq]\<rparr>) (p_lq_dep e) c
        in bindE (cb_pop_front (DTLB_bus c)) (\<lambda>bus. dtlb_loop k to_read (c\<lparr>DTLB_bus := bus\<rparr>))
      else Inr c)"

text \<open>The entry is reset after it was marked as fetched; nothing reads the mark in between.\<close>

definition finish_load :: "nat \<Rightarrow> ('b, 'w) O3_CPU \<Rightarrow> ('b, 'w) O3_CPU result" where
  "finish_load lq c =
     bindE (deref (l_rob_index (LQ c ! lq))) (\<lambda>p. Inr (upd_lq lq (\<lambda>_. LSQ_ENTRY_new) (finish_mem_op p c)))"

fun l1d_loop :: "nat \<Rightarrow> ('b, 'w) O3_CPU \<Rightarrow> ('b, 'w) O3_CPU result" where
  "l1d_loop 0 c = Inr c"
| "l1d_loop (Suc to_read) c =
     (if \<not> cb_empty (L1D_bus c) then
        bindE (foldE finish_load (p_lq_dep (cb_front (L1D_bus c))) c) (\<lambda>c.
        bindE (cb_pop_front (L1D_bus c)) (\<lambda>bus. l1d_loop to_read (c\<lparr>L1D_bus := bus\<rparr>)))
      else Inr c)"

definition handle_memory_return :: "('b, 'w) core_env \<Rightarrow> ('b, 'w) O3_CPU \<Rightarrow> ('b, 'w) O3_CPU result" where
  "handle_memory_return E c =
     bindE (itlb_loop (o_consts E) (FETCH_WIDTH (ocfg c)) (itlb_MAX_READ E) c) (\<lambda>c.
     bindE (l1i_loop (o_consts E) (FETCH_WIDTH (ocfg c)) (l1i_MAX_READ E) c) (\<lambda>c.
     bindE (dtlb_loop (o_consts E) (dtlb_MAX_READ E) c) (\<lambda>c.
     l1d_loop (l1d_MAX_READ E) c)))"

section \<open>Retirement\<close>

text \<open>Writing one destination of the oldest instruction (lines 1112 to 1139); \<open>False\<close> when the queue is full.\<close>

definition retire_store :: "('b, 'w) core_env \<Rightarrow> nat \<Rightarrow> ('b, 'w) O3_CPU \<Rightarrow> (bool \<times> ('b, 'w) O3_CPU) result" where
  "retire_store E i c =
     (let front = cb_front (ROB c) in
      if i_destination_memory front ! i = 0 then Inr (True, c)
      else
        bindE (deref (i_sq_index front ! i)) (\<lambda>sq_it.
        let e = SQ c ! sq_it;
            data_packet = (bus_packet E (l1d_fill_level E) c)
              \<lparr>p_address := l_physical_address e, p_v_address := l_virtual_address e, p_instr_id := l_instr_id e,
               p_ip := l_ip e, p_type := RFO, p_asid := l_asid e\<rparr>
        in bindE (l1d_add_wq E data_packet (o_lower c)) (\<lambda>(result, w).
           let c = c\<lparr>o_lower := w\<rparr> in
           if result \<noteq> - 2
           then Inr (True, upd_sq sq_it (\<lambda>_. LSQ_ENTRY_new)
                  (upd_rob (cb_begin (ROB c)) (\<lambda>a. a\<lparr>i_destination_memory := (i_destination_memory a)[i := 0]\<rparr>) c))
           else Inr (False, c))))"

fun retire_stores :: "('b, 'w) core_env \<Rightarrow> nat list \<Rightarrow> ('b, 'w) O3_CPU \<Rightarrow> (bool \<times> ('b, 'w) O3_CPU) result" where
  "retire_stores E [] c = Inr (True, c)"
| "retire_stores E (i # js) c =
     bindE (retire_store E i c) (\<lambda>(ok, c). if ok then retire_stores E js c else Inr (False, c))"

definition count_retired :: "ooo_model_instr \<Rightarrow> ('b, 'w) O3_CPU \<Rightarrow> ('b, 'w) O3_CPU" where
  "count_retired i c =
     (let d = (if i_is_memory i then 1 else 0) in
      if i_is_kernel i then c\<lparr>kernel_insn := kernel_insn c + 1, kernel_data := kernel_data c + d\<rparr>
      else c\<lparr>user_insn := user_insn c + 1, user_data := user_data c + d\<rparr>)"

fun retire_loop :: "('b, 'w) core_env \<Rightarrow> nat \<Rightarrow> ('b, 'w) O3_CPU \<Rightarrow> (bool \<times> ('b, 'w) O3_CPU) result" where
  "retire_loop E 0 c = Inr (True, c)"
| "retire_loop E (Suc bw) c =
     (if \<not> cb_empty (ROB c) \<and> i_executed (cb_front (ROB c)) = COMPLETED then
        bindE (retire_stores E [0..<MAX_INSTR_DESTINATIONS] c) (\<lambda>(ok, c).
        if \<not> ok then Inr (False, c)
        else
          let c = count_retired (cb_front (ROB c)) c in
          bindE (cb_pop_front (ROB c)) (\<lambda>rob.
          retire_loop E bw (c\<lparr>ROB := rob, completed_executions := completed_executions c - 1,
                             num_retired := num_retired c + 1\<rparr>)))
      else Inr (True, c))"

definition retire_rob :: "('b, 'w) core_env \<Rightarrow> ('b, 'w) O3_CPU \<Rightarrow> ('b, 'w) O3_CPU result" where
  "retire_rob E c =
     bindE (retire_loop E (RETIRE_WIDTH (ocfg c)) c) (\<lambda>(ok, c).
     if ok \<and> \<not> cb_empty (ROB c) then check_deadlock (cb_front (ROB c)) c else Inr c)"

section \<open>One cycle\<close>

definition core_operate :: "('b, 'w) core_env \<Rightarrow> ('b, 'w) O3_CPU \<Rightarrow> ('b, 'w) O3_CPU result" where
  "core_operate E c =
     (let c = c\<lparr>instrs_to_read_this_cycle :=
            of_nat (min (FETCH_WIDTH (ocfg c)) (cb_sz (IFETCH_BUFFER c) - cb_occupancy (IFETCH_BUFFER c)))\<rparr> in
      bindE (retire_rob E c) (\<lambda>c.
      bindE (complete_inflight_instruction c) (\<lambda>c.
      let c = execute_instruction E c in
      bindE (schedule_instruction E c) (\<lambda>c.
      bindE (handle_memory_return E c) (\<lambda>c.
      bindE (operate_lsq E c) (\<lambda>c.
      bindE (schedule_memory_instruction c) (\<lambda>c.
      bindE (dispatch_instruction c) (\<lambda>c.
      bindE (decode_instruction E c) (\<lambda>c.
      bindE (promote_to_decode E c) (\<lambda>c.
      bindE (fetch_instruction E c) (\<lambda>c.
      bindE (translate_fetch E c) (\<lambda>c.
      let c = check_dib c
      in Inr (c\<lparr>DISPATCH_BUFFER := dq_operate (DISPATCH_BUFFER c),
                DECODE_BUFFER := dq_operate (DECODE_BUFFER c)\<rparr>)))))))))))))"

end
