(* ===== verification/CoreSched.thy ===== *)
theory CoreSched
  imports CoreExec
begin

text \<open>
  The bookkeeping of register dependences in the reorder buffer, over the list
  \<open>L\<close> of its instructions, the function \<open>P\<close> from an index of the list to the
  position of the buffer, and the list \<open>R\<close> of positions that are ready to
  execute.  Each lemma is about one elementary change the stages make.
\<close>

section \<open>Invariant\<close>

abbreviation deps :: "ooo_model_instr \<Rightarrow> nat list" where
  "deps \<equiv> i_registers_instrs_depend_on_me"

text \<open>The instructions the one at index \<open>k\<close> still waits for.\<close>

definition waits :: "(nat \<Rightarrow> nat) \<Rightarrow> ooo_model_instr list \<Rightarrow> nat \<Rightarrow> nat set" where
  "waits P L k = {j. j < length L \<and> i_executed (L ! j) \<noteq> COMPLETED \<and> P k \<in> set (deps (L ! j))}"

text \<open>\<open>K\<close>: an instruction that is being scheduled; \<open>D\<close>: positions a completing instruction has yet to release.\<close>

definition deps_ok :: "(nat \<Rightarrow> nat) \<Rightarrow> nat set \<Rightarrow> ooo_model_instr list \<Rightarrow> bool" where
  "deps_ok P K L \<longleftrightarrow> (\<forall>j < length L. distinct (deps (L ! j)) \<and>
     (\<forall>p \<in> set (deps (L ! j)). \<exists>k. j < k \<and> k < length L \<and> p = P k \<and> (i_scheduled (L ! k) \<noteq> 0 \<or> k \<in> K)))"

definition count_ok :: "(nat \<Rightarrow> nat) \<Rightarrow> nat set \<Rightarrow> ooo_model_instr list \<Rightarrow> bool" where
  "count_ok P D L \<longleftrightarrow> (\<forall>k < length L.
     i_num_reg_dependent (L ! k) = int (card (waits P L k)) + (if P k \<in> D then 1 else 0))"

definition exec_ok :: "ooo_model_instr list \<Rightarrow> bool" where
  "exec_ok L \<longleftrightarrow> (\<forall>k < length L. i_executed (L ! k) \<noteq> 0 \<longrightarrow>
     i_scheduled (L ! k) = COMPLETED \<and> i_num_reg_dependent (L ! k) = 0)"

definition ready_ok :: "(nat \<Rightarrow> nat) \<Rightarrow> nat list \<Rightarrow> ooo_model_instr list \<Rightarrow> bool" where
  "ready_ok P R L \<longleftrightarrow> distinct R \<and> (\<forall>p \<in> set R. \<exists>k < length L. p = P k \<and>
     i_scheduled (L ! k) = COMPLETED \<and> i_executed (L ! k) = 0 \<and> i_num_reg_dependent (L ! k) = 0)"

definition youngest_writer :: "ooo_model_instr list \<Rightarrow> nat \<Rightarrow> u8 \<Rightarrow> nat \<Rightarrow> bool" where
  "youngest_writer L k r j \<longleftrightarrow> j < k \<and> r \<in> set (i_destination_registers (L ! j)) \<and>
     (\<forall>i. j < i \<and> i < k \<longrightarrow> r \<notin> set (i_destination_registers (L ! i)))"

definition raw_at :: "(nat \<Rightarrow> nat) \<Rightarrow> ooo_model_instr list \<Rightarrow> nat \<Rightarrow> u8 \<Rightarrow> bool" where
  "raw_at P L k r \<longleftrightarrow> (\<forall>j. youngest_writer L k r j \<longrightarrow>
     i_executed (L ! j) = COMPLETED \<or> P k \<in> set (deps (L ! j)))"

definition raw_ok :: "(nat \<Rightarrow> nat) \<Rightarrow> ooo_model_instr list \<Rightarrow> bool" where
  "raw_ok P L \<longleftrightarrow> (\<forall>k < length L. i_scheduled (L ! k) \<noteq> 0 \<longrightarrow>
     (\<forall>r \<in> set (i_source_registers (L ! k)). r \<noteq> 0 \<longrightarrow> raw_at P L k r))"

definition sched_inv :: "(nat \<Rightarrow> nat) \<Rightarrow> ooo_model_instr list \<Rightarrow> nat list \<Rightarrow> bool" where
  "sched_inv P L R \<longleftrightarrow> deps_ok P {} L \<and> count_ok P {} L \<and> exec_ok L \<and> ready_ok P R L \<and> raw_ok P L"

lemmas sched_defs = deps_ok_def count_ok_def exec_ok_def ready_ok_def raw_ok_def raw_at_def youngest_writer_def

lemma sched_invD:
  assumes "sched_inv P L R"
  shows "deps_ok P {} L" "count_ok P {} L" "exec_ok L" "ready_ok P R L" "raw_ok P L"
  using assms by (simp_all add: sched_inv_def)

lemma finite_waits [simp]: "finite (waits P L k)"
  by (simp add: waits_def)

lemma waits_cong:
  assumes "length L' = length L"
    "\<And>j. j < length L \<Longrightarrow> i_executed (L' ! j) \<noteq> COMPLETED \<and> P k \<in> set (deps (L' ! j)) \<longleftrightarrow>
                         i_executed (L ! j) \<noteq> COMPLETED \<and> P k \<in> set (deps (L ! j))"
  shows "waits P L' k = waits P L k"
  using assms by (auto simp: waits_def)

text \<open>A write of one instruction that keeps the fields a part of the invariant reads.\<close>

lemma deps_ok_update:
  assumes "deps_ok P K L" "k < length L" "deps x = deps (L ! k)"
    "i_scheduled (L ! k) \<noteq> 0 \<Longrightarrow> i_scheduled x \<noteq> 0" "K - {k} \<subseteq> K'" "k \<in> K \<Longrightarrow> i_scheduled x \<noteq> 0 \<or> k \<in> K'"
  shows "deps_ok P K' (L[k := x])"
  unfolding deps_ok_def
proof (intro allI impI conjI ballI)
  fix j assume j: "j < length (L[k := x])"
  have d: "deps (L[k := x] ! j) = deps (L ! j)" using j assms(2,3) by (simp add: nth_list_update)
  then show "distinct (deps (L[k := x] ! j))" using assms(1) j by (simp add: deps_ok_def)
  fix p assume "p \<in> set (deps (L[k := x] ! j))"
  with d j assms(1) obtain i where i: "j < i" "i < length L" "p = P i" "i_scheduled (L ! i) \<noteq> 0 \<or> i \<in> K"
    unfolding deps_ok_def by force
  then show "\<exists>i. j < i \<and> i < length (L[k := x]) \<and> p = P i \<and> (i_scheduled (L[k := x] ! i) \<noteq> 0 \<or> i \<in> K')"
    using assms(2,4,5,6) by (intro exI [of _ i]) (auto simp: nth_list_update)
qed

lemma count_ok_update:
  assumes "count_ok P D L" "k < length L" "deps x = deps (L ! k)"
    "i_executed x = COMPLETED \<longleftrightarrow> i_executed (L ! k) = COMPLETED" "i_num_reg_dependent x = i_num_reg_dependent (L ! k)"
  shows "count_ok P D (L[k := x])"
proof -
  have "waits P (L[k := x]) i = waits P L i" for i
    by (rule waits_cong) (use assms in \<open>auto simp: nth_list_update\<close>)
  then show ?thesis using assms by (auto simp: count_ok_def nth_list_update)
qed

lemma raw_ok_update:
  assumes "raw_ok P L" "k < length L" "set (deps (L ! k)) \<subseteq> set (deps x)"
    "i_executed (L ! k) = COMPLETED \<Longrightarrow> i_executed x = COMPLETED"
    "i_destination_registers x = i_destination_registers (L ! k)" "i_source_registers x = i_source_registers (L ! k)"
    "i_scheduled (L ! k) = 0 \<Longrightarrow> i_scheduled x \<noteq> 0 \<Longrightarrow>
       \<forall>r \<in> set (i_source_registers x). r \<noteq> 0 \<longrightarrow> raw_at P L k r"
  shows "raw_ok P (L[k := x])"
proof -
  have dst: "i_destination_registers (L[k := x] ! i) = i_destination_registers (L ! i)" for i
    using assms(2,5) by (cases "i = k") simp_all
  have yw: "youngest_writer (L[k := x]) i r j = youngest_writer L i r j" for i r j
    by (simp add: youngest_writer_def dst)
  have at: "raw_at P (L[k := x]) i r" if "raw_at P L i r" for i r
    using that assms(2,3,4) by (auto simp: raw_at_def yw nth_list_update)
  show ?thesis unfolding raw_ok_def
  proof (intro allI impI ballI)
    fix i r assume i: "i < length (L[k := x])" "i_scheduled (L[k := x] ! i) \<noteq> 0"
      "r \<in> set (i_source_registers (L[k := x] ! i))" "r \<noteq> 0"
    have "raw_at P L i r"
    proof (cases "i = k \<and> i_scheduled (L ! k) = 0")
      case True
      then show ?thesis using i assms(2,7) by simp
    next
      case False
      have "r \<in> set (i_source_registers (L ! i))" using i assms(2,6) by (simp add: nth_list_update split: if_splits)
      moreover have "i_scheduled (L ! i) \<noteq> 0" using i False assms(2) by (simp add: nth_list_update split: if_splits)
      ultimately show ?thesis using i(1,4) assms(1) unfolding raw_ok_def by (simp del: nth_list_update_eq)
    qed
    then show "raw_at P (L[k := x]) i r" by (rule at)
  qed
qed

lemma ready_ok_update:
  assumes "ready_ok P R L" "inj_on P {..<length L}" "k < length L"
    "P k \<in> set R \<Longrightarrow> i_scheduled x = COMPLETED \<and> i_executed x = 0 \<and> i_num_reg_dependent x = 0"
  shows "ready_ok P R (L[k := x])"
  unfolding ready_ok_def
proof (intro conjI ballI)
  show "distinct R" using assms(1) by (simp add: ready_ok_def)
  fix p assume p: "p \<in> set R"
  with assms(1) obtain i where i: "i < length L" "p = P i" "i_scheduled (L ! i) = COMPLETED"
    "i_executed (L ! i) = 0" "i_num_reg_dependent (L ! i) = 0" unfolding ready_ok_def by blast
  then show "\<exists>i < length (L[k := x]). p = P i \<and> i_scheduled (L[k := x] ! i) = COMPLETED
      \<and> i_executed (L[k := x] ! i) = 0 \<and> i_num_reg_dependent (L[k := x] ! i) = 0"
    using assms(3,4) p by (intro exI [of _ i]) (auto simp: nth_list_update)
qed

lemma exec_ok_update:
  assumes "exec_ok L" "i_executed x \<noteq> 0 \<Longrightarrow> i_scheduled x = COMPLETED \<and> i_num_reg_dependent x = 0"
  shows "exec_ok (L[k := x])"
proof (cases "k < length L")
  case True
  then show ?thesis using assms by (auto simp: exec_ok_def nth_list_update)
qed (use assms in \<open>simp add: list_update_beyond\<close>)

text \<open>An instruction that is ready or executing is not waited into.\<close>

lemma not_in_ready:
  assumes "ready_ok P R L" "inj_on P {..<length L}" "k < length L"
    "i_scheduled (L ! k) \<noteq> COMPLETED \<or> i_executed (L ! k) \<noteq> 0 \<or> i_num_reg_dependent (L ! k) \<noteq> 0"
  shows "P k \<notin> set R"
proof
  assume "P k \<in> set R"
  with assms(1) obtain i where i: "i < length L" "P k = P i" "i_scheduled (L ! i) = COMPLETED"
    "i_executed (L ! i) = 0" "i_num_reg_dependent (L ! i) = 0" unfolding ready_ok_def by blast
  have "k = i" using inj_onD [OF assms(2) i(2)] i(1) assms(3) by simp
  then show False using i(3-5) assms(4) by simp
qed

lemma ready_length:
  assumes "ready_ok P R L" "inj_on P {..<length L}" "k < length L" "P k \<notin> set R"
  shows "length R < length L"
proof -
  have "set R \<subseteq> P ` ({..<length L} - {k})"
  proof
    fix p assume p: "p \<in> set R"
    with assms(1) obtain i where "i < length L" "p = P i" unfolding ready_ok_def by blast
    then show "p \<in> P ` ({..<length L} - {k})" using p assms(4) by auto
  qed
  then have "card (set R) \<le> card (P ` ({..<length L} - {k}))" by (intro card_mono) auto
  also have "\<dots> \<le> card ({..<length L} - {k})" by (rule card_image_le) simp
  also have "\<dots> < length L" using assms(3) by simp
  finally show ?thesis using assms(1) distinct_card unfolding ready_ok_def by metis
qed


section \<open>Entering and leaving the reorder buffer\<close>

definition fresh :: "ooo_model_instr \<Rightarrow> bool" where
  "fresh i \<longleftrightarrow> deps i = [] \<and> i_executed i = 0 \<and> i_scheduled i = 0 \<and> i_num_reg_dependent i = 0"

lemma sched_inv_Nil: "sched_inv P [] []"
  by (simp add: sched_inv_def sched_defs)

lemma waits_snoc:
  assumes "deps x = []"
  shows "waits P (L @ [x]) k = waits P L k"
  using assms by (auto simp: waits_def nth_append less_Suc_eq)

lemma sched_inv_snoc:
  assumes inv: "sched_inv P L R" and x: "fresh x" and inj: "inj_on P {..length L}"
  shows "sched_inv P (L @ [x]) R"
proof -
  note i = sched_invD [OF inv]
  have w: "waits P (L @ [x]) k = waits P L k" for k using x by (intro waits_snoc) (simp add: fresh_def)
  have new: "waits P L (length L) = {}"
  proof -
    have "P (length L) \<notin> set (deps (L ! j))" if "j < length L" for j
    proof
      assume "P (length L) \<in> set (deps (L ! j))"
      with i(1) that obtain k where k: "k < length L" "P (length L) = P k" unfolding deps_ok_def by blast
      then show False using inj_onD [OF inj k(2)] by simp
    qed
    then show ?thesis by (auto simp: waits_def)
  qed
  have "deps_ok P {} (L @ [x])" unfolding deps_ok_def
  proof (intro allI impI conjI ballI)
    fix j assume j: "j < length (L @ [x])"
    show "distinct (deps ((L @ [x]) ! j))" using j i(1) x by (auto simp: deps_ok_def fresh_def nth_append less_Suc_eq)
    fix p assume p: "p \<in> set (deps ((L @ [x]) ! j))"
    then have jl: "j < length L" using j x by (auto simp: fresh_def nth_append less_Suc_eq)
    with p i(1) obtain k where "j < k" "k < length L" "p = P k" "i_scheduled (L ! k) \<noteq> 0"
      unfolding deps_ok_def by (auto simp: nth_append)
    then show "\<exists>k. j < k \<and> k < length (L @ [x]) \<and> p = P k \<and> (i_scheduled ((L @ [x]) ! k) \<noteq> 0 \<or> k \<in> {})"
      by (intro exI [of _ k]) (simp add: nth_append)
  qed
  moreover have "count_ok P {} (L @ [x])"
    using i(2) x new by (auto simp: count_ok_def fresh_def nth_append less_Suc_eq w)
  moreover have "exec_ok (L @ [x])" using i(3) x by (auto simp: exec_ok_def fresh_def nth_append less_Suc_eq)
  moreover have "ready_ok P R (L @ [x])" unfolding ready_ok_def
  proof (intro conjI ballI)
    show "distinct R" using i(4) by (simp add: ready_ok_def)
    fix p assume "p \<in> set R"
    with i(4) obtain k where "k < length L" "p = P k" "i_scheduled (L ! k) = COMPLETED"
      "i_executed (L ! k) = 0" "i_num_reg_dependent (L ! k) = 0" unfolding ready_ok_def by blast
    then show "\<exists>k < length (L @ [x]). p = P k \<and> i_scheduled ((L @ [x]) ! k) = COMPLETED
      \<and> i_executed ((L @ [x]) ! k) = 0 \<and> i_num_reg_dependent ((L @ [x]) ! k) = 0"
      by (intro exI [of _ k]) (simp add: nth_append)
  qed
  moreover have "raw_ok P (L @ [x])"
  proof -
    have yw: "youngest_writer (L @ [x]) k r j = youngest_writer L k r j" if "k < length L" for k r j
      using that by (auto simp: youngest_writer_def nth_append)
    have "raw_at P (L @ [x]) k r" if "k < length L" "raw_at P L k r" for k r
      using that by (auto simp: raw_at_def yw) (auto simp: youngest_writer_def nth_append)
    then show ?thesis using i(5) x by (auto simp: raw_ok_def fresh_def nth_append less_Suc_eq)
  qed
  ultimately show ?thesis by (simp add: sched_inv_def)
qed

lemma sched_inv_tl:
  assumes inv: "sched_inv P (x # L) R" and x: "i_executed x = COMPLETED"
  shows "sched_inv (\<lambda>k. P (Suc k)) L R"
proof -
  note i = sched_invD [OF inv]
  have w: "card (waits (\<lambda>k. P (Suc k)) L k) = card (waits P (x # L) (Suc k))" for k
  proof -
    have "j \<in> waits P (x # L) (Suc k) \<longleftrightarrow> j \<in> Suc ` waits (\<lambda>k. P (Suc k)) L k" for j
      using x by (cases j) (auto simp: waits_def)
    then have "waits P (x # L) (Suc k) = Suc ` waits (\<lambda>k. P (Suc k)) L k" by blast
    then show ?thesis by (simp add: card_image)
  qed
  have "deps_ok (\<lambda>k. P (Suc k)) {} L" unfolding deps_ok_def
  proof (intro allI impI conjI ballI)
    fix j assume j: "j < length L"
    from i(1) j have o: "distinct (deps (L ! j)) \<and> (\<forall>p \<in> set (deps (L ! j)). \<exists>k. Suc j < k \<and> k < length (x # L) \<and> p = P k
        \<and> (i_scheduled ((x # L) ! k) \<noteq> 0 \<or> k \<in> {}))"
      unfolding deps_ok_def by (auto dest: spec [of _ "Suc j"])
    then show "distinct (deps (L ! j))" by simp
    fix p assume "p \<in> set (deps (L ! j))"
    with o obtain k where "Suc j < k" "k < Suc (length L)" "p = P k" "i_scheduled ((x # L) ! k) \<noteq> 0" by auto
    then show "\<exists>k. j < k \<and> k < length L \<and> p = P (Suc k) \<and> (i_scheduled (L ! k) \<noteq> 0 \<or> k \<in> {})"
      by (intro exI [of _ "k - 1"]) (auto simp: nth_Cons')
  qed
  moreover have "count_ok (\<lambda>k. P (Suc k)) {} L" using i(2) by (auto simp: count_ok_def w dest: spec [of _ "Suc _"])
  moreover have "exec_ok L" using i(3) by (auto simp: exec_ok_def dest: spec [of _ "Suc _"])
  moreover have "ready_ok (\<lambda>k. P (Suc k)) R L" unfolding ready_ok_def
  proof (intro conjI ballI)
    show "distinct R" using i(4) by (simp add: ready_ok_def)
    fix p assume "p \<in> set R"
    with i(4) obtain k where "k < length (x # L)" "p = P k" "i_scheduled ((x # L) ! k) = COMPLETED"
      "i_executed ((x # L) ! k) = 0" "i_num_reg_dependent ((x # L) ! k) = 0" unfolding ready_ok_def by blast
    then show "\<exists>k < length L. p = P (Suc k) \<and> i_scheduled (L ! k) = COMPLETED
      \<and> i_executed (L ! k) = 0 \<and> i_num_reg_dependent (L ! k) = 0"
      using x by (cases k) auto
  qed
  moreover have "raw_ok (\<lambda>k. P (Suc k)) L" unfolding raw_ok_def
  proof (intro allI impI ballI)
    fix k r assume k: "k < length L" "i_scheduled (L ! k) \<noteq> 0" "r \<in> set (i_source_registers (L ! k))" "r \<noteq> 0"
    then have at: "raw_at P (x # L) (Suc k) r" using i(5) by (auto simp: raw_ok_def dest: spec [of _ "Suc k"])
    have "youngest_writer (x # L) (Suc k) r (Suc j)" if "youngest_writer L k r j" for j
      using that by (auto simp: youngest_writer_def nth_Cons split: nat.splits)
    then show "raw_at (\<lambda>k. P (Suc k)) L k r" using at by (fastforce simp: raw_at_def)
  qed
  ultimately show ?thesis by (simp add: sched_inv_def)
qed


section \<open>Execution and completion\<close>

text \<open>The fields of two instructions that only execution state may tell apart.\<close>

definition same_regs :: "ooo_model_instr \<Rightarrow> ooo_model_instr \<Rightarrow> bool" where
  "same_regs x y \<longleftrightarrow> i_source_registers x = i_source_registers y \<and> i_destination_registers x = i_destination_registers y"

lemma sched_inv_execute:
  assumes inv: "sched_inv P L (P k # R)" and inj: "inj_on P {..<length L}" and k: "k < length L"
    and x: "same_regs x (L ! k)" "deps x = deps (L ! k)" "i_scheduled x = i_scheduled (L ! k)"
      "i_num_reg_dependent x = i_num_reg_dependent (L ! k)" "i_executed x = INFLIGHT"
  shows "sched_inv P (L[k := x]) R"
proof -
  note i = sched_invD [OF inv]
  from i(4) obtain j where j: "j < length L" "P k = P j" "i_scheduled (L ! j) = COMPLETED" "i_executed (L ! j) = 0"
    "i_num_reg_dependent (L ! j) = 0" unfolding ready_ok_def by auto
  have "j = k" using inj_onD [OF inj j(2)] j(1) k by simp
  with j have f: "i_scheduled (L ! k) = COMPLETED" "i_executed (L ! k) = 0" "i_num_reg_dependent (L ! k) = 0" by simp_all
  have r: "ready_ok P R L" "P k \<notin> set R" using i(4) by (auto simp: ready_ok_def)
  show ?thesis unfolding sched_inv_def
    using x f k
    by (intro conjI deps_ok_update [OF i(1)] count_ok_update [OF i(2)] exec_ok_update [OF i(3)]
        ready_ok_update [OF r(1) inj] raw_ok_update [OF i(5)]) (simp_all add: r(2) same_regs_def)
qed

lemma sched_inv_memory:
  assumes inv: "sched_inv P L R" and inj: "inj_on P {..<length L}" and k: "k < length L"
    and f: "i_scheduled (L ! k) = INFLIGHT" "i_num_reg_dependent (L ! k) = 0"
    and x: "same_regs x (L ! k)" "deps x = deps (L ! k)" "i_scheduled x = COMPLETED"
      "i_num_reg_dependent x = i_num_reg_dependent (L ! k)" "i_executed x = (if i_executed (L ! k) = 0 then INFLIGHT else i_executed (L ! k))"
  shows "sched_inv P (L[k := x]) R"
proof -
  note i = sched_invD [OF inv]
  have e: "i_executed (L ! k) = 0" using i(3) k f(1) by (auto simp: exec_ok_def)
  have r: "P k \<notin> set R" using not_in_ready [OF i(4) inj k] f by simp
  show ?thesis unfolding sched_inv_def
    using x f k e
    by (intro conjI deps_ok_update [OF i(1)] count_ok_update [OF i(2)] exec_ok_update [OF i(3)]
        ready_ok_update [OF i(4) inj] raw_ok_update [OF i(5)]) (simp_all add: r same_regs_def)
qed

text \<open>While an instruction completes, the positions in \<open>D\<close> are still counted.\<close>

definition releasing :: "(nat \<Rightarrow> nat) \<Rightarrow> ooo_model_instr list \<Rightarrow> nat list \<Rightarrow> nat set \<Rightarrow> bool" where
  "releasing P L R D \<longleftrightarrow> deps_ok P {} L \<and> count_ok P D L \<and> exec_ok L \<and> ready_ok P R L \<and> raw_ok P L
     \<and> (\<forall>p \<in> D. \<exists>k < length L. p = P k \<and> i_scheduled (L ! k) \<noteq> 0)"

lemma releasing_start:
  assumes inv: "sched_inv P L R" and inj: "inj_on P {..<length L}" and k: "k < length L"
    and e: "i_executed (L ! k) = INFLIGHT"
    and x: "same_regs x (L ! k)" "deps x = deps (L ! k)" "i_scheduled x = i_scheduled (L ! k)"
      "i_num_reg_dependent x = i_num_reg_dependent (L ! k)" "i_executed x = COMPLETED"
  shows "releasing P (L[k := x]) R (set (deps (L ! k)))"
proof -
  note i = sched_invD [OF inv]
  have f: "i_scheduled (L ! k) = COMPLETED" "i_num_reg_dependent (L ! k) = 0" using i(3) k e by (auto simp: exec_ok_def)
  have r: "P k \<notin> set R" using not_in_ready [OF i(4) inj k] e by simp
  have D: "\<exists>i < length L. p = P i \<and> i_scheduled (L ! i) \<noteq> 0" if p: "p \<in> set (deps (L ! k))" for p
  proof -
    from i(1) k p obtain i where "i < length L" "p = P i" "i_scheduled (L ! i) \<noteq> 0" unfolding deps_ok_def by blast
    then show ?thesis by blast
  qed
  have "count_ok P (set (deps (L ! k))) (L[k := x])" unfolding count_ok_def
  proof (intro allI impI)
    fix j assume j: "j < length (L[k := x])"
    have w: "waits P (L[k := x]) j = waits P L j - {k}" using x k by (auto simp: waits_def nth_list_update)
    have m: "k \<in> waits P L j \<longleftrightarrow> P j \<in> set (deps (L ! k))" using k e by (simp add: waits_def)
    have "i_num_reg_dependent (L[k := x] ! j) = int (card (waits P L j))"
      using i(2) j k x(4) by (simp add: count_ok_def nth_list_update)
    also have "\<dots> = int (card (waits P (L[k := x]) j)) + (if P j \<in> set (deps (L ! k)) then 1 else 0)"
      using card_Suc_Diff1 [of "waits P L j" k] m by (auto simp: w)
    finally show "i_num_reg_dependent (L[k := x] ! j) = \<dots>" .
  qed
  moreover have "\<forall>p \<in> set (deps (L ! k)). \<exists>i < length (L[k := x]). p = P i \<and> i_scheduled (L[k := x] ! i) \<noteq> 0"
  proof
    fix p assume "p \<in> set (deps (L ! k))"
    from D [OF this] obtain i where "i < length L" "p = P i" "i_scheduled (L ! i) \<noteq> 0" by blast
    then show "\<exists>i < length (L[k := x]). p = P i \<and> i_scheduled (L[k := x] ! i) \<noteq> 0"
      using x(3) k by (intro exI [of _ i]) (simp add: nth_list_update)
  qed
  ultimately show ?thesis unfolding releasing_def
    using x f k
    by (intro conjI deps_ok_update [OF i(1)] exec_ok_update [OF i(3)]
        ready_ok_update [OF i(4) inj] raw_ok_update [OF i(5)]) (simp_all add: r same_regs_def)
qed

lemma releasing_step:
  assumes rel: "releasing P L R D" and inj: "inj_on P {..<length L}" and k: "k < length L" "P k \<in> D"
    and x: "same_regs x (L ! k)" "deps x = deps (L ! k)" "i_num_reg_dependent x = i_num_reg_dependent (L ! k) - 1"
      "i_executed x = i_executed (L ! k)" "i_scheduled x \<noteq> 0"
  shows "releasing P (L[k := x]) R (D - {P k})" "0 \<le> i_num_reg_dependent x" "i_executed (L ! k) = 0"
proof -
  have i: "deps_ok P {} L" "count_ok P D L" "exec_ok L" "ready_ok P R L" "raw_ok P L"
    and D: "\<forall>p \<in> D. \<exists>k < length L. p = P k \<and> i_scheduled (L ! k) \<noteq> 0" using rel by (simp_all add: releasing_def)
  have n: "i_num_reg_dependent (L ! k) = int (card (waits P L k)) + 1" using i(2) k by (simp add: count_ok_def)
  then show "0 \<le> i_num_reg_dependent x" using x(3) by simp
  have nz: "i_num_reg_dependent (L ! k) \<noteq> 0" using n by simp
  show e: "i_executed (L ! k) = 0"
  proof (rule ccontr)
    assume "i_executed (L ! k) \<noteq> 0"
    then show False using i(3) k(1) nz by (simp add: exec_ok_def)
  qed
  have r: "P k \<notin> set R" using not_in_ready [OF i(4) inj k(1)] nz by blast
  have s: "i_scheduled (L ! k) \<noteq> 0"
  proof -
    from D k obtain i where i: "i < length L" "P k = P i" "i_scheduled (L ! i) \<noteq> 0" by blast
    then show ?thesis using inj_onD [OF inj i(2)] k(1) by simp
  qed
  have w: "waits P (L[k := x]) j = waits P L j" for j
    by (rule waits_cong) (use x k in \<open>auto simp: nth_list_update\<close>)
  have "count_ok P (D - {P k}) (L[k := x])" unfolding count_ok_def w
  proof (intro allI impI)
    fix j assume j: "j < length (L[k := x])"
    have "P j = P k \<longleftrightarrow> j = k" using inj_onD [OF inj, of j k] j k(1) by auto
    then show "i_num_reg_dependent (L[k := x] ! j) = int (card (waits P L j)) + (if P j \<in> D - {P k} then 1 else 0)"
      using i(2) j x(3) k n by (auto simp: count_ok_def nth_list_update)
  qed
  moreover have "\<forall>p \<in> D - {P k}. \<exists>i < length (L[k := x]). p = P i \<and> i_scheduled (L[k := x] ! i) \<noteq> 0"
  proof
    fix p assume "p \<in> D - {P k}"
    with D obtain i where "i < length L" "p = P i" "i_scheduled (L ! i) \<noteq> 0" by blast
    then show "\<exists>i < length (L[k := x]). p = P i \<and> i_scheduled (L[k := x] ! i) \<noteq> 0"
      using x(5) k by (intro exI [of _ i]) (simp add: nth_list_update)
  qed
  ultimately show "releasing P (L[k := x]) R (D - {P k})" unfolding releasing_def
    using x k e s
    by (intro conjI deps_ok_update [OF i(1)] exec_ok_update [OF i(3)]
        ready_ok_update [OF i(4) inj] raw_ok_update [OF i(5)]) (simp_all add: r same_regs_def)
qed

lemma releasing_done: "releasing P L R {} \<longleftrightarrow> sched_inv P L R"
  by (auto simp: releasing_def sched_inv_def)

lemma sched_inv_wake:
  assumes inv: "sched_inv P L R" and k: "k < length L" "P k \<notin> set R"
    "i_scheduled (L ! k) = COMPLETED" "i_executed (L ! k) = 0" "i_num_reg_dependent (L ! k) = 0"
  shows "sched_inv P L (R @ [P k])"
  using sched_invD [OF inv] k by (auto simp: sched_inv_def ready_ok_def)

section \<open>Scheduling\<close>

definition scheduling :: "(nat \<Rightarrow> nat) \<Rightarrow> ooo_model_instr list \<Rightarrow> nat list \<Rightarrow> nat \<Rightarrow> bool" where
  "scheduling P L R k \<longleftrightarrow> deps_ok P {k} L \<and> count_ok P {} L \<and> exec_ok L \<and> ready_ok P R L \<and> raw_ok P L
     \<and> i_scheduled (L ! k) = 0 \<and> (\<forall>j < length L. P k \<in> set (deps (L ! j)) \<longrightarrow> last (deps (L ! j)) = P k)"

lemma scheduling_start:
  assumes inv: "sched_inv P L R" and inj: "inj_on P {..<length L}" and k: "k < length L" "i_scheduled (L ! k) = 0"
  shows "scheduling P L R k"
proof -
  note i = sched_invD [OF inv]
  have "P k \<notin> set (deps (L ! j))" if "j < length L" for j
  proof
    assume "P k \<in> set (deps (L ! j))"
    with i(1) that obtain m where m: "m < length L" "P k = P m" "i_scheduled (L ! m) \<noteq> 0" unfolding deps_ok_def by blast
    then show False using inj_onD [OF inj m(2)] k by simp
  qed
  moreover have "deps_ok P {k} L" using i(1) by (fastforce simp: deps_ok_def)
  ultimately show ?thesis using i k(2) by (simp add: scheduling_def)
qed

lemma scheduling_mark:
  assumes s: "scheduling P L R k" and inj: "inj_on P {..<length L}" and k: "k < length L" "j < k"
    and j: "i_executed (L ! j) \<noteq> COMPLETED" "deps (L ! j) = [] \<or> last (deps (L ! j)) \<noteq> P k"
    and x: "same_regs x (L ! j)" "deps x = deps (L ! j) @ [P k]" "i_scheduled x = i_scheduled (L ! j)"
      "i_num_reg_dependent x = i_num_reg_dependent (L ! j)" "i_executed x = i_executed (L ! j)"
    and y: "same_regs y (L ! k)" "deps y = deps (L ! k)" "i_scheduled y = i_scheduled (L ! k)"
      "i_num_reg_dependent y = i_num_reg_dependent (L ! k) + 1" "i_executed y = i_executed (L ! k)"
  shows "scheduling P (L[j := x, k := y]) R k"
proof -
  have i: "deps_ok P {k} L" "count_ok P {} L" "exec_ok L" "ready_ok P R L" "raw_ok P L" "i_scheduled (L ! k) = 0"
    and lst: "\<forall>j < length L. P k \<in> set (deps (L ! j)) \<longrightarrow> last (deps (L ! j)) = P k" using s by (simp_all add: scheduling_def)
  have jl: "j < length L" "j \<noteq> k" using k by simp_all
  have nj: "P k \<notin> set (deps (L ! j))" using lst jl j(2) by fastforce
  have e: "i_executed (L ! k) = 0" using i(3,6) k(1) by (auto simp: exec_ok_def)
  have r: "P k \<notin> set R" using not_in_ready [OF i(4) inj k(1)] i(6) by simp
  let ?L = "L[j := x, k := y]"
  have nth: "?L ! m = (if m = k then y else if m = j then x else L ! m)" if "m < length L" for m
    using that k jl by (simp add: nth_list_update)
  have dp: "deps (?L ! m) = (if m = j then deps (L ! j) @ [P k] else deps (L ! m))" if "m < length L" for m
    using nth [OF that] x(2) y(2) jl by simp
  have ex: "i_executed (?L ! m) = i_executed (L ! m)" "i_scheduled (?L ! m) = i_scheduled (L ! m)" if "m < length L" for m
    using nth [OF that] x y by simp_all
  have "deps_ok P {k} ?L" unfolding deps_ok_def
  proof (intro allI impI conjI ballI)
    fix m assume m: "m < length ?L"
    then show "distinct (deps (?L ! m))" using i(1) nj by (simp add: dp deps_ok_def)
    fix p assume p: "p \<in> set (deps (?L ! m))"
    show "\<exists>n. m < n \<and> n < length ?L \<and> p = P n \<and> (i_scheduled (?L ! n) \<noteq> 0 \<or> n \<in> {k})"
    proof (cases "m = j \<and> p = P k")
      case True
      then show ?thesis using k by auto
    next
      case False
      then have "p \<in> set (deps (L ! m))" using p m dp [of m] by (auto split: if_splits)
      with i(1) m obtain n where n: "m < n" "n < length L" "p = P n" "i_scheduled (L ! n) \<noteq> 0 \<or> n \<in> {k}"
        unfolding deps_ok_def by force
      then show ?thesis using ex(2) [OF n(2)] by (intro exI [of _ n]) simp
    qed
  qed
  moreover have "count_ok P {} ?L" unfolding count_ok_def
  proof (intro allI impI)
    fix m assume m: "m < length ?L"
    have Pm: "P m = P k \<longleftrightarrow> m = k" using inj_onD [OF inj, of m k] m k(1) by auto
    have w: "waits P ?L m = (if m = k then insert j (waits P L m) else waits P L m)"
      using jl j(1) dp ex(1) Pm x(2,5) by (auto simp: waits_def split: if_splits)
    have "j \<notin> waits P L k" using nj by (simp add: waits_def)
    then show "i_num_reg_dependent (?L ! m) = int (card (waits P ?L m)) + (if P m \<in> {} then 1 else 0)"
      using i(2) m x(4) y(4) w jl k by (auto simp: count_ok_def nth_list_update)
  qed
  moreover have "exec_ok (L[j := x])" by (rule exec_ok_update [OF i(3)]) (use i(3) jl x in \<open>auto simp: exec_ok_def\<close>)
  then have "exec_ok ?L" by (rule exec_ok_update) (use y e in simp)
  moreover have "ready_ok P R (L[j := x])"
  proof (rule ready_ok_update [OF i(4) inj jl(1)])
    assume "P j \<in> set R"
    then show "i_scheduled x = COMPLETED \<and> i_executed x = 0 \<and> i_num_reg_dependent x = 0"
      using not_in_ready [OF i(4) inj jl(1)] x(3-5) by metis
  qed
  then have "ready_ok P R ?L" using ready_ok_update [of P R "L[j := x]" k y] inj k(1) r by simp
  moreover have "raw_ok P (L[j := x])"
    by (rule raw_ok_update [OF i(5) jl(1)]) (use x in \<open>auto simp: same_regs_def\<close>)
  then have "raw_ok P ?L" by (rule raw_ok_update) (use y k jl i(6) in \<open>simp_all add: same_regs_def\<close>)
  moreover have "i_scheduled (?L ! k) = 0" using ex(2) [OF k(1)] i(6) by simp
  moreover have "\<forall>m < length ?L. P k \<in> set (deps (?L ! m)) \<longrightarrow> last (deps (?L ! m)) = P k"
    using lst dp by simp
  ultimately show ?thesis unfolding scheduling_def by blast
qed

lemma scheduling_finish:
  assumes s: "scheduling P L R k" and inj: "inj_on P {..<length L}" and k: "k < length L"
    and raw: "\<And>r. r \<in> set (i_source_registers (L ! k)) \<Longrightarrow> r \<noteq> 0 \<Longrightarrow> raw_at P L k r"
    and x: "same_regs x (L ! k)" "deps x = deps (L ! k)" "i_scheduled x \<noteq> 0"
      "i_num_reg_dependent x = i_num_reg_dependent (L ! k)" "i_executed x = i_executed (L ! k)"
  shows "sched_inv P (L[k := x]) R" "P k \<notin> set R" "i_executed (L ! k) = 0"
proof -
  have i: "deps_ok P {k} L" "count_ok P {} L" "exec_ok L" "ready_ok P R L" "raw_ok P L" "i_scheduled (L ! k) = 0"
    using s by (simp_all add: scheduling_def)
  show e: "i_executed (L ! k) = 0" using i(3,6) k(1) by (auto simp: exec_ok_def)
  show r: "P k \<notin> set R" using not_in_ready [OF i(4) inj k(1)] i(6) by simp
  show "sched_inv P (L[k := x]) R" unfolding sched_inv_def
    using x k e raw
    by (intro conjI deps_ok_update [OF i(1)] count_ok_update [OF i(2)] exec_ok_update [OF i(3)]
        ready_ok_update [OF i(4) inj] raw_ok_update [OF i(5)]) (simp_all add: r same_regs_def)
qed

end
