(* ===== verification/CoreFrame.thy ===== *)
theory CoreFrame
  imports CoreSched
begin

text \<open>
  What the stages of the core leave alone: most of them write timing, memory
  state and predictor state only, and keep the instructions in the buffers as
  far as the program order and the register dependences are concerned.
\<close>

section \<open>Views of instructions and buffers\<close>

definition rview :: "ooo_model_instr \<Rightarrow> ooo_model_instr" where
  "rview i = ooo_model_instr_new
     \<lparr>i_instr_id := i_instr_id i, i_scheduled := i_scheduled i, i_executed := i_executed i,
      i_num_reg_dependent := i_num_reg_dependent i, i_destination_registers := i_destination_registers i,
      i_source_registers := i_source_registers i,
      i_registers_instrs_depend_on_me := i_registers_instrs_depend_on_me i\<rparr>"

lemma rview_sel [simp]:
  "i_instr_id (rview i) = i_instr_id i" "i_scheduled (rview i) = i_scheduled i" "i_executed (rview i) = i_executed i"
  "i_num_reg_dependent (rview i) = i_num_reg_dependent i" "i_destination_registers (rview i) = i_destination_registers i"
  "i_source_registers (rview i) = i_source_registers i" "deps (rview i) = deps i"
  by (simp_all add: rview_def)

lemma rviewD:
  assumes "rview x = rview y"
  shows "i_instr_id x = i_instr_id y" "i_scheduled x = i_scheduled y" "i_executed x = i_executed y"
    "i_num_reg_dependent x = i_num_reg_dependent y" "i_destination_registers x = i_destination_registers y"
    "i_source_registers x = i_source_registers y" "deps x = deps y"
  using assms rview_sel by metis+

lemma waits_rview: "waits P (map rview L) k = waits P L k"
  by (auto simp: waits_def)

lemma youngest_writer_rview: "k \<le> length L \<Longrightarrow> youngest_writer (map rview L) k r j = youngest_writer L k r j"
  by (auto simp: youngest_writer_def)

lemma raw_at_rview:
  assumes "k < length L"
  shows "raw_at P (map rview L) k r = raw_at P L k r"
proof -
  have "j < length L" if "youngest_writer L k r j" for j using that assms by (simp add: youngest_writer_def)
  then show ?thesis using assms by (auto simp: raw_at_def youngest_writer_rview)
qed

lemma sched_inv_rview: "sched_inv P (map rview L) R = sched_inv P L R"
proof -
  have "deps_ok P {} (map rview L) = deps_ok P {} L"
    unfolding deps_ok_def by (simp cong: conj_cong)
  moreover have "count_ok P {} (map rview L) = count_ok P {} L" by (simp add: count_ok_def waits_rview)
  moreover have "exec_ok (map rview L) = exec_ok L" by (simp add: exec_ok_def)
  moreover have "ready_ok P R (map rview L) = ready_ok P R L" unfolding ready_ok_def by (simp cong: conj_cong)
  moreover have "raw_ok P (map rview L) = raw_ok P L" by (simp add: raw_ok_def raw_at_rview)
  ultimately show ?thesis by (simp add: sched_inv_def)
qed

definition same_buf :: "('a \<Rightarrow> 'b) \<Rightarrow> 'a circular_buffer \<Rightarrow> 'a circular_buffer \<Rightarrow> bool" where
  "same_buf f a b \<longleftrightarrow> cb_sz b = cb_sz a \<and> cb_head b = cb_head a \<and> cb_tail b = cb_tail a
     \<and> map f (cb_entry b) = map f (cb_entry a)"

lemma same_buf_refl [simp]: "same_buf f a a"
  by (simp add: same_buf_def)

lemma same_buf_trans: "same_buf f a b \<Longrightarrow> same_buf f b c \<Longrightarrow> same_buf f a c"
  by (simp add: same_buf_def)

lemma same_buf_set:
  assumes "f x = f (cb_at a p)"
  shows "same_buf f a (cb_set p x a)"
proof (cases "p < length (cb_entry a)")
  case True
  then show ?thesis using assms by (simp add: same_buf_def cb_set_def map_update cb_at_def list_update_same_conv)
qed (simp add: same_buf_def cb_set_def list_update_beyond)

lemma same_bufD:
  assumes "same_buf f a b" "cb_wf a"
  shows "cb_wf b" "cb_pos b = cb_pos a" "cb_occupancy b = cb_occupancy a" "map f (cb_list b) = map f (cb_list a)"
proof -
  have e: "cb_sz b = cb_sz a" "cb_head b = cb_head a" "cb_tail b = cb_tail a" "map f (cb_entry b) = map f (cb_entry a)"
    using assms(1) by (simp_all add: same_buf_def)
  have l: "length (cb_entry b) = length (cb_entry a)" using e(4) by (metis length_map)
  show wf: "cb_wf b" using assms(2) e l by (simp add: cb_wf_def)
  show p: "cb_pos b = cb_pos a" using e l by (simp add: cb_pos_def fun_eq_iff)
  show o: "cb_occupancy b = cb_occupancy a" by (simp add: cb_occupancy_def it_diff_def Let_def e l)
  have "f (cb_at b q) = f (cb_at a q)" if "q < length (cb_entry a)" for q
    using that l e(4) nth_map [of q "cb_entry a" f] nth_map [of q "cb_entry b" f] by (simp add: cb_at_def)
  then show "map f (cb_list b) = map f (cb_list a)"
    using cb_pos_less [OF assms(2)] by (simp add: cb_list_def cb_positions_def p o)
qed

section \<open>The frame\<close>

definition keeps :: "('b, 'w) O3_CPU \<Rightarrow> ('b, 'w) O3_CPU \<Rightarrow> bool" where
  "keeps c d \<longleftrightarrow> same_buf rview (ROB c) (ROB d) \<and> same_buf rview (IFETCH_BUFFER c) (IFETCH_BUFFER d)
     \<and> ready_to_execute d = ready_to_execute c \<and> DISPATCH_BUFFER d = DISPATCH_BUFFER c
     \<and> DECODE_BUFFER d = DECODE_BUFFER c \<and> instr_unique_id d = instr_unique_id c \<and> num_retired d = num_retired c
     \<and> ocfg d = ocfg c \<and> o_cpu d = o_cpu c \<and> length (DIB d) = length (DIB c)"

lemma keeps_refl [simp]: "keeps c c"
  by (simp add: keeps_def)

lemma keeps_trans: "keeps c d \<Longrightarrow> keeps d e \<Longrightarrow> keeps c e"
  unfolding keeps_def using same_buf_trans by fastforce

lemma keeps_foldE:
  assumes "\<And>x s t. f x s = Inr t \<Longrightarrow> keeps s t" "foldE f xs s = Inr t"
  shows "keeps s t"
  using assms(2)
proof (induction xs arbitrary: s)
  case (Cons x xs)
  then obtain u where "f x s = Inr u" "foldE f xs u = Inr t" by (auto simp: errs)
  then show ?case using assms(1) Cons.IH keeps_trans by blast
qed simp

lemma keeps_fold:
  assumes "\<And>x s. keeps s (f x s)"
  shows "keeps s (fold f xs s)"
proof (induction xs arbitrary: s)
  case (Cons x xs)
  then show ?case using assms keeps_trans by fastforce
qed simp

lemma same_buf_sym: "same_buf f a b \<Longrightarrow> same_buf f b a"
  by (simp add: same_buf_def)

lemma keeps_sym: "keeps c d \<Longrightarrow> keeps d c"
  unfolding keeps_def using same_buf_sym by fastforce

lemma keeps_iff:
  assumes "keeps d e"
  shows "keeps c e = keeps c d"
  using assms keeps_sym keeps_trans by blast

lemma keeps_upd_rob [simp]:
  assumes "\<And>i. rview (f i) = rview i"
  shows "keeps c (upd_rob p f d) = keeps c d"
  by (rule keeps_iff) (simp add: keeps_def upd_rob_def same_buf_set assms)

lemma keeps_upd_ifetch [simp]:
  assumes "\<And>i. rview (f i) = rview i"
  shows "keeps c (upd_ifetch p f d) = keeps c d"
  by (rule keeps_iff) (simp add: keeps_def upd_ifetch_def same_buf_set assms)

lemma keeps_upd_lsq [simp]: "keeps c (upd_lq i f d) = keeps c d" "keeps c (upd_sq i g d) = keeps c d"
  by (simp_all add: keeps_def upd_lq_def upd_sq_def)

text \<open>Any update of the other fields.\<close>

lemma keeps_fields [simp]:
  "keeps c (d\<lparr>RTL0 := a\<rparr>) = keeps c d" "keeps c (d\<lparr>RTL1 := a\<rparr>) = keeps c d" "keeps c (d\<lparr>RTS0 := a\<rparr>) = keeps c d"
  "keeps c (d\<lparr>RTS1 := a\<rparr>) = keeps c d" "keeps c (d\<lparr>STA := s\<rparr>) = keeps c d"
  "keeps c (d\<lparr>ITLB_bus := b\<rparr>) = keeps c d" "keeps c (d\<lparr>DTLB_bus := b\<rparr>) = keeps c d"
  "keeps c (d\<lparr>L1I_bus := b\<rparr>) = keeps c d" "keeps c (d\<lparr>L1D_bus := b\<rparr>) = keeps c d"
  "keeps c (d\<lparr>o_lower := w\<rparr>) = keeps c d" "keeps c (d\<lparr>modules := m\<rparr>) = keeps c d"
  "keeps c (d\<lparr>current_cycle := cy\<rparr>) = keeps c d"
  "keeps c (d\<lparr>inflight_mem_executions := n\<rparr>) = keeps c d" "keeps c (d\<lparr>inflight_reg_executions := n\<rparr>) = keeps c d"
  "keeps c (d\<lparr>completed_executions := q\<rparr>) = keeps c d" "keeps c (d\<lparr>instrs_to_read_this_cycle := q\<rparr>) = keeps c d"
  "keeps c (d\<lparr>fetch_stall := st\<rparr>) = keeps c d" "keeps c (d\<lparr>fetch_resume_cycle := q\<rparr>) = keeps c d"
  "keeps c (d\<lparr>num_branch := q\<rparr>) = keeps c d" "keeps c (d\<lparr>branch_mispredictions := q\<rparr>) = keeps c d"
  "keeps c (d\<lparr>total_rob_occupancy_at_branch_mispredict := q\<rparr>) = keeps c d"
  "keeps c (d\<lparr>total_branch_types := v\<rparr>) = keeps c d" "keeps c (d\<lparr>branch_type_misses := v\<rparr>) = keeps c d"
  "keeps c (d\<lparr>kernel_insn := q\<rparr>) = keeps c d" "keeps c (d\<lparr>kernel_data := q\<rparr>) = keeps c d"
  "keeps c (d\<lparr>user_insn := q\<rparr>) = keeps c d" "keeps c (d\<lparr>user_data := q\<rparr>) = keeps c d"
  by (simp_all add: keeps_def)

section \<open>Stages that keep the frame\<close>

lemma length_map_slice_any: "length (map_slice b n f xs) = length xs"
  by (simp add: map_slice_def slice_def)

lemma keeps_dib_touch [simp]: "keeps c (dib_touch ip way d) = keeps c d"
  by (simp add: dib_touch_def keeps_def length_map_slice_any)

lemma keeps_do_check_dib: "keeps c (do_check_dib p c)"
  by (simp add: do_check_dib_def Let_def rview_def)

lemma keeps_check_dib: "keeps c (check_dib c)"
  unfolding check_dib_def Let_def by (rule keeps_fold) (rule keeps_do_check_dib)

lemma keeps_do_dib_update: "do_dib_update i c = Inr d \<Longrightarrow> keeps c d"
  by (auto simp: do_dib_update_def Let_def errs split: if_splits) (simp add: keeps_def)

lemma keeps_sends:
  "send_itlb E pkt c = Inr (r, d) \<Longrightarrow> keeps c d" "send_dtlb E pkt c = Inr (r, d) \<Longrightarrow> keeps c d"
  "send_l1i E pkt c = Inr (r, d) \<Longrightarrow> keeps c d" "send_l1d E pkt c = Inr (r, d) \<Longrightarrow> keeps c d"
  by (auto simp: send_itlb_def send_dtlb_def send_l1i_def send_l1d_def errs)

lemma keeps_translate_fetch:
  assumes "translate_fetch E c = Inr d"
  shows "keeps c d"
proof -
  have "keeps c d" if t: "do_translate_fetch E ps i c = Inr d" for ps i
  proof -
    from t obtain pkt r u where u: "send_itlb E pkt c = Inr (r, u)"
      "d = (if r \<noteq> - 2 then fold (\<lambda>p. upd_ifetch p (\<lambda>i. i\<lparr>i_translated := INFLIGHT\<rparr>)) ps u else u)"
      by (auto simp: do_translate_fetch_def Let_def errs)
    have "keeps u d" unfolding u(2) by (simp add: keeps_fold rview_def)
    with keeps_sends(1) [OF u(1)] show ?thesis by (rule keeps_trans)
  qed
  with assms show ?thesis by (auto simp: translate_fetch_def Let_def split: if_splits)
qed

lemma keeps_do_fetch_instruction:
  assumes "do_fetch_instruction E ps i c = Inr d"
  shows "keeps c d"
proof -
  from assms obtain pkt r u where u: "send_l1i E pkt c = Inr (r, u)"
    "d = (if r \<noteq> - 2 then fold (\<lambda>p. upd_ifetch p (\<lambda>i. i\<lparr>i_fetched := INFLIGHT\<rparr>)) ps u else u)"
    by (auto simp: do_fetch_instruction_def Let_def errs)
  have "keeps u d" unfolding u(2) by (simp add: keeps_fold rview_def)
  with keeps_sends(3) [OF u(1)] show ?thesis by (rule keeps_trans)
qed

lemma keeps_fetch_instruction:
  assumes "fetch_instruction E c = Inr d"
  shows "keeps c d"
proof -
  define c' where "c' = (if fetch_stall c \<and> fetch_resume_cycle c \<le> current_cycle c \<and> fetch_resume_cycle c \<noteq> 0
               then c\<lparr>fetch_stall := False, fetch_resume_cycle := 0\<rparr> else c)"
  have "keeps c' d"
    using assms keeps_do_fetch_instruction
    unfolding fetch_instruction_def Let_def c'_def [symmetric] by (auto split: if_splits)
  moreover have "keeps c c'" by (simp add: c'_def)
  ultimately show ?thesis using keeps_trans by blast
qed

lemma keeps_finish_mem_op [simp]: "keeps c (finish_mem_op p d) = keeps c d"
  by (simp add: finish_mem_op_def Let_def rview_def)

lemma keeps_do_sq_forward_to_lq: "do_sq_forward_to_lq lq c = Inr d \<Longrightarrow> keeps c d"
  by (auto simp: do_sq_forward_to_lq_def Let_def errs)

lemma keeps_add_load_queue:
  assumes "add_load_queue k i c = Inr d"
  shows "keeps c d"
proof -
  have fwd: "keeps c d" if "keeps c u" "do_sq_forward_to_lq lq u = Inr d" for u lq
    using that keeps_do_sq_forward_to_lq keeps_trans by blast
  show ?thesis
    using assms unfolding add_load_queue_def Let_def
    by (auto simp: errs rview_def split: option.splits if_splits intro: fwd [rotated])
qed

lemma keeps_add_store_queue: "add_store_queue k i c = Inr d \<Longrightarrow> keeps c d"
  by (auto simp: add_store_queue_def Let_def errs rview_def split: if_splits)

lemma keeps_schedule_load:
  assumes "foldE (schedule_load k) xs s = Inr t"
  shows "keeps (snd s) (snd t)"
  using assms
proof (induction xs arbitrary: s)
  case (Cons x xs)
  then obtain u where u: "schedule_load k x s = Inr u" "foldE (schedule_load k) xs u = Inr t" by (auto simp: errs)
  have "keeps (snd s) (snd u)"
    using u(1) keeps_add_load_queue by (auto simp: schedule_load_def Let_def errs split: prod.splits if_splits)
  with Cons.IH [OF u(2)] show ?case using keeps_trans by blast
qed simp

lemma keeps_schedule_store:
  assumes "foldE (schedule_store k) xs s = Inr t"
  shows "keeps (snd s) (snd t)"
  using assms
proof (induction xs arbitrary: s)
  case (Cons x xs)
  then obtain u where u: "schedule_store k x s = Inr u" "foldE (schedule_store k) xs u = Inr t" by (auto simp: errs)
  have "keeps (snd s) (snd u)"
    using u(1) keeps_add_store_queue by (auto simp: schedule_store_def Let_def errs split: prod.splits if_splits list.splits)
  with Cons.IH [OF u(2)] show ?case using keeps_trans by blast
qed simp

lemma keeps_memory_ops:
  "do_translate_store E i c = Inr (r, d) \<Longrightarrow> keeps c d"
  "do_translate_load E i c = Inr (r, d) \<Longrightarrow> keeps c d"
  "execute_load E i c = Inr (r, d) \<Longrightarrow> keeps c d"
  using keeps_sends(2,4) by (auto simp: do_translate_store_def do_translate_load_def execute_load_def Let_def errs)

lemma keeps_forward_source: "forward_source sq p j c = Inr d \<Longrightarrow> keeps c d"
  using keeps_do_sq_forward_to_lq by (auto simp: forward_source_def Let_def errs split: if_splits)

lemma keeps_execute_store:
  assumes "execute_store sq c = Inr d"
  shows "keeps c d"
proof -
  have f: "keeps c d" if u: "foldE (\<lambda>p. foldE (forward_source sq p) [0..<NUM_INSTR_SOURCES]) ds u = Inr d" "keeps c u" for u ds
  proof (rule keeps_trans [OF u(2)])
    show "keeps u d" by (rule keeps_foldE [OF _ u(1)]) (rule keeps_foldE [OF keeps_forward_source])
  qed
  show ?thesis using assms
    by (auto simp: execute_store_def Let_def errs) (rule f, assumption, simp)
qed

lemma keeps_rts0_loop: "rts0_loop E bw c = Inr (n, d) \<Longrightarrow> keeps c d"
proof (induction bw arbitrary: c)
  case (Suc bw)
  show ?case
  proof (cases "RTS0 c")
    case (Cons sq rest)
    with Suc.prems obtain r u where u: "do_translate_store E sq c = Inr (r, u)"
      "if r = - 2 then u = d else rts0_loop E bw (u\<lparr>RTS0 := tl (RTS0 u)\<rparr>) = Inr (n, d)"
      by (auto simp: errs split: if_splits)
    have "keeps u d" using u(2) Suc.IH keeps_trans [of u "u\<lparr>RTS0 := tl (RTS0 u)\<rparr>" d] by (auto split: if_splits)
    with keeps_memory_ops(1) [OF u(1)] show ?thesis by (rule keeps_trans)
  qed (use Suc.prems in simp)
qed simp

lemma keeps_rtl0_loop: "rtl0_loop E bw c = Inr (n, d) \<Longrightarrow> keeps c d"
proof (induction bw arbitrary: c)
  case (Suc bw)
  show ?case
  proof (cases "RTL0 c")
    case (Cons lq rest)
    with Suc.prems obtain r u where u: "do_translate_load E lq c = Inr (r, u)"
      "if r = - 2 then u = d else rtl0_loop E bw (u\<lparr>RTL0 := tl (RTL0 u)\<rparr>) = Inr (n, d)"
      by (auto simp: errs split: if_splits)
    have "keeps u d" using u(2) Suc.IH keeps_trans [of u "u\<lparr>RTL0 := tl (RTL0 u)\<rparr>" d] by (auto split: if_splits)
    with keeps_memory_ops(2) [OF u(1)] show ?thesis by (rule keeps_trans)
  qed (use Suc.prems in simp)
qed simp

lemma keeps_rtl1_loop: "rtl1_loop E bw c = Inr d \<Longrightarrow> keeps c d"
proof (induction bw arbitrary: c)
  case (Suc bw)
  show ?case
  proof (cases "RTL1 c")
    case (Cons lq rest)
    with Suc.prems obtain r u where u: "execute_load E lq c = Inr (r, u)"
      "if r = - 2 then u = d else rtl1_loop E bw (u\<lparr>RTL1 := tl (RTL1 u)\<rparr>) = Inr d"
      by (auto simp: errs split: if_splits)
    have "keeps u d" using u(2) Suc.IH keeps_trans [of u "u\<lparr>RTL1 := tl (RTL1 u)\<rparr>" d] by (auto split: if_splits)
    with keeps_memory_ops(3) [OF u(1)] show ?thesis by (rule keeps_trans)
  qed (use Suc.prems in simp)
qed simp

lemma keeps_rts1_loop: "rts1_loop bw c = Inr d \<Longrightarrow> keeps c d"
proof (induction bw arbitrary: c)
  case (Suc bw)
  show ?case
  proof (cases "RTS1 c")
    case (Cons sq rest)
    with Suc.prems obtain u where u: "execute_store sq c = Inr u" "rts1_loop bw (u\<lparr>RTS1 := tl (RTS1 u)\<rparr>) = Inr d"
      by (auto simp: errs)
    have "keeps u d" using Suc.IH [OF u(2)] keeps_trans [of u "u\<lparr>RTS1 := tl (RTS1 u)\<rparr>" d] by simp
    with keeps_execute_store [OF u(1)] show ?thesis by (rule keeps_trans)
  qed (use Suc.prems in simp)
qed simp

lemma keeps_operate_lsq: "operate_lsq E c = Inr d \<Longrightarrow> keeps c d"
  unfolding operate_lsq_def
  by (auto simp: errs dest!: keeps_rts0_loop keeps_rts1_loop keeps_rtl0_loop keeps_rtl1_loop intro: keeps_trans)

lemma keeps_serve_itlb: "serve_itlb k e bw ds c = (n, ds', d) \<Longrightarrow> keeps c d"
proof (induction ds arbitrary: bw c)
  case (Cons x ds)
  obtain b it where x: "x = (b, it)" by (cases x)
  let ?u = "upd_ifetch it (\<lambda>i. i\<lparr>i_translated := COMPLETED, i_instruction_pa := splice_bits (p_data e) (i_ip i) (LOG2_PAGE_SIZE k)\<rparr>) c"
  have "keeps c ?u" by (simp add: rview_def)
  with Cons show ?case by (auto simp: x Let_def split: if_splits intro: keeps_trans)
qed simp

lemma keeps_serve_l1i: "serve_l1i k e bw ds c = (n, ds', d) \<Longrightarrow> keeps c d"
proof (induction ds arbitrary: bw c)
  case (Cons x ds)
  obtain b it where x: "x = (b, it)" by (cases x)
  have "keeps c (upd_ifetch it (\<lambda>i. i\<lparr>i_fetched := COMPLETED\<rparr>) c)" by (simp add: rview_def)
  with Cons show ?case by (auto simp: x Let_def split: if_splits intro: keeps_trans)
qed simp

lemma keeps_itlb_loop: "itlb_loop k bw n c = Inr d \<Longrightarrow> keeps c d"
proof (induction n arbitrary: bw c)
  case (Suc n)
  obtain bw' ds u where s: "serve_itlb k (cb_front (ITLB_bus c)) bw (p_instr_dep (cb_front (ITLB_bus c))) c = (bw', ds, u)"
    by (cases "serve_itlb k (cb_front (ITLB_bus c)) bw (p_instr_dep (cb_front (ITLB_bus c))) c")
  have "d = c \<or> (\<exists>bus. itlb_loop k bw' n (u\<lparr>ITLB_bus := bus\<rparr>) = Inr d)"
    using Suc.prems by (auto simp: s Let_def errs split: if_splits)
  moreover have "keeps u d" if "itlb_loop k bw' n (u\<lparr>ITLB_bus := bus\<rparr>) = Inr d" for bus
    using Suc.IH [OF that] keeps_trans [of u "u\<lparr>ITLB_bus := bus\<rparr>" d] by simp
  ultimately show ?case using keeps_serve_itlb [OF s] keeps_trans by auto
qed simp

lemma keeps_l1i_loop: "l1i_loop k bw n c = Inr d \<Longrightarrow> keeps c d"
proof (induction n arbitrary: bw c)
  case (Suc n)
  obtain bw' ds u where s: "serve_l1i k (cb_front (L1I_bus c)) bw (p_instr_dep (cb_front (L1I_bus c))) c = (bw', ds, u)"
    by (cases "serve_l1i k (cb_front (L1I_bus c)) bw (p_instr_dep (cb_front (L1I_bus c))) c")
  have "d = c \<or> (\<exists>bus. l1i_loop k bw' n (u\<lparr>L1I_bus := bus\<rparr>) = Inr d)"
    using Suc.prems by (auto simp: s Let_def errs split: if_splits)
  moreover have "keeps u d" if "l1i_loop k bw' n (u\<lparr>L1I_bus := bus\<rparr>) = Inr d" for bus
    using Suc.IH [OF that] keeps_trans [of u "u\<lparr>L1I_bus := bus\<rparr>" d] by simp
  ultimately show ?case using keeps_serve_l1i [OF s] keeps_trans by auto
qed simp

lemma keeps_dtlb_loop: "dtlb_loop k n c = Inr d \<Longrightarrow> keeps c d"
proof (induction n arbitrary: c)
  case (Suc n)
  let ?e = "cb_front (DTLB_bus c)"
  define u where "u = fold (\<lambda>lq c. (upd_lq lq (translate_entry k ?e (current_cycle c)) c)\<lparr>RTL1 := RTL1 c @ [lq]\<rparr>) (p_lq_dep ?e)
    (fold (\<lambda>sq c. (upd_sq sq (translate_entry k ?e (current_cycle c)) c)\<lparr>RTS1 := RTS1 c @ [sq]\<rparr>) (p_sq_dep ?e) c)"
  have "keeps c u" unfolding u_def by (intro keeps_trans [OF keeps_fold keeps_fold]) simp_all
  moreover have "d = c \<or> (\<exists>bus. dtlb_loop k n (u\<lparr>DTLB_bus := bus\<rparr>) = Inr d)"
    using Suc.prems by (auto simp: u_def [symmetric] Let_def errs split: if_splits)
  moreover have "keeps u d" if "dtlb_loop k n (u\<lparr>DTLB_bus := bus\<rparr>) = Inr d" for bus
    using Suc.IH [OF that] keeps_trans [of u "u\<lparr>DTLB_bus := bus\<rparr>" d] by simp
  ultimately show ?case using keeps_trans by auto
qed simp

lemma keeps_finish_load: "finish_load lq c = Inr d \<Longrightarrow> keeps c d"
  by (auto simp: finish_load_def errs)

lemma keeps_l1d_loop: "l1d_loop n c = Inr d \<Longrightarrow> keeps c d"
proof (induction n arbitrary: c)
  case (Suc n)
  have "d = c \<or> (\<exists>ls u bus. foldE finish_load ls c = Inr u \<and> l1d_loop n (u\<lparr>L1D_bus := bus\<rparr>) = Inr d)"
    using Suc.prems by (auto simp: errs split: if_splits)
  moreover have "keeps c d" if u: "foldE finish_load ls c = Inr u" "l1d_loop n (u\<lparr>L1D_bus := bus\<rparr>) = Inr d" for ls u bus
  proof (rule keeps_trans)
    show "keeps c u" by (rule keeps_foldE [OF keeps_finish_load u(1)])
    show "keeps u d" using Suc.IH [OF u(2)] keeps_trans [of u "u\<lparr>L1D_bus := bus\<rparr>" d] by simp
  qed
  ultimately show ?case by auto
qed simp

lemma keeps_handle_memory_return: "handle_memory_return E c = Inr d \<Longrightarrow> keeps c d"
  unfolding handle_memory_return_def
  by (auto simp: errs dest!: keeps_itlb_loop keeps_l1i_loop keeps_dtlb_loop keeps_l1d_loop intro: keeps_trans)

lemma keeps_retire_store: "retire_store E i c = Inr (ok, d) \<Longrightarrow> keeps c d"
  by (auto simp: retire_store_def Let_def errs rview_def split: if_splits)

lemma keeps_retire_stores: "retire_stores E js c = Inr (ok, d) \<Longrightarrow> keeps c d"
proof (induction js arbitrary: c)
  case (Cons j js)
  then obtain r u where u: "retire_store E j c = Inr (r, u)" "if r then retire_stores E js u = Inr (ok, d) else u = d"
    by (auto simp: errs split: if_splits)
  have "keeps u d" using u(2) Cons.IH by (auto split: if_splits)
  with keeps_retire_store [OF u(1)] show ?case by (rule keeps_trans)
qed simp

lemma keeps_count_retired [simp]: "keeps c (count_retired i d) = keeps c d"
  by (simp add: count_retired_def Let_def)

section \<open>Reading an instruction\<close>

lemma fresh_rview: "fresh (rview i) = fresh i"
  by (simp add: fresh_def)

text \<open>The fields of a new instruction that the stages before the reorder buffer never write.\<close>

definition idle_view :: "ooo_model_instr \<Rightarrow> u64 \<times> nat \<times> nat \<times> int \<times> nat list" where
  "idle_view i = (i_instr_id i, i_scheduled i, i_executed i, i_num_reg_dependent i, deps i)"

lemma init_destinations:
  assumes "foldE init_destination xs s = Inr t"
  shows "idle_view (fst t) = idle_view (fst s) \<and> keeps (snd s) (snd t)"
  using assms
proof (induction xs arbitrary: s)
  case (Cons x xs)
  then obtain u where u: "init_destination x s = Inr u" "foldE init_destination xs u = Inr t" by (auto simp: errs)
  have "idle_view (fst u) = idle_view (fst s) \<and> keeps (snd s) (snd u)"
    using u(1) by (auto simp: init_destination_def Let_def errs idle_view_def split: prod.splits if_splits)
  with Cons.IH [OF u(2)] show ?case using keeps_trans by fastforce
qed simp

lemma init_sources: "idle_view (fold init_source xs a) = idle_view a"
proof (induction xs arbitrary: a)
  case (Cons x xs)
  have "idle_view (init_source x a) = idle_view a" by (simp add: init_source_def Let_def idle_view_def)
  with Cons show ?case by simp
qed simp

lemma idle_view_classify [simp]: "idle_view (classify_branch a) = idle_view a"
  by (simp add: classify_branch_def Let_def idle_view_def)

lemma idle_view_fold_sp [simp]: "idle_view (fold_sp u a) = idle_view a"
proof -
  have "idle_view (fold (\<lambda>i a. if i_destination_registers a ! i = REG_STACK_POINTER
      then a\<lparr>i_destination_registers := (i_destination_registers a)[i := 0], i_num_reg_ops := i_num_reg_ops a - 1\<rparr> else a) xs a) = idle_view a" for xs
    by (induction xs arbitrary: a) (simp_all add: idle_view_def)
  then show ?thesis by (simp add: fold_sp_def)
qed

lemma predict_frame:
  assumes "predict E a c = (b, d)"
  shows "idle_view b = idle_view a \<and> keeps c d"
  using assms unfolding predict_def Let_def
  by (auto simp: idle_view_def split: prod.splits if_splits)

end
