(* ===== verification/CoreInvariant.thy ===== *)
theory CoreInvariant
  imports CoreFrame
begin

text \<open>
  The invariant of the core: the instructions in flight are numbered in program
  order through all buffers, those not yet in the reorder buffer have no
  execution state, and the register dependences are kept as in \<open>sched_inv\<close>.
  Every stage keeps it, whatever the predictors and the memory do.
\<close>

section \<open>Invariant\<close>

definition pipeline :: "('b, 'w) O3_CPU \<Rightarrow> ooo_model_instr list" where
  "pipeline c = cb_list (ROB c) @ dq_list (DISPATCH_BUFFER c) @ dq_list (DECODE_BUFFER c) @ cb_list (IFETCH_BUFFER c)"

definition consecutive :: "u64 \<Rightarrow> u64 list \<Rightarrow> u64 \<Rightarrow> bool" where
  "consecutive n xs u \<longleftrightarrow> (\<forall>k < length xs. xs ! k = n + of_nat k) \<and> u = n + of_nat (length xs)"

definition ordered :: "('b, 'w) O3_CPU \<Rightarrow> bool" where
  "ordered c \<longleftrightarrow> consecutive (num_retired c) (map i_instr_id (pipeline c)) (instr_unique_id c)"

definition waiting_fresh :: "('b, 'w) O3_CPU \<Rightarrow> bool" where
  "waiting_fresh c \<longleftrightarrow> list_all fresh (dq_list (DISPATCH_BUFFER c) @ dq_list (DECODE_BUFFER c) @ cb_list (IFETCH_BUFFER c))"

definition bufs_ok :: "('b, 'w) O3_CPU \<Rightarrow> bool" where
  "bufs_ok c \<longleftrightarrow> cb_wf (ROB c) \<and> cb_wf (IFETCH_BUFFER c) \<and> dq_good (DISPATCH_BUFFER c) \<and> dq_good (DECODE_BUFFER c)
     \<and> 0 < dib_way (ocfg c) \<and> 0 < dib_set (ocfg c) \<and> length (DIB c) = dib_set (ocfg c) * dib_way (ocfg c)"

definition deps_inv :: "('b, 'w) O3_CPU \<Rightarrow> bool" where
  "deps_inv c \<longleftrightarrow> sched_inv (cb_pos (ROB c)) (cb_list (ROB c)) (ready_to_execute c)"

definition core_inv :: "('b, 'w) O3_CPU \<Rightarrow> bool" where
  "core_inv c \<longleftrightarrow> bufs_ok c \<and> ordered c \<and> waiting_fresh c \<and> deps_inv c"

lemma core_invD:
  assumes "core_inv c"
  shows "bufs_ok c" "ordered c" "waiting_fresh c" "deps_inv c" "cb_wf (ROB c)" "cb_wf (IFETCH_BUFFER c)"
    "dq_good (DISPATCH_BUFFER c)" "dq_good (DECODE_BUFFER c)"
  using assms by (simp_all add: core_inv_def bufs_ok_def)

lemma consecutive_tl: "consecutive n (x # xs) u \<Longrightarrow> consecutive (n + 1) xs u"
  by (auto simp: consecutive_def algebra_simps dest: spec [of _ "Suc _"])

lemma consecutive_snoc: "consecutive n xs u \<Longrightarrow> consecutive n (xs @ [u]) (u + 1)"
  by (auto simp: consecutive_def nth_append less_Suc_eq algebra_simps)

lemma list_all_fresh_rview:
  assumes "map rview xs = map rview ys"
  shows "list_all fresh xs = list_all fresh ys"
proof -
  have "list_all fresh (map rview zs) = list_all fresh zs" for zs by (simp add: list_all_iff fresh_rview)
  with assms show ?thesis by metis
qed

lemma map_id_rview:
  assumes "map rview xs = map rview ys"
  shows "map i_instr_id xs = map i_instr_id ys"
proof -
  have "map i_instr_id (map rview zs) = map i_instr_id zs" for zs by simp
  with assms show ?thesis by metis
qed

lemma keeps_core_inv:
  assumes "keeps c d" "core_inv c"
  shows "core_inv d"
proof -
  note i = core_invD [OF assms(2)]
  have k: "same_buf rview (ROB c) (ROB d)" "same_buf rview (IFETCH_BUFFER c) (IFETCH_BUFFER d)"
    "ready_to_execute d = ready_to_execute c" "DISPATCH_BUFFER d = DISPATCH_BUFFER c" "DECODE_BUFFER d = DECODE_BUFFER c"
    "instr_unique_id d = instr_unique_id c" "num_retired d = num_retired c" "ocfg d = ocfg c" "length (DIB d) = length (DIB c)"
    using assms(1) by (simp_all add: keeps_def)
  note r = same_bufD [OF k(1) i(5)] and f = same_bufD [OF k(2) i(6)]
  have "ordered d"
    using i(2) map_id_rview [OF r(4)] map_id_rview [OF f(4)] by (simp add: ordered_def pipeline_def k)
  moreover have "waiting_fresh d" using i(3) list_all_fresh_rview [OF f(4)] by (simp add: waiting_fresh_def k)
  moreover have "deps_inv d"
    using i(4) sched_inv_rview [of "cb_pos (ROB c)" "cb_list (ROB d)"] sched_inv_rview [of "cb_pos (ROB c)" "cb_list (ROB c)"]
    by (simp add: deps_inv_def k r)
  moreover have "bufs_ok d" using i(1) r(1) f(1) by (simp add: bufs_ok_def k)
  ultimately show ?thesis by (simp add: core_inv_def)
qed

section \<open>The reorder buffer as a list\<close>

lemma rob_inj:
  assumes "cb_wf b"
  shows "inj_on (cb_pos b) {..cb_sz b}"
  using cb_pos_inj [OF assms] by (auto simp: inj_on_def)

lemma rob_inj_list:
  assumes "cb_wf b"
  shows "inj_on (cb_pos b) {..<length (cb_list b)}"
  using rob_inj [OF assms] cb_occupancy_le [OF assms] by (auto intro: inj_on_subset)

lemma upd_rob_list:
  assumes "cb_wf (ROB c)" "k < length (cb_list (ROB c))"
  shows "cb_list (ROB (upd_rob (cb_pos (ROB c) k) f c)) = (cb_list (ROB c))[k := f (cb_list (ROB c) ! k)]"
  using assms by (simp add: upd_rob_def cb_list_set nth_cb_list)

lemma upd_rob_sel [simp]:
  "cb_wf (ROB (upd_rob p f c)) = cb_wf (ROB c)" "cb_pos (ROB (upd_rob p f c)) = cb_pos (ROB c)"
  "cb_sz (ROB (upd_rob p f c)) = cb_sz (ROB c)" "cb_occupancy (ROB (upd_rob p f c)) = cb_occupancy (ROB c)"
  "ready_to_execute (upd_rob p f c) = ready_to_execute c"
  "ocfg (upd_rob p f c) = ocfg c" "o_cpu (upd_rob p f c) = o_cpu c" "current_cycle (upd_rob p f c) = current_cycle c"
  by (simp_all add: upd_rob_def)

text \<open>
  A change of the reorder buffer that keeps numbers and size keeps everything
  but the dependences.
\<close>

definition moves :: "('b, 'w) O3_CPU \<Rightarrow> ('b, 'w) O3_CPU \<Rightarrow> bool" where
  "moves c d \<longleftrightarrow> same_buf i_instr_id (ROB c) (ROB d) \<and> IFETCH_BUFFER d = IFETCH_BUFFER c
     \<and> DISPATCH_BUFFER d = DISPATCH_BUFFER c \<and> DECODE_BUFFER d = DECODE_BUFFER c
     \<and> instr_unique_id d = instr_unique_id c \<and> num_retired d = num_retired c
     \<and> ocfg d = ocfg c \<and> o_cpu d = o_cpu c \<and> DIB d = DIB c"

lemma moves_refl [simp]: "moves c c"
  by (simp add: moves_def)

lemma moves_trans: "moves c d \<Longrightarrow> moves d e \<Longrightarrow> moves c e"
  unfolding moves_def using same_buf_trans by fastforce

lemma moves_upd_rob: "(\<And>i. i_instr_id (f i) = i_instr_id i) \<Longrightarrow> moves c (upd_rob p f c)"
  by (simp add: moves_def upd_rob_def same_buf_set)

lemma moves_core_inv:
  assumes "moves c d" "core_inv c" "deps_inv d"
  shows "core_inv d"
proof -
  note i = core_invD [OF assms(2)]
  have k: "same_buf i_instr_id (ROB c) (ROB d)" "IFETCH_BUFFER d = IFETCH_BUFFER c" "DISPATCH_BUFFER d = DISPATCH_BUFFER c"
    "DECODE_BUFFER d = DECODE_BUFFER c" "instr_unique_id d = instr_unique_id c" "num_retired d = num_retired c"
    "ocfg d = ocfg c" "DIB d = DIB c" using assms(1) by (simp_all add: moves_def)
  note r = same_bufD [OF k(1) i(5)]
  show ?thesis using i(1-3) assms(3) r
    by (simp add: core_inv_def ordered_def pipeline_def waiting_fresh_def bufs_ok_def k)
qed

section \<open>Entering\<close>

lemma dq_list_new: "dq_list (dq_new d n l) = []"
  by (simp add: dq_list_def dq_new_def)

lemma core_inv_new:
  assumes "0 < dib_way cf" "0 < dib_set cf"
  shows "core_inv (O3_CPU_new E cf sz cpu b w)"
  using assms
  by (simp add: dq_good_new sched_inv_Nil core_inv_def O3_CPU_new_def Let_def bufs_ok_def ordered_def pipeline_def waiting_fresh_def deps_inv_def
      consecutive_def dq_list_new)

lemma core_inv_push_ifetch:
  assumes inv: "core_inv c" and a: "fresh a" "i_instr_id a = instr_unique_id c"
    and p: "cb_push_back a (IFETCH_BUFFER c) = Inr buf"
  shows "core_inv (c\<lparr>IFETCH_BUFFER := buf, instr_unique_id := instr_unique_id c + 1\<rparr>)"
proof -
  note i = core_invD [OF inv] and b = cbq.enqD [OF core_invD(6) [OF inv] p]
  show ?thesis
    using i(1-4) a b consecutive_snoc [of "num_retired c" "map i_instr_id (pipeline c)" "instr_unique_id c"]
    by (simp add: core_inv_def bufs_ok_def ordered_def pipeline_def waiting_fresh_def deps_inv_def)
qed

lemma core_inv_enter_ifetch:
  assumes inv: "core_inv c" and a: "fresh a" "i_instr_id a = instr_unique_id c" and ok: "enter_ifetch E u a c = Inr d"
  shows "core_inv d"
proof -
  define a1 where "a1 = classify_branch (if i_num_mem_ops a > 0 then a\<lparr>i_is_memory := True\<rparr> else a)"
  define ty where "ty = unat (i_branch_type a1)"
  define c1 where "c1 = c\<lparr>total_branch_types := (total_branch_types c)[ty := total_branch_types c ! ty + 1]\<rparr>"
  define a2 where "a2 = fold_sp u (if \<not> i_is_branch a1 \<or> \<not> i_branch_taken a1 then a1\<lparr>i_branch_target := 0\<rparr> else a1)"
  obtain a3 c2 where p: "(if i_is_branch a2 then predict E a2 c1 else (a2, c1)) = (a3, c2)"
    by (cases "if i_is_branch a2 then predict E a2 c1 else (a2, c1)")
  define a4 where "a4 = (if \<not> warm E c2
       then a3\<lparr>i_event_cycle := current_cycle c2, i_source_registers := replicate NUM_INSTR_SOURCES 0,
              i_destination_registers := replicate MAX_INSTR_DESTINATIONS 0, i_num_reg_ops := 0\<rparr>
       else a3\<lparr>i_event_cycle := current_cycle c2\<rparr>)"
  from ok obtain buf where d: "cb_push_back a4 (IFETCH_BUFFER c2) = Inr buf"
    "d = c2\<lparr>IFETCH_BUFFER := buf, instr_unique_id := instr_unique_id c2 + 1\<rparr>"
    unfolding enter_ifetch_def Let_def a1_def [symmetric] ty_def [symmetric] c1_def [symmetric] a2_def [symmetric]
    by (auto simp: p a4_def errs split: if_splits)
  have v1: "idle_view a1 = idle_view a" by (simp add: a1_def) (simp add: idle_view_def)
  have v2: "idle_view a2 = idle_view a" using v1 by (simp add: a2_def) (simp add: idle_view_def)
  have k1: "keeps c c1" by (simp add: c1_def)
  have v3: "idle_view a3 = idle_view a2 \<and> keeps c1 c2"
    using p predict_frame [of E a2 c1 a3 c2] by (auto split: if_splits)
  have v4: "idle_view a4 = idle_view a" using v3 v2 by (simp add: a4_def idle_view_def)
  have k: "keeps c c2" using k1 v3 keeps_trans by blast
  show ?thesis unfolding d(2)
  proof (rule core_inv_push_ifetch [OF keeps_core_inv [OF k inv] _ _ d(1)])
    show "fresh a4" using v4 a(1) by (simp add: idle_view_def fresh_def)
    show "i_instr_id a4 = instr_unique_id c2" using v4 a(2) k by (simp add: idle_view_def keeps_def)
  qed
qed

lemma core_inv_init_instruction:
  assumes inv: "core_inv c" and fr: "fresh i" and ok: "init_instruction E i c = Inr d"
  shows "core_inv d"
proof -
  let ?c0 = "c\<lparr>instrs_to_read_this_cycle := instrs_to_read_this_cycle c - 1\<rparr>"
  let ?a0 = "i\<lparr>i_instr_id := instr_unique_id c\<rparr>"
  from ok obtain b c' where f: "foldE init_destination [0..<MAX_INSTR_DESTINATIONS] (?a0, ?c0) = Inr (b, c')"
    and e: "enter_ifetch E (register_use ?a0) (fold init_source [0..<NUM_INSTR_SOURCES] b) c' = Inr d"
    by (auto simp: init_instruction_def Let_def errs simp del: foldE.simps upt_conv_Cons)
  have b: "idle_view b = idle_view ?a0" "keeps ?c0 c'" using init_destinations [OF f] by simp_all
  have v: "idle_view (fold init_source [0..<NUM_INSTR_SOURCES] b) = idle_view ?a0" using b(1) init_sources by metis
  have "keeps c ?c0" by simp
  then have k: "keeps c c'" using b(2) keeps_trans by blast
  show ?thesis
  proof (rule core_inv_enter_ifetch [OF keeps_core_inv [OF k inv] _ _ e])
    show "fresh (fold init_source [0..<NUM_INSTR_SOURCES] b)" using v fr by (simp add: idle_view_def fresh_def)
    show "i_instr_id (fold init_source [0..<NUM_INSTR_SOURCES] b) = instr_unique_id c'"
      using v k by (simp add: idle_view_def keeps_def)
  qed
qed


section \<open>From one buffer to the next\<close>

lemma dq_good_push_ok:
  assumes "dq_good q" "\<not> dq_full q"
  shows "\<exists>r. dq_push_delay w x q = Inr r \<and> dq_good r \<and> dq_list r = dq_list q @ [x] \<and> dq_size r = dq_size q"
proof -
  have wf: "dq_wf q" by (rule dq_good_wf [OF assms(1)])
  have "length (dq_list q) < dq_size q"
    using assms(2) dqq.bounded [OF wf] by (simp add: dq_full_list)
  from dq_push_delay_ok [OF wf this, of w x] show ?thesis using dq_good_push(1) [OF assms(1)] by blast
qed

lemma dq_good_pop_ok:
  assumes "dq_good q" "dq_has_ready q"
  shows "\<exists>r. dq_pop_front q = Inr r \<and> dq_good r \<and> dq_list q = dq_front q # dq_list r \<and> dq_size r = dq_size q"
proof -
  have ne: "dq_list q \<noteq> []" by (rule dq_good_ready_ne [OF assms])
  from dq_pop_front_ok [OF dq_good_wf [OF assms(1)] ne] obtain r where r: "dq_pop_front q = Inr r" by blast
  then show ?thesis using dq_good_pop [OF assms r] dqq.deqD [OF dq_good_wf [OF assms(1)] r] by blast
qed

lemma cb_pop_ok:
  assumes "cb_wf b" "\<not> cb_empty b"
  shows "\<exists>r. cb_pop_front b = Inr r \<and> cb_wf r \<and> cb_list b = cb_front b # cb_list r \<and> cb_sz r = cb_sz b"
proof -
  have ne: "cb_list b \<noteq> []" using assms(2) by (simp add: cb_list_empty_iff)
  from cb_pop_front_ok [OF assms(1) ne] obtain r where r: "cb_pop_front b = Inr r" by blast
  then show ?thesis using cbq.deqD [OF assms(1) r] by blast
qed

lemma core_inv_promote_step:
  assumes inv: "core_inv c" and q: "dq_good q" "dq_list q = dq_list (DECODE_BUFFER c) @ [x]"
    and b: "cb_wf buf" "cb_list (IFETCH_BUFFER c) = x # cb_list buf"
  shows "core_inv (c\<lparr>DECODE_BUFFER := q, IFETCH_BUFFER := buf\<rparr>)"
  using core_invD [OF inv] q b
  by (simp add: core_inv_def bufs_ok_def ordered_def pipeline_def waiting_fresh_def deps_inv_def)

lemma promote_loop_ok: "core_inv c \<Longrightarrow> \<exists>d. promote_loop E n c = Inr d \<and> core_inv d \<and> o_cpu d = o_cpu c"
proof (induction n arbitrary: c)
  case (Suc n)
  note i = core_invD [OF Suc.prems]
  let ?x = "cb_front (IFETCH_BUFFER c)"
  let ?w = "if \<not> warm E c \<or> i_decoded ?x \<noteq> 0 then 0 else dq_latency (DECODE_BUFFER c)"
  show ?case
  proof (cases "\<not> cb_empty (IFETCH_BUFFER c) \<and> \<not> dq_full (DECODE_BUFFER c) \<and> i_translated ?x = COMPLETED \<and> i_fetched ?x = COMPLETED")
    case True
    from dq_good_push_ok [OF i(8), of ?w ?x] True obtain q where
      q: "dq_push_delay ?w ?x (DECODE_BUFFER c) = Inr q" "dq_good q" "dq_list q = dq_list (DECODE_BUFFER c) @ [?x]" by blast
    from cb_pop_ok [OF i(6)] True obtain buf where
      b: "cb_pop_front (IFETCH_BUFFER c) = Inr buf" "cb_wf buf" "cb_list (IFETCH_BUFFER c) = ?x # cb_list buf" by blast
    have "(if \<not> warm E c \<or> i_decoded ?x \<noteq> 0 then dq_push_back_ready ?x (DECODE_BUFFER c)
           else dq_push_back ?x (DECODE_BUFFER c)) = Inr q"
      using q(1) by (auto simp: dq_push_back_ready_def dq_push_back_def split: if_splits)
    then have "promote_loop E (Suc n) c = promote_loop E n (c\<lparr>DECODE_BUFFER := q, IFETCH_BUFFER := buf\<rparr>)"
      using True b(1) by (simp add: Let_def)
    then show ?thesis using Suc.IH [OF core_inv_promote_step [OF Suc.prems q(2,3) b(2,3)]] by simp
  qed (use Suc.prems in auto)
qed simp

lemma check_deadlock_cases: "check_deadlock i c = Inr c \<or> check_deadlock i c = Inl (DeadlockThrown (of_nat (o_cpu c)))"
  by (simp add: check_deadlock_def)

lemma promote_to_decode_cases:
  assumes "core_inv c"
  shows "(\<exists>d. promote_to_decode E c = Inr d \<and> core_inv d \<and> o_cpu d = o_cpu c) \<or> promote_to_decode E c = Inl (DeadlockThrown (of_nat (o_cpu c)))"
proof -
  from promote_loop_ok [OF assms] obtain d where
    d: "promote_loop E (FETCH_WIDTH (ocfg c)) c = Inr d" "core_inv d" "o_cpu d = o_cpu c" by blast
  then show ?thesis using check_deadlock_cases [of "cb_front (IFETCH_BUFFER d)" d] by (auto simp: promote_to_decode_def)
qed

lemma dib_ways_length:
  assumes "bufs_ok c"
  shows "dib_set_begin ip (ocfg c) + dib_way (ocfg c) \<le> length (DIB c)" "length (dib_ways ip c) = dib_way (ocfg c)"
proof -
  have "unat (drop_bit (lg2 (dib_window (ocfg c))) ip) mod dib_set (ocfg c) < dib_set (ocfg c)"
    using assms by (simp add: bufs_ok_def)
  from set_index_bound [OF this, of "dib_way (ocfg c)"]
  show l: "dib_set_begin ip (ocfg c) + dib_way (ocfg c) \<le> length (DIB c)" using assms by (simp add: dib_set_begin_def bufs_ok_def)
  show "length (dib_ways ip c) = dib_way (ocfg c)" by (rule length_slice [OF l])
qed

lemma do_dib_update_ok:
  assumes "bufs_ok c"
  shows "\<exists>d. do_dib_update i c = Inr d"
proof -
  have "0 < dib_way (ocfg c)" using assms by (simp add: bufs_ok_def)
  then have "0 < length (dib_ways (i_ip i) c)" unfolding dib_ways_length(2) [OF assms] .
  then have ne: "dib_ways (i_ip i) c \<noteq> []" by (rule length_greater_0_conv [THEN iffD1])
  then have "max_element (lru_comparator dib_valid dib_lru) (dib_ways (i_ip i) c) \<noteq> dib_way (ocfg c)"
    using max_element_less [OF ne, of "lru_comparator dib_valid dib_lru"] unfolding dib_ways_length(2) [OF assms] by linarith
  then show ?thesis by (simp add: do_dib_update_def Let_def)
qed

lemma core_inv_decode_step:
  assumes inv: "core_inv c" and q: "dq_good q" "dq_list q = dq_list (DISPATCH_BUFFER c) @ [y]"
    and d: "dq_good d" "dq_list (DECODE_BUFFER c) = x # dq_list d" and xy: "idle_view y = idle_view x"
  shows "core_inv (c\<lparr>DISPATCH_BUFFER := q, DECODE_BUFFER := d\<rparr>)"
  using core_invD [OF inv] q d xy
  by (simp add: core_inv_def bufs_ok_def ordered_def pipeline_def waiting_fresh_def deps_inv_def idle_view_def fresh_def)

lemma decode_loop_ok: "core_inv c \<Longrightarrow> \<exists>d. decode_loop E n c = Inr d \<and> core_inv d \<and> o_cpu d = o_cpu c"
proof (induction n arbitrary: c)
  case (Suc n)
  note i = core_invD [OF Suc.prems]
  show ?case
  proof (cases "dq_has_ready (DECODE_BUFFER c) \<and> \<not> dq_full (DISPATCH_BUFFER c)")
    case True
    define x where "x = dq_front (DECODE_BUFFER c)"
    define early where "early \<longleftrightarrow> i_branch_mispredicted x \<and> (i_branch_type x = BRANCH_DIRECT_JUMP \<or> i_branch_type x = BRANCH_DIRECT_CALL)"
    define y where "y = (if early then x\<lparr>i_branch_mispredicted := False\<rparr> else x)"
    from do_dib_update_ok [OF i(1)] obtain c1 where c1: "do_dib_update x c = Inr c1" by blast
    define c2 where "c2 = (if early then c1\<lparr>fetch_resume_cycle := current_cycle c1 + BRANCH_MISPREDICT_PENALTY (ocfg c1)\<rparr> else c1)"
    have k: "keeps c c2" using keeps_do_dib_update [OF c1] by (simp add: c2_def)
    have bufs: "DISPATCH_BUFFER c2 = DISPATCH_BUFFER c" "DECODE_BUFFER c2 = DECODE_BUFFER c" "o_cpu c2 = o_cpu c"
      using k by (simp_all add: keeps_def)
    let ?w = "if warm E c2 then dq_latency (DISPATCH_BUFFER c) else 0"
    from dq_good_push_ok [OF i(7), of ?w y] True obtain q where
      q: "dq_push_delay ?w y (DISPATCH_BUFFER c) = Inr q" "dq_good q" "dq_list q = dq_list (DISPATCH_BUFFER c) @ [y]" by blast
    from dq_good_pop_ok [OF i(8)] True obtain d where
      d: "dq_pop_front (DECODE_BUFFER c) = Inr d" "dq_good d" "dq_list (DECODE_BUFFER c) = x # dq_list d"
      unfolding x_def by blast
    have p: "(if warm E c2 then dq_push_back y (DISPATCH_BUFFER c2) else dq_push_back_ready y (DISPATCH_BUFFER c2)) = Inr q"
      using q(1) by (auto simp: dq_push_back_ready_def dq_push_back_def bufs split: if_splits)
    have "decode_loop E (Suc n) c = decode_loop E n (c2\<lparr>DISPATCH_BUFFER := q, DECODE_BUFFER := d\<rparr>)"
      using True c1 d(1) p
      by (cases "warm E c2")
        (simp_all add: Let_def x_def [symmetric] early_def [symmetric] y_def [symmetric] c2_def [symmetric] bufs(2))
    moreover have "core_inv (c2\<lparr>DISPATCH_BUFFER := q, DECODE_BUFFER := d\<rparr>)"
      using core_inv_decode_step [OF keeps_core_inv [OF k Suc.prems], of q y d x] q(2,3) d(2,3)
      by (simp add: bufs y_def idle_view_def)
    ultimately show ?thesis using Suc.IH bufs(3) by fastforce
  qed (use Suc.prems in auto)
qed simp

lemma decode_instruction_cases:
  assumes "core_inv c"
  shows "(\<exists>d. decode_instruction E c = Inr d \<and> core_inv d \<and> o_cpu d = o_cpu c) \<or> decode_instruction E c = Inl (DeadlockThrown (of_nat (o_cpu c)))"
proof -
  from decode_loop_ok [OF assms] obtain d where
    d: "decode_loop E (DECODE_WIDTH (ocfg c)) c = Inr d" "core_inv d" "o_cpu d = o_cpu c" by blast
  then show ?thesis using check_deadlock_cases [of "dq_front (DECODE_BUFFER d)" d] by (auto simp: decode_instruction_def)
qed

lemma core_inv_dispatch_step:
  assumes inv: "core_inv c" and q: "dq_good q" "dq_list (DISPATCH_BUFFER c) = x # dq_list q"
    and r: "cb_push_back x (ROB c) = Inr rob"
  shows "core_inv (c\<lparr>ROB := rob, DISPATCH_BUFFER := q\<rparr>)"
proof -
  note i = core_invD [OF inv] and b = cbq.enqD [OF core_invD(5) [OF inv] r]
  have "cb_occupancy (ROB c) < cb_sz (ROB c)" using cbq.enq_Inr_iff [OF i(5), of x] r by auto
  then have "inj_on (cb_pos (ROB c)) {..length (cb_list (ROB c))}"
    using rob_inj [OF i(5)] by (auto intro: inj_on_subset)
  moreover have "fresh x" using i(3) q(2) by (simp add: waiting_fresh_def)
  ultimately have "sched_inv (cb_pos (ROB c)) (cb_list (ROB c) @ [x]) (ready_to_execute c)"
    using i(4) sched_inv_snoc by (simp add: deps_inv_def)
  then show ?thesis
    using i(1-3) q b cb_push_back_pos [OF r]
    by (simp add: core_inv_def bufs_ok_def ordered_def pipeline_def waiting_fresh_def deps_inv_def)
qed

lemma dispatch_loop_ok: "core_inv c \<Longrightarrow> \<exists>d. dispatch_loop n c = Inr d \<and> core_inv d \<and> o_cpu d = o_cpu c"
proof (induction n arbitrary: c)
  case (Suc n)
  note i = core_invD [OF Suc.prems]
  show ?case
  proof (cases "dq_has_ready (DISPATCH_BUFFER c) \<and> \<not> cb_full (ROB c)")
    case True
    let ?x = "dq_front (DISPATCH_BUFFER c)"
    have "length (cb_list (ROB c)) < cb_sz (ROB c)"
      using True cb_occupancy_le [OF i(5)] by (simp add: cb_full_def)
    then obtain rob where r: "cb_push_back ?x (ROB c) = Inr rob" using cbq.enq_Inr_iff [OF i(5), of ?x] by blast
    from dq_good_pop_ok [OF i(7)] True obtain q where
      q: "dq_pop_front (DISPATCH_BUFFER c) = Inr q" "dq_good q" "dq_list (DISPATCH_BUFFER c) = ?x # dq_list q" by blast
    have "dispatch_loop (Suc n) c = dispatch_loop n (c\<lparr>ROB := rob, DISPATCH_BUFFER := q\<rparr>)" using True r q(1) by simp
    then show ?thesis using Suc.IH [OF core_inv_dispatch_step [OF Suc.prems q(2,3) r]] by simp
  qed (use Suc.prems in auto)
qed simp

lemma dispatch_instruction_cases:
  assumes "core_inv c"
  shows "(\<exists>d. dispatch_instruction c = Inr d \<and> core_inv d \<and> o_cpu d = o_cpu c) \<or> dispatch_instruction c = Inl (DeadlockThrown (of_nat (o_cpu c)))"
proof -
  from dispatch_loop_ok [OF assms] obtain d where
    d: "dispatch_loop (DISPATCH_WIDTH (ocfg c)) c = Inr d" "core_inv d" "o_cpu d = o_cpu c" by blast
  then show ?thesis using assms check_deadlock_cases [of "dq_front (DISPATCH_BUFFER d)" d] by (auto simp: dispatch_instruction_def)
qed

end
