(* ===== verification/CoreOrder.thy ===== *)
theory CoreOrder
  imports CoreInvariant
begin

text \<open>
  The stages of the back end keep the invariant of the core, and with them one
  cycle and every run of cycles, fetched instructions and returned packets.
  The properties state what that means for the program order, for register
  dependences and for the assertions of the scheduler.
\<close>

section \<open>Retirement\<close>

lemma core_inv_retire_step:
  assumes inv: "core_inv c" and e: "i_executed (cb_front (ROB c)) = COMPLETED"
    and r: "cb_pop_front (ROB c) = Inr rob" and ne: "\<not> cb_empty (ROB c)"
  shows "core_inv (c\<lparr>ROB := rob, completed_executions := n, num_retired := num_retired c + 1\<rparr>)"
proof -
  note i = core_invD [OF inv]
  have b: "cb_wf rob" "cb_list (ROB c) = cb_front (ROB c) # cb_list rob" "cb_sz rob = cb_sz (ROB c)"
    using cbq.deqD [OF i(5) r] by simp_all
  have "sched_inv (\<lambda>k. cb_pos (ROB c) (Suc k)) (cb_list rob) (ready_to_execute c)"
    using i(4) e b(2) sched_inv_tl by (simp add: deps_inv_def)
  moreover have "(\<lambda>k. cb_pos (ROB c) (Suc k)) = cb_pos rob" using cb_pop_front_pos [OF i(5) r] by (simp add: fun_eq_iff)
  ultimately show ?thesis
    using i(1-3) b consecutive_tl
    by (auto simp: core_inv_def bufs_ok_def ordered_def pipeline_def waiting_fresh_def deps_inv_def)
qed

lemma core_inv_retire_loop: "core_inv c \<Longrightarrow> retire_loop E n c = Inr (ok, d) \<Longrightarrow> core_inv d"
proof (induction n arbitrary: c)
  case (Suc n)
  show ?case
  proof (cases "\<not> cb_empty (ROB c) \<and> i_executed (cb_front (ROB c)) = COMPLETED")
    case True
    with Suc.prems(2) obtain st u where u: "retire_stores E [0..<MAX_INSTR_DESTINATIONS] c = Inr (st, u)"
      and d: "if st then \<exists>rob. cb_pop_front (ROB (count_retired (cb_front (ROB u)) u)) = Inr rob
             \<and> retire_loop E n ((count_retired (cb_front (ROB u)) u)\<lparr>ROB := rob,
                  completed_executions := completed_executions (count_retired (cb_front (ROB u)) u) - 1,
                  num_retired := num_retired (count_retired (cb_front (ROB u)) u) + 1\<rparr>) = Inr (ok, d)
           else d = u"
      by (auto simp: errs Let_def simp del: retire_stores.simps upt_rec_numeral split: if_splits)
    let ?u = "count_retired (cb_front (ROB u)) u"
    have k: "keeps c ?u" using keeps_retire_stores [OF u] by simp
    have iu: "core_inv ?u" by (rule keeps_core_inv [OF k Suc.prems(1)])
    have rob: "same_buf rview (ROB c) (ROB ?u)" using k by (simp add: keeps_def)
    note sb = same_bufD [OF rob core_invD(5) [OF Suc.prems(1)]]
    have ne: "\<not> cb_empty (ROB ?u)" using True sb(3) by (simp add: cb_empty_def)
    have "rview (cb_front (ROB ?u)) = rview (cb_front (ROB c))"
    proof -
      have l: "cb_list (ROB ?u) \<noteq> []" "cb_list (ROB c) \<noteq> []" using ne True by (simp_all add: cb_list_empty_iff)
      then have "hd (map rview (cb_list (ROB ?u))) = hd (map rview (cb_list (ROB c)))" using sb(4) by simp
      then show ?thesis using l cb_front_list [OF sb(1)] cb_front_list [OF core_invD(5) [OF Suc.prems(1)]]
        by (simp add: list.map_sel)
    qed
    then have e: "i_executed (cb_front (ROB ?u)) = COMPLETED" using True rviewD(3) by metis
    show ?thesis
    proof (cases st)
      case True
      with d obtain rob where "cb_pop_front (ROB ?u) = Inr rob"
        "retire_loop E n (?u\<lparr>ROB := rob, completed_executions := completed_executions ?u - 1,
            num_retired := num_retired ?u + 1\<rparr>) = Inr (ok, d)" by auto
      then show ?thesis using Suc.IH core_inv_retire_step [OF iu e _ ne] by blast
    next
      case False
      then show ?thesis using d keeps_core_inv [OF keeps_retire_stores [OF u] Suc.prems(1)] by simp
    qed
  qed (use Suc.prems in auto)
qed simp

lemma core_inv_retire_rob:
  assumes "core_inv c" "retire_rob E c = Inr d"
  shows "core_inv d"
  using assms core_inv_retire_loop [OF assms(1)]
  by (auto simp: retire_rob_def errs check_deadlock_def split: if_splits)

section \<open>Execution\<close>

lemma cb_at_pos: "k < length (cb_list b) \<Longrightarrow> cb_at b (cb_pos b k) = cb_list b ! k"
  by (simp add: nth_cb_list)

lemma core_inv_do_execution:
  assumes inv: "core_inv c" and r: "ready_to_execute c = p # ps"
  shows "core_inv ((do_execution E p c)\<lparr>ready_to_execute := ps\<rparr>)"
proof (rule moves_core_inv [OF _ inv])
  note i = core_invD [OF inv]
  let ?L = "cb_list (ROB c)" and ?P = "cb_pos (ROB c)"
  have s: "sched_inv ?P ?L (p # ps)" using i(4) r by (simp add: deps_inv_def)
  then obtain k where k: "k < length ?L" "p = ?P k" using sched_invD(4) [OF s] by (auto simp: ready_ok_def)
  show "moves c ((do_execution E p c)\<lparr>ready_to_execute := ps\<rparr>)"
    by (simp add: moves_def do_execution_def upd_rob_def same_buf_set)
  show "deps_inv ((do_execution E p c)\<lparr>ready_to_execute := ps\<rparr>)"
    using sched_inv_execute [OF s [unfolded k(2)] rob_inj_list [OF i(5)] k(1)]
    by (simp add: deps_inv_def do_execution_def k upd_rob_list [OF i(5) k(1)] same_regs_def)
qed

lemma core_inv_execute_loop: "core_inv c \<Longrightarrow> core_inv (execute_loop E n c)"
  by (induction n arbitrary: c) (auto split: list.split simp: core_inv_do_execution)

lemma core_inv_execute: "core_inv c \<Longrightarrow> core_inv (execute_instruction E c)"
  by (simp add: execute_instruction_def core_inv_execute_loop)

section \<open>Completion\<close>

lemma releasing_idle:
  assumes "releasing P L R D" "inj_on P {..<length L}" "k < length L" "P k \<in> D"
  shows "i_executed (L ! k) = 0" "P k \<notin> set R"
proof -
  have r: "count_ok P D L" "exec_ok L" "ready_ok P R L" using assms(1) by (simp_all add: releasing_def)
  have "i_num_reg_dependent (L ! k) \<noteq> 0" using r(1) assms(3,4) by (auto simp: count_ok_def)
  then show "i_executed (L ! k) = 0" "P k \<notin> set R"
    using r(2) assms(3) not_in_ready [OF r(3) assms(2,3)] by (auto simp: exec_ok_def)
qed

definition releasing_core :: "nat set \<Rightarrow> ('b, 'w) O3_CPU \<Rightarrow> bool" where
  "releasing_core D c \<longleftrightarrow> cb_wf (ROB c) \<and> releasing (cb_pos (ROB c)) (cb_list (ROB c)) (ready_to_execute c) D"

definition same_exec :: "('b, 'w) O3_CPU \<Rightarrow> ('b, 'w) O3_CPU \<Rightarrow> bool" where
  "same_exec c d \<longleftrightarrow> moves c d \<and> cb_pos (ROB d) = cb_pos (ROB c) \<and> ready_to_execute d = ready_to_execute c
     \<and> map (\<lambda>i. (deps i, i_executed i)) (cb_list (ROB d)) = map (\<lambda>i. (deps i, i_executed i)) (cb_list (ROB c))"

lemma same_exec_trans: "same_exec c d \<Longrightarrow> same_exec d e \<Longrightarrow> same_exec c e"
  unfolding same_exec_def using moves_trans by metis

lemma same_execD:
  assumes "same_exec c d"
  shows "length (cb_list (ROB d)) = length (cb_list (ROB c))"
    "k < length (cb_list (ROB c)) \<Longrightarrow> deps (cb_list (ROB d) ! k) = deps (cb_list (ROB c) ! k)"
    "k < length (cb_list (ROB c)) \<Longrightarrow> i_executed (cb_list (ROB d) ! k) = i_executed (cb_list (ROB c) ! k)"
proof -
  let ?f = "\<lambda>i. (deps i, i_executed i)"
  have e: "map ?f (cb_list (ROB d)) = map ?f (cb_list (ROB c))" using assms by (simp add: same_exec_def)
  show l: "length (cb_list (ROB d)) = length (cb_list (ROB c))" using map_eq_imp_length_eq [OF e] .
  have "map ?f (cb_list (ROB d)) ! k = map ?f (cb_list (ROB c)) ! k" using e by simp
  then show "k < length (cb_list (ROB c)) \<Longrightarrow> deps (cb_list (ROB d) ! k) = deps (cb_list (ROB c) ! k)"
    "k < length (cb_list (ROB c)) \<Longrightarrow> i_executed (cb_list (ROB d) ! k) = i_executed (cb_list (ROB c) ! k)"
    using l by simp_all
qed

lemma release_dependent_ok:
  assumes r: "releasing_core D c" and p: "p \<in> D"
  shows "\<exists>d. release_dependent p c = Inr d \<and> releasing_core (D - {p}) d \<and> same_exec c d"
proof -
  let ?L = "cb_list (ROB c)" and ?P = "cb_pos (ROB c)"
  have wf: "cb_wf (ROB c)" and rel: "releasing ?P ?L (ready_to_execute c) D" using r by (simp_all add: releasing_core_def)
  obtain k where k: "k < length ?L" "p = ?P k" "i_scheduled (?L ! k) \<noteq> 0" using rel p by (auto simp: releasing_def)
  define a where "a = (?L ! k)\<lparr>i_num_reg_dependent := i_num_reg_dependent (?L ! k) - 1\<rparr>"
  define x where "x = (if i_num_reg_dependent a = 0
     then a\<lparr>i_scheduled := (if i_is_memory a then INFLIGHT else COMPLETED)\<rparr> else a)"
  have x: "same_regs x (?L ! k)" "deps x = deps (?L ! k)" "i_num_reg_dependent x = i_num_reg_dependent (?L ! k) - 1"
    "i_executed x = i_executed (?L ! k)" "i_scheduled x \<noteq> 0" "i_instr_id x = i_instr_id (?L ! k)"
    "i_num_reg_dependent x = i_num_reg_dependent a"
    using k(3) by (simp_all add: x_def a_def same_regs_def)
  note step = releasing_step [OF rel rob_inj_list [OF wf] k(1) p [unfolded k(2)] x(1-5)]
  define c1 where "c1 = upd_rob p (\<lambda>i. i\<lparr>i_num_reg_dependent := i_num_reg_dependent i - 1\<rparr>) c"
  define d where "d = (if i_num_reg_dependent a = 0
     then upd_rob p (\<lambda>i. i\<lparr>i_scheduled := (if i_is_memory i then INFLIGHT else COMPLETED)\<rparr>) c1 else c1)"
  have c1: "cb_list (ROB c1) = ?L[k := a]" "cb_wf (ROB c1)" "cb_pos (ROB c1) = ?P" "ready_to_execute c1 = ready_to_execute c"
    using upd_rob_list [OF wf k(1)] k(2) wf by (simp_all add: c1_def a_def)
  have at: "cb_at (ROB c1) p = a" using cb_at_pos [of k "ROB c1"] k c1 by simp
  have d: "cb_list (ROB d) = ?L[k := x]" "cb_wf (ROB d)" "cb_pos (ROB d) = ?P" "ready_to_execute d = ready_to_execute c"
    using upd_rob_list [OF c1(2), of k] k(1,2) c1 by (simp_all add: d_def x_def)
  have "release_dependent p c = Inr d"
    using step(2) by (simp add: release_dependent_def c1_def [symmetric] at d_def x(7) errs)
  moreover have "releasing_core (D - {p}) d" using step(1) d k(2) by (simp add: releasing_core_def)
  moreover have "moves c c1" by (simp add: c1_def moves_upd_rob)
  moreover have "moves c1 d" by (simp add: d_def moves_upd_rob)
  moreover have "map (\<lambda>i. (deps i, i_executed i)) (?L[k := x]) = map (\<lambda>i. (deps i, i_executed i)) ?L"
    using k(1) x(2,4) by (simp add: map_update list_update_same_conv)
  ultimately have "release_dependent p c = Inr d \<and> releasing_core (D - {p}) d \<and> same_exec c d"
    using moves_trans by (auto simp: same_exec_def d)
  then show ?thesis ..
qed

lemma release_fold_ok:
  "releasing_core (set ps) c \<Longrightarrow> distinct ps \<Longrightarrow>
     \<exists>d. foldE release_dependent ps c = Inr d \<and> releasing_core {} d \<and> same_exec c d"
proof (induction ps arbitrary: c)
  case (Cons p ps)
  from release_dependent_ok [OF Cons.prems(1), of p]
  obtain d where d: "release_dependent p c = Inr d" "releasing_core (set (p # ps) - {p}) d" "same_exec c d" by auto
  moreover have "set (p # ps) - {p} = set ps" using Cons.prems(2) by auto
  ultimately show ?case using Cons.IH [of d] Cons.prems(2) same_exec_trans by (fastforce simp: errs)
qed (simp add: same_exec_def errs)

lemma push_ready_ok:
  assumes wf: "cb_wf (ROB c)" and inv: "deps_inv c" and k: "k < length (cb_list (ROB c))"
    and p: "cb_pos (ROB c) k \<notin> set (ready_to_execute c)"
    and f: "i_scheduled (cb_list (ROB c) ! k) = COMPLETED" "i_executed (cb_list (ROB c) ! k) = 0"
      "i_num_reg_dependent (cb_list (ROB c) ! k) = 0"
  shows "push_ready (cb_pos (ROB c) k) c = Inr (c\<lparr>ready_to_execute := ready_to_execute c @ [cb_pos (ROB c) k]\<rparr>)"
    "deps_inv (c\<lparr>ready_to_execute := ready_to_execute c @ [cb_pos (ROB c) k]\<rparr>)"
proof -
  have s: "sched_inv (cb_pos (ROB c)) (cb_list (ROB c)) (ready_to_execute c)" using inv by (simp add: deps_inv_def)
  have "length (ready_to_execute c) < length (cb_list (ROB c))"
    using ready_length [OF sched_invD(4) [OF s] rob_inj_list [OF wf] k p] .
  then show "push_ready (cb_pos (ROB c) k) c = Inr (c\<lparr>ready_to_execute := ready_to_execute c @ [cb_pos (ROB c) k]\<rparr>)"
    using cb_occupancy_le [OF wf] by (simp add: push_ready_def errs)
  show "deps_inv (c\<lparr>ready_to_execute := ready_to_execute c @ [cb_pos (ROB c) k]\<rparr>)"
    using sched_inv_wake [OF s k p f] by (simp add: deps_inv_def)
qed

lemma wake_fold_ok:
  assumes "cb_wf (ROB c)" "deps_inv c" "distinct ps"
    "\<And>p. p \<in> set ps \<Longrightarrow> p \<notin> set (ready_to_execute c)
        \<and> (\<exists>k < length (cb_list (ROB c)). p = cb_pos (ROB c) k \<and> i_executed (cb_list (ROB c) ! k) = 0)"
  shows "\<exists>R. foldE wake_dependent ps c = Inr (c\<lparr>ready_to_execute := R\<rparr>) \<and> deps_inv (c\<lparr>ready_to_execute := R\<rparr>)"
  using assms
proof (induction ps arbitrary: c)
  case Nil
  then show ?case by (intro exI [of _ "ready_to_execute c"]) (simp add: errs)
next
  case (Cons p ps)
  from Cons.prems(4) [of p] obtain k where k: "k < length (cb_list (ROB c))" "p = cb_pos (ROB c) k"
    "i_executed (cb_list (ROB c) ! k) = 0" "p \<notin> set (ready_to_execute c)" by auto
  note at = cb_at_pos [OF k(1), folded k(2)]
  have rest: "q \<notin> set (ready_to_execute c) \<and> (\<exists>k < length (cb_list (ROB c)). q = cb_pos (ROB c) k
      \<and> i_executed (cb_list (ROB c) ! k) = 0)" if "q \<in> set ps" for q using Cons.prems(4) [of q] that by simp
  show ?case
  proof (cases "i_scheduled (cb_list (ROB c) ! k) = COMPLETED \<and> i_num_reg_dependent (cb_list (ROB c) ! k) = 0")
    case True
    let ?d = "c\<lparr>ready_to_execute := ready_to_execute c @ [p]\<rparr>"
    note p = push_ready_ok [OF Cons.prems(1,2) k(1) k(4) [unfolded k(2)] _ k(3), folded k(2)]
    have d: "wake_dependent p c = Inr ?d" "deps_inv ?d" using p True by (simp_all add: wake_dependent_def at)
    have "\<exists>R. foldE wake_dependent ps ?d = Inr (?d\<lparr>ready_to_execute := R\<rparr>) \<and> deps_inv (?d\<lparr>ready_to_execute := R\<rparr>)"
      using Cons.prems(1,3) d(2) rest by (intro Cons.IH) auto
    then show ?thesis by (simp add: d errs)
  next
    case False
    then have "wake_dependent p c = Inr c" by (auto simp: wake_dependent_def at)
    moreover have "\<exists>R. foldE wake_dependent ps c = Inr (c\<lparr>ready_to_execute := R\<rparr>) \<and> deps_inv (c\<lparr>ready_to_execute := R\<rparr>)"
      using Cons.prems(1,2,3) rest by (intro Cons.IH) auto
    ultimately show ?thesis by (simp add: errs)
  qed
qed

text \<open>The positions an instruction that has just completed may wake.\<close>

definition wakeable :: "nat list \<Rightarrow> ('b, 'w) O3_CPU \<Rightarrow> bool" where
  "wakeable ps c \<longleftrightarrow> distinct ps \<and> (\<forall>p \<in> set ps. p \<notin> set (ready_to_execute c)
     \<and> (\<exists>k < length (cb_list (ROB c)). p = cb_pos (ROB c) k \<and> i_executed (cb_list (ROB c) ! k) = 0))"

lemma wakeable_same:
  assumes "releasing_core (set ps) c" "distinct ps" "same_exec c d"
  shows "wakeable ps d"
proof -
  have r: "cb_wf (ROB c)" "releasing (cb_pos (ROB c)) (cb_list (ROB c)) (ready_to_execute c) (set ps)"
    using assms(1) by (simp_all add: releasing_core_def)
  have "p \<notin> set (ready_to_execute d) \<and> (\<exists>k < length (cb_list (ROB d)). p = cb_pos (ROB d) k \<and> i_executed (cb_list (ROB d) ! k) = 0)"
    if "p \<in> set ps" for p
  proof -
    obtain k where k: "k < length (cb_list (ROB c))" "p = cb_pos (ROB c) k" using r(2) \<open>p \<in> set ps\<close> by (auto simp: releasing_def)
    show ?thesis
      using releasing_idle [OF r(2) rob_inj_list [OF r(1)] k(1)] \<open>p \<in> set ps\<close> k same_execD [OF assms(3)] assms(3)
      by (auto simp: same_exec_def)
  qed
  then show ?thesis using assms(2) by (simp add: wakeable_def)
qed

lemma do_complete_execution_ok:
  assumes inv: "core_inv c" and k: "k < length (cb_list (ROB c))" and e: "i_executed (cb_list (ROB c) ! k) = INFLIGHT"
  shows "\<exists>d. do_complete_execution (cb_pos (ROB c) k) c = Inr d \<and> core_inv d \<and> cb_pos (ROB d) = cb_pos (ROB c)
     \<and> length (cb_list (ROB d)) = length (cb_list (ROB c)) \<and> wakeable (deps (cb_list (ROB d) ! k)) d"
proof -
  note i = core_invD [OF inv]
  let ?L = "cb_list (ROB c)" and ?P = "cb_pos (ROB c)" and ?p = "cb_pos (ROB c) k"
  let ?x = "(?L ! k)\<lparr>i_executed := COMPLETED\<rparr>"
  have s: "sched_inv ?P ?L (ready_to_execute c)" using i(4) by (simp add: deps_inv_def)
  define c0 where "c0 = upd_rob ?p (\<lambda>i. i\<lparr>i_executed := COMPLETED\<rparr>) c"
  define c1 where "c1 = (if \<not> i_is_memory ?x then c0\<lparr>inflight_reg_executions := inflight_reg_executions c0 - 1\<rparr>
               else c0\<lparr>inflight_mem_executions := inflight_mem_executions c0 - 1\<rparr>)
               \<lparr>completed_executions := completed_executions c0 + 1\<rparr>"
  have c0: "cb_list (ROB c0) = ?L[k := ?x]" using upd_rob_list [OF i(5) k] by (simp add: c0_def)
  have at: "cb_at (ROB c0) ?p = ?x" using cb_at_pos [of k "ROB c0"] k c0 by (simp add: c0_def)
  have c1: "ROB c1 = ROB c0" "ready_to_execute c1 = ready_to_execute c" "moves c c1"
    by (simp_all add: c1_def c0_def moves_def upd_rob_def same_buf_set)
  have "releasing ?P (?L[k := ?x]) (ready_to_execute c) (set (deps (?L ! k)))"
    using releasing_start [OF s rob_inj_list [OF i(5)] k e] by (simp add: same_regs_def)
  then have r: "releasing_core (set (deps (?L ! k))) c1" using c0 i(5) by (simp add: releasing_core_def c1) (simp add: c0_def)
  have dist: "distinct (deps (?L ! k))" using sched_invD(1) [OF s] k by (simp add: deps_ok_def)
  obtain d where d: "foldE release_dependent (deps (?L ! k)) c1 = Inr d" "releasing_core {} d" "same_exec c1 d"
    using release_fold_ok [OF r dist] by auto
  define d' where "d' = (if i_branch_mispredicted (cb_at (ROB d) ?p)
     then d\<lparr>fetch_resume_cycle := current_cycle d + BRANCH_MISPREDICT_PENALTY (ocfg d)\<rparr> else d)"
  have d': "ROB d' = ROB d" "ready_to_execute d' = ready_to_execute d" "moves d d'" by (simp_all add: d'_def moves_def)
  have "do_complete_execution ?p c = Inr d'"
    using d(1)
    by (cases "i_is_memory (?L ! k)") (simp_all add: do_complete_execution_def Let_def c0_def [symmetric] at d'_def c1_def errs)
  moreover have "deps_inv d'" using d(2) by (simp add: deps_inv_def d' releasing_core_def releasing_done)
  moreover have "moves c d'" using c1(3) d(3) d'(3) moves_trans by (metis same_exec_def)
  moreover have "wakeable (deps (?L ! k)) d'" using wakeable_same [OF r dist d(3)] by (simp add: wakeable_def d')
  moreover have "deps (cb_list (ROB d) ! k) = deps (?L ! k)" using same_execD(2) [OF d(3), of k] k c0 c1(1) by simp
  moreover have "length (cb_list (ROB d)) = length ?L" using same_execD(1) [OF d(3)] c0 c1(1) by simp
  moreover have "cb_pos (ROB d) = ?P" using d(3) c1(1) by (simp add: same_exec_def c0_def)
  ultimately show ?thesis using moves_core_inv [OF _ inv] d' by auto
qed

lemma complete_loop_ok:
  "core_inv c \<Longrightarrow> set ps \<subseteq> cb_pos (ROB c) ` {..<length (cb_list (ROB c))} \<Longrightarrow>
     \<exists>d. complete_loop ps bw c = Inr d \<and> core_inv d"
proof (induction ps arbitrary: bw c)
  case (Cons p ps)
  from Cons.prems(2) obtain k where k: "k < length (cb_list (ROB c))" "p = cb_pos (ROB c) k" by auto
  note at = cb_at_pos [OF k(1), folded k(2)]
  have sub: "set ps \<subseteq> cb_pos (ROB c) ` {..<length (cb_list (ROB c))}" using Cons.prems(2) by simp
  let ?i = "cb_list (ROB c) ! k"
  show ?case
  proof (cases "bw \<noteq> 0 \<and> i_executed ?i = INFLIGHT \<and> i_event_cycle ?i \<le> current_cycle c \<and> i_num_mem_ops ?i = 0")
    case True
    then obtain d where d: "do_complete_execution p c = Inr d" "core_inv d" "cb_pos (ROB d) = cb_pos (ROB c)"
      "length (cb_list (ROB d)) = length (cb_list (ROB c))" "wakeable (deps (cb_list (ROB d) ! k)) d"
      using do_complete_execution_ok [OF Cons.prems(1) k(1)] k(2) by auto
    have ad: "cb_at (ROB d) p = cb_list (ROB d) ! k" using cb_at_pos [of k "ROB d"] k d(3,4) by simp
    obtain R where R: "foldE wake_dependent (deps (cb_list (ROB d) ! k)) d = Inr (d\<lparr>ready_to_execute := R\<rparr>)"
      "deps_inv (d\<lparr>ready_to_execute := R\<rparr>)"
      using wake_fold_ok [OF core_invD(5) [OF d(2)] core_invD(4) [OF d(2)], of "deps (cb_list (ROB d) ! k)"] d(5)
      by (auto simp: wakeable_def)
    have "core_inv (d\<lparr>ready_to_execute := R\<rparr>)" by (rule moves_core_inv [OF _ d(2) R(2)]) (simp add: moves_def)
    then have "\<exists>e. complete_loop ps (bw - 1) (d\<lparr>ready_to_execute := R\<rparr>) = Inr e \<and> core_inv e"
      using Cons.IH sub d(3,4) by simp
    then show ?thesis using True by (simp add: at d(1) ad R(1) errs)
  next
    case False
    then show ?thesis using Cons.IH [OF Cons.prems(1) sub] Cons.prems(1) by (auto simp: at)
  qed
qed simp

lemma complete_inflight_ok: "core_inv c \<Longrightarrow> \<exists>d. complete_inflight_instruction c = Inr d \<and> core_inv d"
  using complete_loop_ok [of c "cb_positions (ROB c)" "EXEC_WIDTH (ocfg c)"]
  by (auto simp: complete_inflight_instruction_def cb_positions_def lessThan_atLeast0)

section \<open>Scheduling\<close>

lemma find_prior_None:
  assumes "find_prior Q k c = None" "k \<le> length (cb_list (ROB c))" "j < k"
  shows "\<not> Q (cb_list (ROB c) ! j)"
proof -
  let ?o = "rev (take k (cb_list (ROB c)))"
  have "find_if Q ?o = length ?o" using assms(1) by (simp add: find_prior_def Let_def split: if_splits)
  then have "\<not> Q (?o ! (k - 1 - j))" using find_if_before [of "k - 1 - j" Q ?o] assms(2,3) by simp
  then show ?thesis using assms(2,3) by (simp add: rev_nth)
qed

lemma find_prior_Some:
  assumes "find_prior Q k c = Some j" "k \<le> length (cb_list (ROB c))"
  shows "j < k" "Q (cb_list (ROB c) ! j)" "j < i \<Longrightarrow> i < k \<Longrightarrow> \<not> Q (cb_list (ROB c) ! i)"
proof -
  let ?o = "rev (take k (cb_list (ROB c)))"
  have f: "find_if Q ?o \<noteq> length ?o" "j = k - 1 - find_if Q ?o"
    using assms(1) by (auto simp: find_prior_def Let_def split: if_splits)
  have l: "find_if Q ?o < k" using f(1) find_if_le [of Q ?o] assms(2) by simp
  show j: "j < k" using f(2) l by simp
  have "Q (?o ! find_if Q ?o)" by (rule find_if_nth [OF f(1) [unfolded find_if_ne_iff]])
  then show "Q (cb_list (ROB c) ! j)" using l assms(2) f(2) by (simp add: rev_nth)
  show "\<not> Q (cb_list (ROB c) ! i)" if "j < i" "i < k"
  proof -
    have "k - 1 - i < find_if Q ?o" using that f(2) l by simp
    then have "\<not> Q (?o ! (k - 1 - i))" by (rule find_if_before)
    then show ?thesis using assms(2) that by (simp add: rev_nth)
  qed
qed

definition deps_grow :: "('b, 'w) O3_CPU \<Rightarrow> ('b, 'w) O3_CPU \<Rightarrow> bool" where
  "deps_grow c d \<longleftrightarrow> moves c d \<and> cb_pos (ROB d) = cb_pos (ROB c) \<and> ready_to_execute d = ready_to_execute c
     \<and> length (cb_list (ROB d)) = length (cb_list (ROB c))
     \<and> (\<forall>j < length (cb_list (ROB c)). same_regs (cb_list (ROB d) ! j) (cb_list (ROB c) ! j)
          \<and> i_executed (cb_list (ROB d) ! j) = i_executed (cb_list (ROB c) ! j)
          \<and> set (deps (cb_list (ROB c) ! j)) \<subseteq> set (deps (cb_list (ROB d) ! j)))"

lemma deps_grow_refl: "deps_grow c c"
  by (simp add: deps_grow_def same_regs_def)

lemma deps_grow_trans:
  assumes "deps_grow c d" "deps_grow d e"
  shows "deps_grow c e"
  using assms moves_trans [of c d e] unfolding deps_grow_def same_regs_def by (auto dest!: spec)

lemma raw_at_grow:
  assumes g: "deps_grow c d" and k: "k < length (cb_list (ROB c))" and r: "raw_at (cb_pos (ROB c)) (cb_list (ROB c)) k r"
  shows "raw_at (cb_pos (ROB d)) (cb_list (ROB d)) k r"
  unfolding raw_at_def
proof (intro allI impI)
  fix j
  assume y: "youngest_writer (cb_list (ROB d)) k r j"
  have n: "i_destination_registers (cb_list (ROB d) ! i) = i_destination_registers (cb_list (ROB c) ! i)" if "i < k" for i
    using g k that by (simp add: deps_grow_def same_regs_def)
  have "youngest_writer (cb_list (ROB c)) k r j" using y n by (auto simp: youngest_writer_def)
  then have "i_executed (cb_list (ROB c) ! j) = COMPLETED \<or> cb_pos (ROB c) k \<in> set (deps (cb_list (ROB c) ! j))"
    using r by (simp add: raw_at_def)
  moreover have "j < length (cb_list (ROB c))" using y k by (simp add: youngest_writer_def)
  ultimately show "i_executed (cb_list (ROB d) ! j) = COMPLETED \<or> cb_pos (ROB d) k \<in> set (deps (cb_list (ROB d) ! j))"
    using g by (auto simp: deps_grow_def)
qed

definition scheduling_core :: "nat \<Rightarrow> ('b, 'w) O3_CPU \<Rightarrow> bool" where
  "scheduling_core k c \<longleftrightarrow> cb_wf (ROB c) \<and> k < length (cb_list (ROB c))
     \<and> scheduling (cb_pos (ROB c)) (cb_list (ROB c)) (ready_to_execute c) k"

lemma raw_at_marked:
  assumes f: "find_prior (instr_reg_will_produce r) k c = None \<or>
      (\<exists>j. find_prior (instr_reg_will_produce r) k c = Some j \<and> cb_pos (ROB c) k \<in> set (deps (cb_list (ROB c) ! j)))"
    and k: "k \<le> length (cb_list (ROB c))"
  shows "raw_at (cb_pos (ROB c)) (cb_list (ROB c)) k r"
  unfolding raw_at_def
proof (intro allI impI)
  fix j
  assume y: "youngest_writer (cb_list (ROB c)) k r j"
  have "cb_pos (ROB c) k \<in> set (deps (cb_list (ROB c) ! j))" if "i_executed (cb_list (ROB c) ! j) \<noteq> COMPLETED"
  proof -
    from that
    have w: "instr_reg_will_produce r (cb_list (ROB c) ! j)" "j < k"
      using y by (simp_all add: instr_reg_will_produce_def youngest_writer_def)
    then obtain m where m: "find_prior (instr_reg_will_produce r) k c = Some m" "cb_pos (ROB c) k \<in> set (deps (cb_list (ROB c) ! m))"
      using f find_prior_None [of _ k c j] k by blast
    note s = find_prior_Some [OF m(1) k]
    have "\<not> j < m" using s(1,2) y by (auto simp: youngest_writer_def instr_reg_will_produce_def)
    moreover have "\<not> m < j" using s(3) w by blast
    ultimately show "cb_pos (ROB c) k \<in> set (deps (cb_list (ROB c) ! j))" using m(2) by (simp add: linorder_neq_iff)
  qed
  then show "i_executed (cb_list (ROB c) ! j) = COMPLETED \<or> cb_pos (ROB c) k \<in> set (deps (cb_list (ROB c) ! j))"
    by blast
qed

lemma deps_grow_marked:
  assumes wf: "cb_wf (ROB c)" and k: "k < length (cb_list (ROB c))" "j < k"
  shows "deps_grow c (upd_rob (cb_pos (ROB c) k) (\<lambda>i. i\<lparr>i_num_reg_dependent := i_num_reg_dependent i + 1\<rparr>)
      (upd_rob (cb_pos (ROB c) j) (\<lambda>i. i\<lparr>i_registers_instrs_depend_on_me := deps (cb_list (ROB c) ! j) @ [p]\<rparr>) c))"
    (is "deps_grow c ?d")
    and "cb_list (ROB (upd_rob (cb_pos (ROB c) k) (\<lambda>i. i\<lparr>i_num_reg_dependent := i_num_reg_dependent i + 1\<rparr>)
      (upd_rob (cb_pos (ROB c) j) (\<lambda>i. i\<lparr>i_registers_instrs_depend_on_me := deps (cb_list (ROB c) ! j) @ [p]\<rparr>) c)))
     = (cb_list (ROB c))[j := (cb_list (ROB c) ! j)\<lparr>i_registers_instrs_depend_on_me := deps (cb_list (ROB c) ! j) @ [p]\<rparr>,
         k := (cb_list (ROB c) ! k)\<lparr>i_num_reg_dependent := i_num_reg_dependent (cb_list (ROB c) ! k) + 1\<rparr>]"
      (is ?list)
proof -
  define c1 where "c1 = upd_rob (cb_pos (ROB c) j) (\<lambda>i. i\<lparr>i_registers_instrs_depend_on_me := deps (cb_list (ROB c) ! j) @ [p]\<rparr>) c"
  have j: "j < length (cb_list (ROB c))" using k by simp
  have c1: "cb_list (ROB c1) = (cb_list (ROB c))[j := (cb_list (ROB c) ! j)\<lparr>i_registers_instrs_depend_on_me := deps (cb_list (ROB c) ! j) @ [p]\<rparr>]"
    "cb_wf (ROB c1)" "cb_pos (ROB c1) = cb_pos (ROB c)"
    using upd_rob_list [OF wf j] wf by (simp_all add: c1_def)
  show l: ?list using upd_rob_list [OF c1(2), of k] c1 k by (simp add: c1_def [symmetric])
  have "moves c c1" "moves c1 ?d" by (simp_all add: c1_def [symmetric] moves_upd_rob) (simp add: c1_def moves_upd_rob)
  then show "deps_grow c ?d" unfolding deps_grow_def l using k j moves_trans [of c c1 ?d]
    by (auto simp: nth_list_update same_regs_def)
qed

lemma mark_dependency_ok:
  assumes s: "scheduling_core k c"
  shows "scheduling_core k (mark_dependency k r c)" "deps_grow c (mark_dependency k r c)"
    "r \<noteq> 0 \<Longrightarrow> raw_at (cb_pos (ROB c)) (cb_list (ROB (mark_dependency k r c))) k r"
proof -
  let ?L = "cb_list (ROB c)" and ?P = "cb_pos (ROB c)" and ?m = "mark_dependency k r c"
  have wf: "cb_wf (ROB c)" and k: "k < length ?L" and sc: "scheduling ?P ?L (ready_to_execute c) k"
    using s by (simp_all add: scheduling_core_def)
  have kle: "k \<le> length ?L" using k by simp
  consider (none) "?m = c" "r = 0 \<or> find_prior (instr_reg_will_produce r) k c = None"
    | (some) j where "r \<noteq> 0" "find_prior (instr_reg_will_produce r) k c = Some j"
    by (cases "find_prior (instr_reg_will_produce r) k c"; cases "r = 0") (auto simp: mark_dependency_def)
  then have "scheduling_core k ?m \<and> deps_grow c ?m \<and> (r \<noteq> 0 \<longrightarrow> raw_at ?P (cb_list (ROB ?m)) k r)"
  proof cases
    case none
    then show ?thesis using s deps_grow_refl raw_at_marked [of r k c] kle by auto
  next
    case some
    note p = find_prior_Some [OF some(2) kle]
    have j: "j < length ?L" "cb_at (ROB c) (?P j) = ?L ! j" using p(1) k cb_at_pos [of j "ROB c"] by simp_all
    have e: "i_executed (?L ! j) \<noteq> COMPLETED" using p(2) by (simp add: instr_reg_will_produce_def)
    show ?thesis
    proof (cases "deps (?L ! j) = [] \<or> last (deps (?L ! j)) \<noteq> ?P k")
      case True
      let ?x = "(?L ! j)\<lparr>i_registers_instrs_depend_on_me := deps (?L ! j) @ [?P k]\<rparr>"
      let ?y = "(?L ! k)\<lparr>i_num_reg_dependent := i_num_reg_dependent (?L ! k) + 1\<rparr>"
      note g = deps_grow_marked [OF wf k p(1), of "?P k"]
      have m: "?m = upd_rob (?P k) (\<lambda>i. i\<lparr>i_num_reg_dependent := i_num_reg_dependent i + 1\<rparr>)
        (upd_rob (?P j) (\<lambda>i. i\<lparr>i_registers_instrs_depend_on_me := deps (?L ! j) @ [?P k]\<rparr>) c)"
        using some True by (auto simp: mark_dependency_def Let_def j)
      have l: "cb_list (ROB ?m) = ?L[j := ?x, k := ?y]" using g(2) by (simp add: m)
      have sm: "scheduling ?P (?L[j := ?x, k := ?y]) (ready_to_execute c) k"
        using scheduling_mark [OF sc rob_inj_list [OF wf] k p(1) e True] by (simp add: same_regs_def)
      have "scheduling_core k ?m" unfolding scheduling_core_def l using k wf sm by (simp add: m)
      moreover have "raw_at ?P (cb_list (ROB ?m)) k r"
        unfolding raw_at_def
      proof (intro allI impI)
        fix i
        assume y: "youngest_writer (cb_list (ROB ?m)) k r i"
        have "i_destination_registers (cb_list (ROB ?m) ! n) = i_destination_registers (?L ! n)" if "n < k" for n
          using g(1) k that by (simp add: m deps_grow_def same_regs_def)
        then have y': "youngest_writer ?L k r i" using y by (auto simp: youngest_writer_def)
        show "i_executed (cb_list (ROB ?m) ! i) = COMPLETED \<or> ?P k \<in> set (deps (cb_list (ROB ?m) ! i))"
        proof (cases "i = j")
          case True
          then show ?thesis using j p(1) by (simp add: l)
        next
          case False
          have "\<not> i < j" using y' p(1,2) by (auto simp: youngest_writer_def instr_reg_will_produce_def)
          then have "\<not> instr_reg_will_produce r (?L ! i)" using False p(3) [of i] y' by (simp add: youngest_writer_def)
          then have "i_executed (?L ! i) = COMPLETED" using y' by (simp add: youngest_writer_def instr_reg_will_produce_def)
          then show ?thesis using False y' by (simp add: l youngest_writer_def)
        qed
      qed
      moreover have "deps_grow c ?m" using g(1) by (simp add: m)
      ultimately show ?thesis by simp
    next
      case False
      then have "?m = c" using some by (simp add: mark_dependency_def Let_def j)
      moreover have "?P k \<in> set (deps (?L ! j))" using False last_in_set [of "deps (?L ! j)"] by simp
      ultimately show ?thesis using s deps_grow_refl raw_at_marked [of r k c] some(2) kle by auto
    qed
  qed
  then show "scheduling_core k ?m" "deps_grow c ?m" "r \<noteq> 0 \<Longrightarrow> raw_at ?P (cb_list (ROB ?m)) k r" by simp_all
qed

lemma mark_fold_ok:
  assumes "scheduling_core k c"
  shows "scheduling_core k (fold (mark_dependency k) rs c) \<and> deps_grow c (fold (mark_dependency k) rs c)
     \<and> (\<forall>r \<in> set rs. r \<noteq> 0 \<longrightarrow> raw_at (cb_pos (ROB c)) (cb_list (ROB (fold (mark_dependency k) rs c))) k r)"
  using assms
proof (induction rs arbitrary: c)
  case (Cons r rs)
  let ?d = "mark_dependency k r c"
  let ?e = "fold (mark_dependency k) rs ?d"
  note m = mark_dependency_ok [OF Cons.prems, where r = r]
  have ih: "scheduling_core k ?e" "deps_grow ?d ?e"
    "\<forall>r \<in> set rs. r \<noteq> 0 \<longrightarrow> raw_at (cb_pos (ROB ?d)) (cb_list (ROB ?e)) k r" using Cons.IH [OF m(1)] by simp_all
  have p: "cb_pos (ROB ?d) = cb_pos (ROB c)" "cb_pos (ROB ?e) = cb_pos (ROB c)" using m(2) ih(2) by (simp_all add: deps_grow_def)
  have "raw_at (cb_pos (ROB c)) (cb_list (ROB ?e)) k r" if "r \<noteq> 0"
    using raw_at_grow [OF ih(2)] m(1) m(3) [OF that] p by (simp add: scheduling_core_def)
  then show ?case using ih deps_grow_trans [OF m(2) ih(2)] p by simp
qed (simp add: deps_grow_refl)

lemma do_scheduling_ok:
  assumes inv: "core_inv c" and k: "k < length (cb_list (ROB c))" and z: "i_scheduled (cb_list (ROB c) ! k) = 0"
  shows "core_inv (do_scheduling E k c)" "length (cb_list (ROB (do_scheduling E k c))) = length (cb_list (ROB c))"
    "cb_pos (ROB (do_scheduling E k c)) = cb_pos (ROB c)"
    "cb_pos (ROB c) k \<notin> set (ready_to_execute (do_scheduling E k c))"
    "i_executed (cb_list (ROB (do_scheduling E k c)) ! k) = 0"
proof -
  note i = core_invD [OF inv]
  let ?L = "cb_list (ROB c)" and ?P = "cb_pos (ROB c)"
  have "scheduling_core k c"
    using scheduling_start [OF i(4) [unfolded deps_inv_def] rob_inj_list [OF i(5)] k z] i(5) k by (simp add: scheduling_core_def)
  note m = mark_fold_ok [OF this, where rs = "i_source_registers (?L ! k)"]
  define d where "d = fold (mark_dependency k) (i_source_registers (?L ! k)) c"
  have d: "scheduling_core k d" "deps_grow c d" "cb_wf (ROB d)" "k < length (cb_list (ROB d))"
    "scheduling (cb_pos (ROB d)) (cb_list (ROB d)) (ready_to_execute d) k" "cb_pos (ROB d) = ?P" "moves c d"
    "length (cb_list (ROB d)) = length ?L" "i_source_registers (cb_list (ROB d) ! k) = i_source_registers (?L ! k)"
    using m k by (auto simp: d_def [symmetric] scheduling_core_def deps_grow_def same_regs_def)
  have raw: "raw_at (cb_pos (ROB d)) (cb_list (ROB d)) k r" if "r \<in> set (i_source_registers (cb_list (ROB d) ! k))" "r \<noteq> 0" for r
    using m that by (simp add: d_def [symmetric] d)
  define f where "f = (\<lambda>i :: ooo_model_instr. if i_is_memory i then i\<lparr>i_scheduled := INFLIGHT\<rparr>
           else i\<lparr>i_scheduled := COMPLETED,
                  i_event_cycle := current_cycle d + (if warm E d then SCHEDULING_LATENCY (ocfg d) else 0)\<rparr>)"
  have s: "do_scheduling E k c = upd_rob (?P k) f d"
    unfolding do_scheduling_def Let_def cb_at_pos [OF k] d_def [symmetric] f_def ..
  note fin = scheduling_finish [OF d(5) rob_inj_list [OF d(3)] d(4) raw, of "f (cb_list (ROB d) ! k)"]
  have l: "cb_list (ROB (upd_rob (?P k) f d)) = (cb_list (ROB d))[k := f (cb_list (ROB d) ! k)]"
    using upd_rob_list [OF d(3,4)] by (simp add: d(6))
  have fin': "sched_inv (cb_pos (ROB d)) ((cb_list (ROB d))[k := f (cb_list (ROB d) ! k)]) (ready_to_execute d)"
    "?P k \<notin> set (ready_to_execute d)" "i_executed (cb_list (ROB d) ! k) = 0"
    using fin by (simp_all add: f_def same_regs_def d(6))
  have "moves d (upd_rob (?P k) f d)" by (rule moves_upd_rob) (simp add: f_def)
  then show "core_inv (do_scheduling E k c)"
    unfolding s using moves_core_inv [OF moves_trans [OF d(7)] inv] fin'(1) l by (simp add: deps_inv_def)
  show "length (cb_list (ROB (do_scheduling E k c))) = length ?L" "cb_pos (ROB (do_scheduling E k c)) = ?P"
    "?P k \<notin> set (ready_to_execute (do_scheduling E k c))" "i_executed (cb_list (ROB (do_scheduling E k c)) ! k) = 0"
    unfolding s using l fin'(2,3) d(4,6,8) by (simp_all add: f_def)
qed

lemma schedule_one_ok:
  assumes inv: "core_inv c" and k: "k < length (cb_list (ROB c))"
  shows "\<exists>d. schedule_one E k c = Inr d \<and> core_inv d \<and> length (cb_list (ROB d)) = length (cb_list (ROB c))"
proof (cases "i_scheduled (cb_list (ROB c) ! k) = 0")
  case True
  let ?d = "do_scheduling E k c"
  note d = do_scheduling_ok [OF inv k True, where E = E]
  have kd: "k < length (cb_list (ROB ?d))" using d(2) k by simp
  note at = cb_at_pos [OF k] cb_at_pos [OF kd, unfolded d(3)]
  note wf = core_invD(5) [OF d(1)] and di = core_invD(4) [OF d(1)]
  show ?thesis
  proof (cases "i_scheduled (cb_list (ROB ?d) ! k) = COMPLETED \<and> i_num_reg_dependent (cb_list (ROB ?d) ! k) = 0")
    case push: True
    let ?e = "?d\<lparr>ready_to_execute := ready_to_execute ?d @ [cb_pos (ROB c) k]\<rparr>"
    have p: "push_ready (cb_pos (ROB c) k) ?d = Inr ?e" "deps_inv ?e"
      using push_ready_ok [OF wf di kd] d(3-5) push by simp_all
    have "core_inv ?e" by (rule moves_core_inv [OF _ d(1) p(2)]) (simp add: moves_def)
    then show ?thesis using p(1) push True d(2) by (simp add: schedule_one_def at Let_def)
  next
    case False
    then show ?thesis using True d by (auto simp: schedule_one_def at Let_def)
  qed
next
  case False
  then show ?thesis using assms by (simp add: schedule_one_def cb_at_pos)
qed

lemma schedule_loop_ok:
  "core_inv c \<Longrightarrow> list_all (\<lambda>k. k < length (cb_list (ROB c))) ks \<Longrightarrow> \<exists>d. schedule_loop E ks bw c = Inr d \<and> core_inv d"
proof (induction ks arbitrary: bw c)
  case (Cons k ks)
  then obtain d where d: "schedule_one E k c = Inr d" "core_inv d" "length (cb_list (ROB d)) = length (cb_list (ROB c))"
    using schedule_one_ok [OF Cons.prems(1), of k E] by auto
  then show ?case using Cons.IH [OF d(2)] Cons.prems by (simp add: errs)
qed simp

lemma schedule_instruction_ok: "core_inv c \<Longrightarrow> \<exists>d. schedule_instruction E c = Inr d \<and> core_inv d"
  unfolding schedule_instruction_def by (rule schedule_loop_ok) (simp_all add: list_all_iff)

section \<open>Loads and stores\<close>

lemma keeps_entry:
  assumes "keeps c d" "cb_wf (ROB c)" "k < length (cb_list (ROB c))"
  shows "k < length (cb_list (ROB d))" "rview (cb_list (ROB d) ! k) = rview (cb_list (ROB c) ! k)"
proof -
  note sb = same_bufD [OF _ assms(2), of rview "ROB d"]
  have m: "map rview (cb_list (ROB d)) = map rview (cb_list (ROB c))" using assms(1) sb(4) by (simp add: keeps_def)
  show k: "k < length (cb_list (ROB d))" using map_eq_imp_length_eq [OF m] assms(3) by simp
  have "map rview (cb_list (ROB d)) ! k = map rview (cb_list (ROB c)) ! k" using m by simp
  then show "rview (cb_list (ROB d) ! k) = rview (cb_list (ROB c) ! k)" using k assms(3) by simp
qed

lemma core_inv_do_memory_scheduling:
  assumes inv: "core_inv c" and k: "k < length (cb_list (ROB c))"
    and f: "i_scheduled (cb_list (ROB c) ! k) = INFLIGHT" "i_num_reg_dependent (cb_list (ROB c) ! k) = 0"
    and ok: "do_memory_scheduling k c = Inr d"
  shows "core_inv d" "length (cb_list (ROB d)) = length (cb_list (ROB c))"
proof -
  from ok obtain s u n m where s: "foldE (schedule_load k) [0..<NUM_INSTR_SOURCES] ((0, 0), c) = Inr s"
    "foldE (schedule_store k) [0..<MAX_INSTR_DESTINATIONS] s = Inr ((n, m), u)"
    and d: "d = u \<or> d = upd_rob (cb_pos (ROB u) k)
                 (\<lambda>i. i\<lparr>i_scheduled := COMPLETED, i_executed := (if i_executed i = 0 then INFLIGHT else i_executed i)\<rparr>) u"
    by (auto simp: do_memory_scheduling_def errs split: prod.splits if_splits simp del: upt_rec_numeral upt_Suc foldE.simps)
  have ku: "keeps c u" using keeps_schedule_load [OF s(1)] keeps_schedule_store [OF s(2)] keeps_trans by fastforce
  have iu: "core_inv u" by (rule keeps_core_inv [OF ku inv])
  note i = core_invD [OF iu]
  note e = keeps_entry [OF ku core_invD(5) [OF inv] k]
  have l: "length (cb_list (ROB u)) = length (cb_list (ROB c))"
    using ku same_bufD(3) [OF _ core_invD(5) [OF inv], of rview "ROB u"] by (simp add: keeps_def)
  let ?x = "(cb_list (ROB u) ! k)\<lparr>i_scheduled := COMPLETED,
      i_executed := (if i_executed (cb_list (ROB u) ! k) = 0 then INFLIGHT else i_executed (cb_list (ROB u) ! k))\<rparr>"
  have fu: "i_scheduled (cb_list (ROB u) ! k) = INFLIGHT" "i_num_reg_dependent (cb_list (ROB u) ! k) = 0"
    using f rviewD(2,4) [OF e(2)] by simp_all
  have sx: "sched_inv (cb_pos (ROB u)) ((cb_list (ROB u))[k := ?x]) (ready_to_execute u)"
    by (rule sched_inv_memory [OF i(4) [unfolded deps_inv_def] rob_inj_list [OF i(5)] e(1) fu]) (simp_all add: same_regs_def)
  let ?d = "upd_rob (cb_pos (ROB u) k)
                 (\<lambda>i. i\<lparr>i_scheduled := COMPLETED, i_executed := (if i_executed i = 0 then INFLIGHT else i_executed i)\<rparr>) u"
  have "core_inv ?d"
    by (rule moves_core_inv [OF moves_upd_rob iu]) (simp, simp only: deps_inv_def upd_rob_list [OF i(5) e(1)] upd_rob_sel sx)
  then show "core_inv d" using d iu by blast
  show "length (cb_list (ROB d)) = length (cb_list (ROB c))" using d l by auto
qed

lemma core_inv_schedule_memory_loop:
  "core_inv c \<Longrightarrow> list_all (\<lambda>k. k < length (cb_list (ROB c))) ks \<Longrightarrow> schedule_memory_loop ks bw c = Inr d \<Longrightarrow> core_inv d"
proof (induction ks arbitrary: bw c)
  case (Cons k ks)
  have k: "k < length (cb_list (ROB c))" using Cons.prems(2) by simp
  let ?i = "cb_list (ROB c) ! k"
  show ?case
  proof (cases "bw \<noteq> 0 \<and> i_is_memory ?i \<and> i_num_reg_dependent ?i = 0 \<and> i_scheduled ?i = INFLIGHT")
    case True
    with Cons.prems(3) obtain u bw' where u: "do_memory_scheduling k c = Inr u" "schedule_memory_loop ks bw' u = Inr d"
      by (auto simp: cb_at_pos [OF k] errs simp del: length_cb_list)
    have "core_inv u" "length (cb_list (ROB u)) = length (cb_list (ROB c))"
      using core_inv_do_memory_scheduling [OF Cons.prems(1) k _ _ u(1)] True by simp_all
    then show ?thesis using Cons.IH [OF _ _ u(2)] Cons.prems(2) by simp
  next
    case False
    then show ?thesis using Cons.IH [OF Cons.prems(1)] Cons.prems
      by (auto simp: cb_at_pos [OF k] errs simp del: length_cb_list split: if_splits)
  qed
qed simp

lemma core_inv_schedule_memory: "core_inv c \<Longrightarrow> schedule_memory_instruction c = Inr d \<Longrightarrow> core_inv d"
  unfolding schedule_memory_instruction_def by (rule core_inv_schedule_memory_loop) (simp_all add: list_all_iff)

section \<open>One cycle\<close>

lemma core_inv_shift:
  assumes "core_inv c"
  shows "core_inv (c\<lparr>DISPATCH_BUFFER := dq_operate (DISPATCH_BUFFER c), DECODE_BUFFER := dq_operate (DECODE_BUFFER c)\<rparr>)"
proof -
  note i = core_invD [OF assms]
  have w: "dq_wf (DISPATCH_BUFFER c)" "dq_wf (DECODE_BUFFER c)" using i(7,8) by (simp_all add: dq_good_def)
  show ?thesis using i(1-4) dq_operate_ok(2) [OF w(1)] dq_operate_ok(2) [OF w(2)] dq_good_operate [OF w(1)] dq_good_operate [OF w(2)]
    by (simp add: core_inv_def bufs_ok_def ordered_def pipeline_def waiting_fresh_def deps_inv_def)
qed

lemma core_inv_dispatch: "core_inv c \<Longrightarrow> dispatch_instruction c = Inr d \<Longrightarrow> core_inv d"
  using dispatch_instruction_cases [of c] by auto

lemma core_inv_decode: "core_inv c \<Longrightarrow> decode_instruction E c = Inr d \<Longrightarrow> core_inv d"
  using decode_instruction_cases [of c E] by auto

lemma core_inv_promote: "core_inv c \<Longrightarrow> promote_to_decode E c = Inr d \<Longrightarrow> core_inv d"
  using promote_to_decode_cases [of c E] by auto

lemma core_inv_complete: "core_inv c \<Longrightarrow> complete_inflight_instruction c = Inr d \<Longrightarrow> core_inv d"
  using complete_inflight_ok [of c] by auto

lemma core_inv_schedule: "core_inv c \<Longrightarrow> schedule_instruction E c = Inr d \<Longrightarrow> core_inv d"
  using schedule_instruction_ok [of c E] by auto

lemma core_inv_operate:
  assumes inv: "core_inv c" and ok: "core_operate E c = Inr d"
  shows "core_inv d"
proof -
  define c0 where "c0 = c\<lparr>instrs_to_read_this_cycle :=
            of_nat (min (FETCH_WIDTH (ocfg c)) (cb_sz (IFETCH_BUFFER c) - cb_occupancy (IFETCH_BUFFER c)))\<rparr>"
  from ok obtain c1 c2 c3 c4 c5 c6 c7 c8 c9 ca cb where s: "retire_rob E c0 = Inr c1" "complete_inflight_instruction c1 = Inr c2"
    "schedule_instruction E (execute_instruction E c2) = Inr c3" "handle_memory_return E c3 = Inr c4" "operate_lsq E c4 = Inr c5"
    "schedule_memory_instruction c5 = Inr c6" "dispatch_instruction c6 = Inr c7" "decode_instruction E c7 = Inr c8"
    "promote_to_decode E c8 = Inr c9" "fetch_instruction E c9 = Inr ca" "translate_fetch E ca = Inr cb"
    and d: "d = (check_dib cb)\<lparr>DISPATCH_BUFFER := dq_operate (DISPATCH_BUFFER (check_dib cb)),
                DECODE_BUFFER := dq_operate (DECODE_BUFFER (check_dib cb))\<rparr>"
    unfolding core_operate_def Let_def c0_def [symmetric] by (auto simp: errs)
  have i0: "core_inv c0" by (rule keeps_core_inv [OF _ inv]) (simp add: c0_def)
  have i3: "core_inv c3"
    by (rule core_inv_schedule [OF core_inv_execute [OF core_inv_complete [OF core_inv_retire_rob [OF i0 s(1)] s(2)]] s(3)])
  have i5: "core_inv c5" by (rule keeps_core_inv [OF keeps_operate_lsq [OF s(5)] keeps_core_inv [OF keeps_handle_memory_return [OF s(4)] i3]])
  have i9: "core_inv c9"
    by (rule core_inv_promote [OF core_inv_decode [OF core_inv_dispatch [OF core_inv_schedule_memory [OF i5 s(6)] s(7)] s(8)] s(9)])
  have "core_inv (check_dib cb)"
    by (rule keeps_core_inv [OF keeps_check_dib keeps_core_inv [OF keeps_translate_fetch [OF s(11)] keeps_core_inv [OF keeps_fetch_instruction [OF s(10)] i9]]])
  then show ?thesis unfolding d by (rule core_inv_shift)
qed

end
