(* ===== verification/TraceReader.thy ===== *)
theory TraceReader
  imports Instruction
begin

text \<open>
  Reading traces, \<open>src/tracereader.cc\<close>.  A trace file is the list of its bytes;
  \<open>fread\<close> of one structure takes its bytes off the front, and when fewer are
  left it takes what there is and reports failure.  Numbers are little-endian.
  The decompressing programs behind \<open>popen\<close> are not part of the sources; for
  those formats the model reads the decompressed bytes, and reopening a trace at
  its end starts again with the same bytes.
\<close>

section \<open>Bytes\<close>

definition fread :: "nat \<Rightarrow> u8 list \<Rightarrow> u8 list option \<times> u8 list" where
  "fread n file = (if length file < n then (None, []) else (Some (take n file), drop n file))"

fun le_value :: "u8 list \<Rightarrow> nat" where
  "le_value [] = 0"
| "le_value (b # bs) = unat b + 256 * le_value bs"

definition u64_at :: "nat \<Rightarrow> u8 list \<Rightarrow> u64" where
  "u64_at off bs = of_nat (le_value (slice off 8 bs))"

definition u32_at :: "nat \<Rightarrow> u8 list \<Rightarrow> u32" where
  "u32_at off bs = of_nat (le_value (slice off 4 bs))"

abbreviation (input) EVENT_ID_INSN :: u64 where "EVENT_ID_INSN \<equiv> 63"
abbreviation (input) EVENT_ID_DATA :: u64 where "EVENT_ID_DATA \<equiv> 64"
abbreviation (input) EVENT_ID_NOP :: u64 where "EVENT_ID_NOP \<equiv> 65"

definition event_header_of :: "u8 list \<Rightarrow> QEMU_event_header" where
  "event_header_of bs =
     \<lparr>eh_type = u64_at 0 bs, eh_event = u64_at 8 bs, eh_timestamp_ns = u64_at 16 bs,
      eh_length = u32_at 24 bs, eh_pid = u32_at 28 bs\<rparr>"

definition trace_insn_of :: "u8 list \<Rightarrow> QEMU_trace_insn" where
  "trace_insn_of bs =
     \<lparr>ti_icount = u64_at 0 bs, ti_vaddr = u64_at 8 bs, ti_paddr = u64_at 16 bs, ti_seg_states = u64_at 24 bs,
      ti_cr3 = u64_at 32 bs, ti_br_type = u64_at 40 bs, ti_target_vaddr = u64_at 48 bs\<rparr>"

definition trace_data_of :: "u8 list \<Rightarrow> QEMU_trace_data" where
  "trace_data_of bs =
     \<lparr>td_icount = u64_at 0 bs, td_vaddr = u64_at 8 bs, td_paddr = u64_at 16 bs, td_load_store = u64_at 24 bs,
      td_length = u64_at 32 bs, td_seg_states = u64_at 40 bs, td_cr3 = u64_at 48 bs\<rparr>"

definition trace_nop_of :: "u8 list \<Rightarrow> QEMU_trace_nop" where
  "trace_nop_of bs = \<lparr>tn_byte0 = u64_at 0 bs, tn_byte1 = u64_at 8 bs, tn_byte2 = u64_at 16 bs\<rparr>"

text \<open>A read that ends the program with \<open>exit(1)\<close> when the file is exhausted.\<close>

definition fread_or_exit :: "nat \<Rightarrow> (u8 list \<Rightarrow> 'a) \<Rightarrow> u8 list \<Rightarrow> ('a \<times> u8 list) result" where
  "fread_or_exit n f file = (case fread n file of (None, _) \<Rightarrow> Inl EndOfTrace | (Some bs, rest) \<Rightarrow> Inr (f bs, rest))"

section \<open>QEMU traces\<close>

text \<open>
  Opening a QEMU trace skips the file header and the event mappings and
  consumes the begin marker and the header of the first instruction.  The
  results of these reads are not checked; a failed one leaves the variable
  with the value \<open>junk\<close> it had.
\<close>

definition qemu_open :: "QEMU_event_header \<Rightarrow> QEMU_trace_nop \<Rightarrow> u8 list \<Rightarrow> u8 list result" where
  "qemu_open junk_header junk_nop file =
     (let (_, f) = fread 24 file; (_, f) = fread 134081 f;
          (h, f) = fread 32 f; header = (case h of None \<Rightarrow> junk_header | Some bs \<Rightarrow> event_header_of bs);
          (m, f) = fread 24 f; nop = (case m of None \<Rightarrow> junk_nop | Some bs \<Rightarrow> trace_nop_of bs)
      in bindE (assertE ''begin marker'' (eh_event header = EVENT_ID_NOP \<and> tn_byte0 nop = 0xbe)) (\<lambda>_.
         let (h, f) = fread 32 f; header = (case h of None \<Rightarrow> header | Some bs \<Rightarrow> event_header_of bs)
         in bindE (assertE ''event_header.event == EVENT_ID_INSN'' (eh_event header = EVENT_ID_INSN)) (\<lambda>_. Inr f)))"

text \<open>
  The loop that reads on to the next instruction header, dropping further data
  records and markers of the current instruction.  Every round consumes a
  header, so the length of the file bounds it.
\<close>

function read_until_insn :: "u8 list \<Rightarrow> u8 list result" where
  "read_until_insn file =
     (if length file < 32 then Inl EndOfTrace
      else
        let header = event_header_of (take 32 file); f = drop 32 file in
        if eh_event header = EVENT_ID_INSN then Inr f
        else if eh_event header = EVENT_ID_DATA then
          if length f < 56 then Inl EndOfTrace else read_until_insn (drop 56 f)
        else if eh_event header = EVENT_ID_NOP then
          if length f < 24 then Inl EndOfTrace else read_until_insn (drop 24 f)
        else Inl (AssertFailed ''0''))"
  by auto
termination by (relation "measure length") auto

declare read_until_insn.simps [simp del]

definition read_single_instr_qemutrace :: "u8 list \<Rightarrow> (ooo_model_instr \<times> u8 list) result" where
  "read_single_instr_qemutrace file =
     bindE (fread_or_exit 56 trace_insn_of file) (\<lambda>(trace_read_instr, f).
     bindE (fread_or_exit 32 event_header_of f) (\<lambda>(header, f).
     if eh_event header = EVENT_ID_DATA then
       bindE (fread_or_exit 56 trace_data_of f) (\<lambda>(trace_data, f).
       bindE (read_until_insn f) (\<lambda>f. Inr (instr_of_qemu_data trace_read_instr trace_data, f)))
     else if eh_event header = EVENT_ID_NOP then
       bindE (fread_or_exit 24 trace_nop_of f) (\<lambda>(_, f).
       bindE (fread_or_exit 32 event_header_of f) (\<lambda>(header, f).
       bindE (assertE ''header.event == EVENT_ID_INSN'' (eh_event header = EVENT_ID_INSN)) (\<lambda>_.
       Inr (instr_of_qemu trace_read_instr, f))))
     else
       bindE (assertE ''header.event == EVENT_ID_INSN'' (eh_event header = EVENT_ID_INSN)) (\<lambda>_.
       Inr (instr_of_qemu trace_read_instr, f))))"

text \<open>
  The translation of the QEMU kinds of branches (\<open>QemuOpType\<close>, 0 to 7) in
  \<open>qemu_tracereader::get\<close>; \<open>next_ip\<close> is the address of the instruction that
  follows in the trace.
\<close>

definition set_dst :: "u8 list \<Rightarrow> ooo_model_instr \<Rightarrow> ooo_model_instr" where
  "set_dst rs i = i\<lparr>i_destination_registers := copy_to rs (i_destination_registers i)\<rparr>"

definition set_src :: "u8 list \<Rightarrow> ooo_model_instr \<Rightarrow> ooo_model_instr" where
  "set_src rs i = i\<lparr>i_source_registers := copy_to rs (i_source_registers i)\<rparr>"

definition resolve_branch :: "u64 \<Rightarrow> ooo_model_instr \<Rightarrow> ooo_model_instr" where
  "resolve_branch next_ip i =
     (let t = i_branch_type i;
          branch = (\<lambda>taken ty. i\<lparr>i_is_branch := True, i_branch_taken := taken, i_branch_type := ty\<rparr>)
      in if t = 1 then set_dst [REG_INSTRUCTION_POINTER] (set_src [REG_INSTRUCTION_POINTER, REG_FLAGS]
                         (branch (i_branch_target i = next_ip) BRANCH_CONDITIONAL))
         else if t = 2 then set_dst [REG_INSTRUCTION_POINTER] (branch True BRANCH_DIRECT_JUMP)
         else if t = 3 then set_dst [REG_INSTRUCTION_POINTER] (set_src [50] (branch True BRANCH_INDIRECT))
         else if t = 4 then set_dst [REG_INSTRUCTION_POINTER, REG_STACK_POINTER]
                         (set_src [REG_INSTRUCTION_POINTER, REG_STACK_POINTER] (branch True BRANCH_DIRECT_CALL))
         else if t = 5 then set_dst [REG_INSTRUCTION_POINTER, REG_STACK_POINTER]
                         (set_src [REG_INSTRUCTION_POINTER, REG_STACK_POINTER, 50] (branch True BRANCH_INDIRECT_CALL))
         else if t = 6 then set_dst [REG_INSTRUCTION_POINTER, REG_STACK_POINTER]
                         (set_src [REG_STACK_POINTER] (branch True BRANCH_RETURN))
         else if t = 7 then set_dst [REG_INSTRUCTION_POINTER] (branch (i_branch_target i = next_ip) BRANCH_OTHER)
         else i\<lparr>i_is_branch := False, i_branch_taken := False, i_branch_type := NOT_BRANCH, i_branch_target := 0\<rparr>)"

record qemu_tracereader =
  qt_file :: "u8 list"
  qt_last_instr :: "ooo_model_instr option"

text \<open>\<open>qt_last_instr\<close> is \<open>None\<close> as long as \<open>initialized\<close> is false.\<close>

definition qemu_get :: "qemu_tracereader \<Rightarrow> (ooo_model_instr \<times> qemu_tracereader) result" where
  "qemu_get r =
     bindE (read_single_instr_qemutrace (qt_file r)) (\<lambda>(instr, f).
     bindE (case qt_last_instr r of
              Some prev \<Rightarrow> Inr (prev, instr, f)
            | None \<Rightarrow> bindE (read_single_instr_qemutrace f) (\<lambda>(second, f). Inr (instr, second, f)))
       (\<lambda>(last_instr, instr, f).
          Inr (resolve_branch (i_ip instr) last_instr, r\<lparr>qt_file := f, qt_last_instr := Some instr\<rparr>)))"

section \<open>Traces of input and CloudSuite instructions\<close>

text \<open>
  \<open>read_single_instr\<close> reopens the file at its end; a file with no complete
  record makes it loop for ever, which is the value \<open>None\<close>.  The record is
  read by \<open>decode\<close> from \<open>rec_size\<close> bytes.
\<close>

definition read_single_instr ::
  "nat \<Rightarrow> (u8 list \<Rightarrow> ooo_model_instr) \<Rightarrow> u8 list \<Rightarrow> u8 list \<Rightarrow> (ooo_model_instr \<times> u8 list) option" where
  "read_single_instr rec_size decode whole file =
     (case fread rec_size file of
        (Some bs, rest) \<Rightarrow> Some (decode bs, rest)
      | (None, _) \<Rightarrow>
          (case fread rec_size whole of (Some bs, rest) \<Rightarrow> Some (decode bs, rest) | (None, _) \<Rightarrow> None))"

definition input_instr_of :: "u8 list \<Rightarrow> input_instr" where
  "input_instr_of bs =
     \<lparr>in_ip = u64_at 0 bs, in_is_branch = bs ! 8, in_branch_taken = bs ! 9,
      in_destination_registers = slice 10 2 bs, in_source_registers = slice 12 4 bs,
      in_destination_memory = [u64_at 16 bs, u64_at 24 bs],
      in_source_memory = [u64_at 32 bs, u64_at 40 bs, u64_at 48 bs, u64_at 56 bs]\<rparr>"

definition cloudsuite_instr_of :: "u8 list \<Rightarrow> cloudsuite_instr" where
  "cloudsuite_instr_of bs =
     \<lparr>in_ip = u64_at 0 bs, in_is_branch = bs ! 8, in_branch_taken = bs ! 9,
      in_destination_registers = slice 10 2 bs, in_source_registers = slice 12 4 bs,
      in_destination_memory = [u64_at 16 bs, u64_at 24 bs],
      in_source_memory = [u64_at 32 bs, u64_at 40 bs, u64_at 48 bs, u64_at 56 bs],
      in_asid = (bs ! 64, bs ! 65)\<rparr>"

record tracereader =
  tr_file :: "u8 list"
  tr_last_instr :: "ooo_model_instr option"

text \<open>\<open>get\<close> of the input and of the CloudSuite reader, which differ in the record they read.\<close>

definition tracereader_get ::
  "nat \<Rightarrow> (u8 list \<Rightarrow> ooo_model_instr) \<Rightarrow> u8 list \<Rightarrow> tracereader \<Rightarrow> (ooo_model_instr \<times> tracereader) option" where
  "tracereader_get rec_size decode whole r =
     (case read_single_instr rec_size decode whole (tr_file r) of
        None \<Rightarrow> None
      | Some (instr, f) \<Rightarrow>
          let prev = (case tr_last_instr r of Some prev \<Rightarrow> prev | None \<Rightarrow> instr)
          in Some (prev\<lparr>i_branch_target := i_ip instr\<rparr>, \<lparr>tr_file = f, tr_last_instr = Some instr\<rparr>))"

definition input_get :: "u8 \<Rightarrow> u8 list \<Rightarrow> tracereader \<Rightarrow> (ooo_model_instr \<times> tracereader) option" where
  "input_get cpu = tracereader_get 64 (\<lambda>bs. instr_of_input cpu (input_instr_of bs))"

text \<open>66 bytes of members, padded to 72 for the alignment of the first one.\<close>

definition cloudsuite_get :: "u8 \<Rightarrow> u8 list \<Rightarrow> tracereader \<Rightarrow> (ooo_model_instr \<times> tracereader) option" where
  "cloudsuite_get cpu = tracereader_get 72 (\<lambda>bs. instr_of_cloudsuite cpu (cloudsuite_instr_of bs))"

section \<open>Writing traces\<close>

text \<open>
  The format the reader expects, as an encoder: numbers in little-endian bytes,
  a header before every event.
\<close>

fun le_bytes :: "nat \<Rightarrow> nat \<Rightarrow> u8 list" where
  "le_bytes 0 v = []"
| "le_bytes (Suc n) v = of_nat v # le_bytes n (v div 256)"

definition enc64 :: "u64 list \<Rightarrow> u8 list" where
  "enc64 vs = concat (map (\<lambda>v. le_bytes 8 (unat v)) vs)"

definition enc_header :: "QEMU_event_header \<Rightarrow> u8 list" where
  "enc_header h = enc64 [eh_type h, eh_event h, eh_timestamp_ns h] @ le_bytes 4 (unat (eh_length h)) @ le_bytes 4 (unat (eh_pid h))"

definition enc_insn :: "QEMU_trace_insn \<Rightarrow> u8 list" where
  "enc_insn i = enc64 [ti_icount i, ti_vaddr i, ti_paddr i, ti_seg_states i, ti_cr3 i, ti_br_type i, ti_target_vaddr i]"

definition enc_data :: "QEMU_trace_data \<Rightarrow> u8 list" where
  "enc_data d = enc64 [td_icount d, td_vaddr d, td_paddr d, td_load_store d, td_length d, td_seg_states d, td_cr3 d]"

definition enc_nop :: "QEMU_trace_nop \<Rightarrow> u8 list" where
  "enc_nop n = enc64 [tn_byte0 n, tn_byte1 n, tn_byte2 n]"

lemma length_le_bytes [simp]: "length (le_bytes n v) = n"
  by (induction n arbitrary: v) auto

lemma le_value_bytes: "le_value (le_bytes n v) = v mod 256 ^ n"
proof (induction n arbitrary: v)
  case (Suc n)
  have "unat (of_nat v :: u8) = v mod 256" by (simp add: unat_of_nat)
  with Suc show ?case by (simp add: mod_mult2_eq add.commute)
qed simp

lemma length_enc64 [simp]: "length (enc64 vs) = 8 * length vs"
  by (induction vs) (auto simp: enc64_def)

lemma slice_enc64:
  "i < length vs \<Longrightarrow> slice (8 * i) 8 (enc64 vs @ rest) = le_bytes 8 (unat (vs ! i))"
proof (induction vs arbitrary: i)
  case (Cons v vs)
  have e: "enc64 (v # vs) @ rest = le_bytes 8 (unat v) @ (enc64 vs @ rest)" by (simp add: enc64_def)
  show ?case
  proof (cases i)
    case 0
    then show ?thesis unfolding e by (simp add: slice_def)
  next
    case (Suc j)
    have "slice (8 * Suc j) 8 (le_bytes 8 (unat v) @ (enc64 vs @ rest)) = slice (8 * j) 8 (enc64 vs @ rest)"
      by (simp add: slice_def)
    with Suc Cons show ?thesis unfolding e by simp
  qed
qed simp

lemma u64_at_enc64: "i < length vs \<Longrightarrow> u64_at (8 * i) (enc64 vs @ rest) = vs ! i"
proof -
  assume i: "i < length vs"
  have "unat (vs ! i) < 2 ^ LENGTH(64)" by (rule unsigned_less)
  then have "unat (vs ! i) < 256 ^ 8" by simp
  with i show ?thesis by (simp add: u64_at_def slice_enc64 le_value_bytes)
qed

lemmas u64_at_enc = u64_at_enc64 [of 0, simplified] u64_at_enc64 [of 1, simplified] u64_at_enc64 [of 2, simplified]
  u64_at_enc64 [of 3, simplified] u64_at_enc64 [of 4, simplified] u64_at_enc64 [of 5, simplified] u64_at_enc64 [of 6, simplified]

lemmas u64_at_enc_nil = u64_at_enc [of _ "[]", simplified]

lemma dec_insn [simp]: "trace_insn_of (enc_insn i) = i" "length (enc_insn i) = 56"
  by (simp_all add: trace_insn_of_def enc_insn_def u64_at_enc_nil)

lemma dec_data [simp]: "trace_data_of (enc_data d) = d" "length (enc_data d) = 56"
  by (simp_all add: trace_data_of_def enc_data_def u64_at_enc_nil)

lemma dec_nop [simp]: "trace_nop_of (enc_nop n) = n" "length (enc_nop n) = 24"
  by (simp_all add: trace_nop_of_def enc_nop_def u64_at_enc_nil)

lemma dec_header [simp]: "eh_event (event_header_of (enc_header h)) = eh_event h" "length (enc_header h) = 32"
  by (simp_all add: event_header_of_def enc_header_def u64_at_enc)

section \<open>Reading what was written\<close>

text \<open>
  The events of one instruction: the accesses and markers recorded after it.
  The reader accepts a single marker, or an access followed by any others.
\<close>

datatype trace_event = DataEvent QEMU_event_header QEMU_trace_data | NopEvent QEMU_event_header QEMU_trace_nop

fun enc_event :: "trace_event \<Rightarrow> u8 list" where
  "enc_event (DataEvent h d) = enc_header h @ enc_data d"
| "enc_event (NopEvent h n) = enc_header h @ enc_nop n"

fun event_ok :: "trace_event \<Rightarrow> bool" where
  "event_ok (DataEvent h d) \<longleftrightarrow> eh_event h = EVENT_ID_DATA"
| "event_ok (NopEvent h n) \<longleftrightarrow> eh_event h = EVENT_ID_NOP"

record trace_item =
  it_insn :: QEMU_trace_insn
  it_events :: "trace_event list"
  it_next :: QEMU_event_header

text \<open>An instruction, its events, and the header of the next instruction.\<close>

definition enc_item :: "trace_item \<Rightarrow> u8 list" where
  "enc_item it = enc_insn (it_insn it) @ concat (map enc_event (it_events it)) @ enc_header (it_next it)"

definition item_ok :: "trace_item \<Rightarrow> bool" where
  "item_ok it \<longleftrightarrow> eh_event (it_next it) = EVENT_ID_INSN \<and> (\<forall>e \<in> set (it_events it). event_ok e)
     \<and> (case it_events it of NopEvent _ _ # es \<Rightarrow> es = [] | _ \<Rightarrow> True)"

definition item_instr :: "trace_item \<Rightarrow> ooo_model_instr" where
  "item_instr it = (case it_events it of DataEvent _ d # _ \<Rightarrow> instr_of_qemu_data (it_insn it) d | _ \<Rightarrow> instr_of_qemu (it_insn it))"

lemma fread_enc: "length a = n \<Longrightarrow> fread n (a @ b) = (Some a, b)"
  by (simp add: fread_def)

lemma fread_or_exit_enc: "length a = n \<Longrightarrow> fread_or_exit n f (a @ b) = Inr (f a, b)"
  by (simp add: fread_or_exit_def fread_enc)

lemma read_until_insn_enc:
  assumes "\<forall>e \<in> set es. event_ok e" "eh_event h = EVENT_ID_INSN"
  shows "read_until_insn (concat (map enc_event es) @ enc_header h @ rest) = Inr rest"
  using assms
proof (induction es)
  case Nil
  then show ?case by (subst read_until_insn.simps) (simp add: Let_def)
next
  case (Cons e es)
  show ?case
  proof (cases e)
    case (DataEvent g d)
    have "concat (map enc_event (e # es)) @ enc_header h @ rest
        = enc_header g @ enc_data d @ (concat (map enc_event es) @ enc_header h @ rest)" by (simp add: DataEvent)
    with DataEvent Cons show ?thesis by (subst read_until_insn.simps) (simp add: Let_def)
  next
    case (NopEvent g n)
    have "concat (map enc_event (e # es)) @ enc_header h @ rest
        = enc_header g @ enc_nop n @ (concat (map enc_event es) @ enc_header h @ rest)" by (simp add: NopEvent)
    with NopEvent Cons show ?thesis by (subst read_until_insn.simps) (simp add: Let_def)
  qed
qed

lemma read_item:
  assumes "item_ok it"
  shows "read_single_instr_qemutrace (enc_item it @ rest) = Inr (item_instr it, rest)"
proof -
  have nx: "eh_event (it_next it) = EVENT_ID_INSN" using assms by (simp add: item_ok_def)
  have e: "enc_item it @ rest = enc_insn (it_insn it) @ (concat (map enc_event (it_events it)) @ enc_header (it_next it) @ rest)"
    by (simp add: enc_item_def)
  consider "it_events it = []"
    | h n where "it_events it = [NopEvent h n]" "eh_event h = EVENT_ID_NOP"
    | h d es where "it_events it = DataEvent h d # es" "eh_event h = EVENT_ID_DATA" "\<forall>e \<in> set es. event_ok e"
  proof (cases "it_events it")
    case (Cons e es)
    with assms that(2,3) show ?thesis by (cases e) (auto simp: item_ok_def)
  qed (use that in blast)
  then show ?thesis
  proof cases
    case 1
    then show ?thesis unfolding e using nx
      by (simp add: read_single_instr_qemutrace_def fread_or_exit_enc item_instr_def)
  next
    case (2 h n)
    then show ?thesis unfolding e using nx
      by (simp add: read_single_instr_qemutrace_def fread_or_exit_enc item_instr_def)
  next
    case (3 h d es)
    then show ?thesis unfolding e using read_until_insn_enc [OF 3(3) nx]
      by (simp add: read_single_instr_qemutrace_def fread_or_exit_enc item_instr_def)
  qed
qed

text \<open>What the reader returns for a sequence of items: all but the last, each resolved by its successor.\<close>

fun resolved :: "trace_item list \<Rightarrow> ooo_model_instr list" where
  "resolved (a # b # its) = resolve_branch (i_ip (item_instr b)) (item_instr a) # resolved (b # its)"
| "resolved _ = []"

fun get_n :: "nat \<Rightarrow> qemu_tracereader \<Rightarrow> (ooo_model_instr list \<times> qemu_tracereader) result" where
  "get_n 0 r = Inr ([], r)"
| "get_n (Suc n) r = bindE (qemu_get r) (\<lambda>(i, r). bindE (get_n n r) (\<lambda>(is, r). Inr (i # is, r)))"

lemma get_n_items:
  assumes "\<forall>it \<in> set its. item_ok it"
  shows "get_n (length its) \<lparr>qt_file = concat (map enc_item its) @ rest, qt_last_instr = Some (item_instr a)\<rparr>
    = Inr (resolved (a # its), \<lparr>qt_file = rest, qt_last_instr = Some (item_instr (last (a # its)))\<rparr>)"
  using assms
proof (induction its arbitrary: a)
  case (Cons b its)
  then show ?case by (simp add: qemu_get_def read_item)
qed simp

lemma instr_of_qemu_regs:
  "i_destination_registers (instr_of_qemu insn) = [0, 0]" "i_source_registers (instr_of_qemu insn) = [0, 0, 0, 0]"
  "i_branch_type (instr_of_qemu insn) = ucast (ti_br_type insn)" "i_branch_target (instr_of_qemu insn) = ti_target_vaddr insn"
  by (simp_all add: instr_of_qemu_def ooo_model_instr_new_def numeral_eq_Suc)

text \<open>The registers in which the reader encodes each kind of branch.\<close>

lemma resolve_branch_regs:
  assumes "i_destination_registers i = [0, 0]" "i_source_registers i = [0, 0, 0, 0]"
  shows "i_branch_type i = 1 \<Longrightarrow> resolve_branch n i = i\<lparr>i_is_branch := True, i_branch_taken := (i_branch_target i = n),
      i_branch_type := 3, i_destination_registers := [26, 0], i_source_registers := [26, 25, 0, 0]\<rparr>"
    "i_branch_type i = 2 \<Longrightarrow> resolve_branch n i = i\<lparr>i_is_branch := True, i_branch_taken := True,
      i_branch_type := 1, i_destination_registers := [26, 0]\<rparr>"
    "i_branch_type i = 3 \<Longrightarrow> resolve_branch n i = i\<lparr>i_is_branch := True, i_branch_taken := True,
      i_branch_type := 2, i_destination_registers := [26, 0], i_source_registers := [50, 0, 0, 0]\<rparr>"
    "i_branch_type i = 4 \<Longrightarrow> resolve_branch n i = i\<lparr>i_is_branch := True, i_branch_taken := True,
      i_branch_type := 4, i_destination_registers := [26, 6], i_source_registers := [26, 6, 0, 0]\<rparr>"
    "i_branch_type i = 5 \<Longrightarrow> resolve_branch n i = i\<lparr>i_is_branch := True, i_branch_taken := True,
      i_branch_type := 5, i_destination_registers := [26, 6], i_source_registers := [26, 6, 50, 0]\<rparr>"
    "i_branch_type i = 6 \<Longrightarrow> resolve_branch n i = i\<lparr>i_is_branch := True, i_branch_taken := True,
      i_branch_type := 6, i_destination_registers := [26, 6], i_source_registers := [6, 0, 0, 0]\<rparr>"
    "i_branch_type i = 7 \<Longrightarrow> resolve_branch n i = i\<lparr>i_is_branch := True, i_branch_taken := (i_branch_target i = n),
      i_branch_type := 7, i_destination_registers := [26, 0]\<rparr>"
    "i_branch_type i = 0 \<Longrightarrow> resolve_branch n i = i\<lparr>i_is_branch := False, i_branch_taken := False,
      i_branch_type := 0, i_branch_target := 0\<rparr>"
  using assms by (simp_all add: resolve_branch_def set_dst_def set_src_def copy_to_def Let_def)

lemma register_use_regs:
  "register_use i = (let dst = take 2 (i_destination_registers i); src = i_source_registers i in
     \<lparr>reads_sp = 6 \<in> set src, writes_sp = 6 \<in> set dst, reads_flags = 25 \<in> set src, reads_ip = 26 \<in> set src,
      writes_ip = 26 \<in> set dst, reads_other = list_ex (\<lambda>r. r \<notin> {0, 6, 25, 26}) src\<rparr>)"
  by (simp add: register_use_def)

section \<open>Properties\<close>

text \<open>Instructions and headers for examples.\<close>

definition ex_insn :: "u64 \<Rightarrow> u64 \<Rightarrow> u64 \<Rightarrow> QEMU_trace_insn" where
  "ex_insn ip bt target =
     \<lparr>ti_icount = 1, ti_vaddr = ip, ti_paddr = 0, ti_seg_states = 3, ti_cr3 = 0, ti_br_type = bt, ti_target_vaddr = target\<rparr>"

definition ex_item :: "u64 \<Rightarrow> u64 \<Rightarrow> u64 \<Rightarrow> trace_item" where
  "ex_item ip bt target =
     \<lparr>it_insn = ex_insn ip bt target, it_events = [],
      it_next = \<lparr>eh_type = 1, eh_event = EVENT_ID_INSN, eh_timestamp_ns = 0, eh_length = 80, eh_pid = 1\<rparr>\<rparr>"

text \<open>
  A QEMU trace is read back as it was written: from the bytes of \<open>n + 1\<close>
  instructions with their accesses and markers, the first \<open>n\<close> calls of
  \<open>get()\<close> return the first \<open>n\<close> instructions in order, each with its first access
  and with its branch resolved by the address of its successor, and after one
  more call the program exits at the end of the trace.
\<close>

theorem qemu_trace_is_read_back:
  assumes "\<forall>it \<in> set (a # b # its). item_ok it"
  shows "get_n (length (b # its)) \<lparr>qt_file = concat (map enc_item (a # b # its)), qt_last_instr = None\<rparr>
      = Inr (resolved (a # b # its), \<lparr>qt_file = [], qt_last_instr = Some (item_instr (last (b # its)))\<rparr>)
    \<and> qemu_get \<lparr>qt_file = [], qt_last_instr = Some (item_instr (last (b # its)))\<rparr> = Inl EndOfTrace"
proof
  have e: "concat (map enc_item (a # b # its)) = enc_item a @ enc_item b @ concat (map enc_item its)" by simp
  have "qemu_get \<lparr>qt_file = concat (map enc_item (a # b # its)), qt_last_instr = None\<rparr>
      = Inr (resolve_branch (i_ip (item_instr b)) (item_instr a),
             \<lparr>qt_file = concat (map enc_item its), qt_last_instr = Some (item_instr b)\<rparr>)"
    unfolding e using assms by (simp add: qemu_get_def read_item)
  with get_n_items [of its "[]" b] assms
  show "get_n (length (b # its)) \<lparr>qt_file = concat (map enc_item (a # b # its)), qt_last_instr = None\<rparr>
      = Inr (resolved (a # b # its), \<lparr>qt_file = [], qt_last_instr = Some (item_instr (last (b # its)))\<rparr>)"
    by simp
  show "qemu_get \<lparr>qt_file = [], qt_last_instr = Some (item_instr (last (b # its)))\<rparr> = Inl EndOfTrace"
    by (simp add: qemu_get_def read_single_instr_qemutrace_def fread_or_exit_def fread_def)
qed

theorem qemu_trace_is_read_back_witness:
  "\<exists>r. get_n 2 \<lparr>qt_file = concat (map enc_item [ex_item 4096 1 8192, ex_item 8192 2 64, ex_item 64 0 0]), qt_last_instr = None\<rparr>
     = Inr ([resolve_branch 8192 (instr_of_qemu (ex_insn 4096 1 8192)), resolve_branch 64 (instr_of_qemu (ex_insn 8192 2 64))], r)"
proof -
  have "\<forall>it \<in> set [ex_item 4096 1 8192, ex_item 8192 2 64, ex_item 64 0 0]. item_ok it"
    by (simp add: item_ok_def ex_item_def)
  from qemu_trace_is_read_back [OF this] show ?thesis
    by (simp add: ex_item_def item_instr_def ex_insn_def instr_of_qemu_def numeral_2_eq_2)
qed



end
