(* ===== verification/Simulation.thy ===== *)
theory Simulation
  imports CoreOrder TraceReader
begin

text \<open>
  One core in the loop of \<open>main\<close>: it operates, it reads from its trace while it
  may, packets return to its four buses, the other components change what lies
  below it, and the end of the warm-up resets its statistics.  Every order of
  these steps keeps the invariant of the core.
\<close>

section \<open>The loop of one core\<close>

text \<open>
  \<open>tracereader::get\<close>, a virtual method with three implementations.  A reader
  that never returns, on a file with no complete record, has an error value.
\<close>

datatype trace_source =
    Qemu_trace qemu_tracereader
  | Input_trace u8 "u8 list" tracereader
  | Cloudsuite_trace u8 "u8 list" tracereader

definition trace_get :: "trace_source \<Rightarrow> (ooo_model_instr \<times> trace_source) result" where
  "trace_get src =
     (case src of
        Qemu_trace r \<Rightarrow> bindE (qemu_get r) (\<lambda>(i, r). Inr (i, Qemu_trace r))
      | Input_trace cpu whole r \<Rightarrow>
          (case input_get cpu whole r of
             None \<Rightarrow> Inl (Undefined ''read_single_instr'') | Some (i, r) \<Rightarrow> Inr (i, Input_trace cpu whole r))
      | Cloudsuite_trace cpu whole r \<Rightarrow>
          (case cloudsuite_get cpu whole r of
             None \<Rightarrow> Inl (Undefined ''read_single_instr'') | Some (i, r) \<Rightarrow> Inr (i, Cloudsuite_trace cpu whole r)))"

text \<open>A trace that has just been opened (\<open>get_tracereader\<close>).\<close>

definition trace_opened :: "trace_source \<Rightarrow> bool" where
  "trace_opened src =
     (case src of Qemu_trace r \<Rightarrow> qt_last_instr r = None
      | Input_trace cpu whole r \<Rightarrow> tr_last_instr r = None | Cloudsuite_trace cpu whole r \<Rightarrow> tr_last_instr r = None)"

text \<open>What one instruction does to the count of instructions that may still be read.\<close>

lemma keeps_instrs_predict:
  assumes "predict E a c = (b, d)"
  shows "instrs_to_read_this_cycle d = instrs_to_read_this_cycle c \<or> instrs_to_read_this_cycle d = 0"
  using assms unfolding predict_def Let_def by (auto split: prod.splits if_splits)

lemma init_destination_instrs:
  "foldE init_destination xs (a, c) = Inr (b, d) \<Longrightarrow> instrs_to_read_this_cycle d = instrs_to_read_this_cycle c"
proof (induction xs arbitrary: a c)
  case (Cons x xs)
  from Cons.prems obtain a1 c1 where s: "init_destination x (a, c) = Inr (a1, c1)" "foldE init_destination xs (a1, c1) = Inr (b, d)"
    by (auto simp: errs)
  have "instrs_to_read_this_cycle c1 = instrs_to_read_this_cycle c"
    using s(1) by (auto simp: init_destination_def Let_def errs split: if_splits)
  then show ?case using Cons.IH [OF s(2)] by simp
qed simp

lemma init_instruction_instrs:
  assumes "init_instruction E i c = Inr d"
  shows "instrs_to_read_this_cycle d = instrs_to_read_this_cycle c - 1 \<or> instrs_to_read_this_cycle d = 0"
proof -
  from assms obtain b u a where
    f: "foldE init_destination [0..<MAX_INSTR_DESTINATIONS]
          (i\<lparr>i_instr_id := instr_unique_id c\<rparr>, c\<lparr>instrs_to_read_this_cycle := instrs_to_read_this_cycle c - 1\<rparr>) = Inr (b, u)"
    and e: "enter_ifetch E a (fold init_source [0..<NUM_INSTR_SOURCES] b) u = Inr d"
    by (auto simp: init_instruction_def Let_def errs simp del: foldE.simps upt_conv_Cons)
  have "instrs_to_read_this_cycle d = instrs_to_read_this_cycle u \<or> instrs_to_read_this_cycle d = 0"
    using e unfolding enter_ifetch_def Let_def
    by (auto simp: errs split: if_splits prod.splits dest!: keeps_instrs_predict)
  then show ?thesis using init_destination_instrs [OF f] by simp
qed

lemma init_instruction_decreases:
  assumes "init_instruction E i c = Inr d" "0 < instrs_to_read_this_cycle c"
  shows "unat (instrs_to_read_this_cycle d) < unat (instrs_to_read_this_cycle c)"
  using init_instruction_instrs [OF assms(1)] assms(2) by (auto simp: unat_minus_one unat_gt_0 word_neq_0_conv)

text \<open>The \<open>while\<close> loop that reads from the trace (lines 441 to 443 of \<open>main.cc\<close>).\<close>

function read_instrs ::
  "('b, 'w) core_env \<Rightarrow> ('b, 'w) O3_CPU \<Rightarrow> trace_source \<Rightarrow> (('b, 'w) O3_CPU \<times> trace_source) result" where
  "read_instrs E c src =
     (if \<not> fetch_stall c \<and> instrs_to_read_this_cycle c > 0 then
        case trace_get src of
          Inl e \<Rightarrow> Inl e
        | Inr (i, src) \<Rightarrow> (case init_instruction E i c of Inl e \<Rightarrow> Inl e | Inr c \<Rightarrow> read_instrs E c src)
      else Inr (c, src))"
  by pat_completeness auto
termination
  by (relation "measure (\<lambda>(E, c, src). unat (instrs_to_read_this_cycle c))") (auto intro: init_instruction_decreases)

declare read_instrs.simps [simp del]

text \<open>The statistics of the core that \<open>finish_warmup\<close> resets.\<close>

definition finish_warmup_core :: "('b, 'w) O3_CPU \<Rightarrow> ('b, 'w) O3_CPU" where
  "finish_warmup_core c =
     c\<lparr>num_branch := 0, branch_mispredictions := 0, total_rob_occupancy_at_branch_mispredict := 0,
       total_branch_types := replicate 8 0, branch_type_misses := replicate 8 0\<rparr>"

text \<open>
  The steps: \<open>_operate\<close> of the core with the increment of its cycle, reading the
  trace, a packet returned by one of the caches and translation buffers the core
  sends to, anything the other components do to the state below the core, and
  the end of the warm-up.  The environment may differ from step to step, as the
  flag \<open>warmup_complete\<close> does.
\<close>

inductive sim_step :: "('b, 'w) O3_CPU \<times> trace_source \<Rightarrow> ('b, 'w) O3_CPU \<times> trace_source \<Rightarrow> bool" where
  cycle: "core_operate E c = Inr d \<Longrightarrow> sim_step (c, src) (d\<lparr>current_cycle := current_cycle d + 1\<rparr>, src)"
| read: "read_instrs E c src = Inr (d, src') \<Longrightarrow> sim_step (c, src) (d, src')"
| itlb: "bus_return_data packet (ITLB_bus c) = Inr bus \<Longrightarrow> sim_step (c, src) (c\<lparr>ITLB_bus := bus\<rparr>, src)"
| dtlb: "bus_return_data packet (DTLB_bus c) = Inr bus \<Longrightarrow> sim_step (c, src) (c\<lparr>DTLB_bus := bus\<rparr>, src)"
| l1i: "bus_return_data packet (L1I_bus c) = Inr bus \<Longrightarrow> sim_step (c, src) (c\<lparr>L1I_bus := bus\<rparr>, src)"
| l1d: "bus_return_data packet (L1D_bus c) = Inr bus \<Longrightarrow> sim_step (c, src) (c\<lparr>L1D_bus := bus\<rparr>, src)"
| lower: "sim_step (c, src) (c\<lparr>o_lower := w\<rparr>, src)"
| warmed: "sim_step (c, src) (finish_warmup_core c, src)"

definition sim_start :: "('b, 'w) O3_CPU \<times> trace_source \<Rightarrow> bool" where
  "sim_start s \<longleftrightarrow> trace_opened (snd s) \<and>
     (\<exists>E cf sz cpu b w. 0 < dib_way cf \<and> 0 < dib_set cf \<and> fst s = O3_CPU_new E cf sz cpu b w)"

definition sim_reachable :: "('b, 'w) O3_CPU \<Rightarrow> bool" where
  "sim_reachable c \<longleftrightarrow> (\<exists>s src. sim_start s \<and> sim_step\<^sup>*\<^sup>* s (c, src))"

text \<open>
  The loop of \<open>main\<close> for a single core whose memory does nothing between its
  calls: in every iteration it operates, then it reads from its trace.
\<close>

fun sim_run :: "('b, 'w) core_env \<Rightarrow> nat \<Rightarrow> ('b, 'w) O3_CPU \<times> trace_source \<Rightarrow> (('b, 'w) O3_CPU \<times> trace_source) result" where
  "sim_run E 0 s = Inr s"
| "sim_run E (Suc n) s =
     bindE (core_operate E (fst s)) (\<lambda>c.
     bindE (read_instrs E (c\<lparr>current_cycle := current_cycle c + 1\<rparr>) (snd s)) (sim_run E n))"

lemma sim_run_steps: "sim_run E n s = Inr t \<Longrightarrow> sim_step\<^sup>*\<^sup>* s t"
proof (induction n arbitrary: s)
  case (Suc n)
  obtain c src where s: "s = (c, src)" by (cases s)
  from Suc.prems obtain d e where d: "core_operate E c = Inr d"
    "read_instrs E (d\<lparr>current_cycle := current_cycle d + 1\<rparr>) src = Inr e" "sim_run E n e = Inr t"
    by (auto simp: s errs)
  obtain f src' where e: "e = (f, src')" by (cases e)
  have "sim_step s (d\<lparr>current_cycle := current_cycle d + 1\<rparr>, src)" unfolding s by (rule sim_step.cycle [OF d(1)])
  moreover have "sim_step (d\<lparr>current_cycle := current_cycle d + 1\<rparr>, src) e" using d(2) unfolding e by (rule sim_step.read)
  ultimately show ?case using Suc.IH [OF d(3)] by (meson converse_rtranclp_into_rtranclp)
qed simp

section \<open>Instructions of a trace have no execution state\<close>

definition source_fresh :: "trace_source \<Rightarrow> bool" where
  "source_fresh src =
     (case src of Qemu_trace r \<Rightarrow> pred_option fresh (qt_last_instr r)
      | Input_trace cpu whole r \<Rightarrow> pred_option fresh (tr_last_instr r)
      | Cloudsuite_trace cpu whole r \<Rightarrow> pred_option fresh (tr_last_instr r))"

lemma fresh_instr:
  "fresh (instr_of_input cpu a)" "fresh (instr_of_cloudsuite cpu b)" "fresh (instr_of_qemu q)" "fresh (instr_of_qemu_data q d)"
  by (simp_all add: fresh_def instr_of_input_def instr_of_cloudsuite_def instr_of_qemu_def instr_of_qemu_data_def Let_def
      ooo_model_instr_new_def)

lemma fresh_read_qemu: "read_single_instr_qemutrace f = Inr (i, g) \<Longrightarrow> fresh i"
  by (auto simp: read_single_instr_qemutrace_def errs fresh_instr split: if_splits)

lemma fresh_resolve_branch: "fresh i \<Longrightarrow> fresh (resolve_branch ip i)"
  by (simp add: resolve_branch_def Let_def fresh_def set_dst_def set_src_def)

lemma fresh_qemu_get:
  assumes "qemu_get r = Inr (i, r')" "pred_option fresh (qt_last_instr r)"
  shows "fresh i" "pred_option fresh (qt_last_instr r')"
  using assms by (auto simp: qemu_get_def errs fresh_read_qemu fresh_resolve_branch split: option.splits)

lemma fresh_tracereader_get:
  assumes "tracereader_get n decode whole r = Some (i, r')" "\<And>bs. fresh (decode bs)" "pred_option fresh (tr_last_instr r)"
  shows "fresh i" "pred_option fresh (tr_last_instr r')"
proof -
  obtain a f where a: "read_single_instr n decode whole (tr_file r) = Some (a, f)"
    using assms(1) by (auto simp: tracereader_get_def split: option.splits)
  have "fresh a" using a assms(2) by (auto simp: read_single_instr_def split: prod.splits option.splits)
  then show "fresh i" "pred_option fresh (tr_last_instr r')"
    using assms(1,3) a by (auto simp: tracereader_get_def Let_def fresh_def split: option.splits)
qed

lemma fresh_trace_get:
  assumes "trace_get src = Inr (i, src')" "source_fresh src"
  shows "fresh i \<and> source_fresh src'"
  using assms fresh_qemu_get fresh_tracereader_get [OF _ fresh_instr(1)] fresh_tracereader_get [OF _ fresh_instr(2)]
  by (cases src) (auto simp: trace_get_def source_fresh_def errs input_get_def cloudsuite_get_def split: option.splits)

section \<open>The invariant holds in every reachable state\<close>

lemma core_inv_read_instrs:
  "core_inv c \<Longrightarrow> source_fresh src \<Longrightarrow> read_instrs E c src = Inr (d, src') \<Longrightarrow> core_inv d \<and> source_fresh src'"
proof (induction E c src rule: read_instrs.induct)
  case (1 E c src)
  show ?case
  proof (cases "\<not> fetch_stall c \<and> instrs_to_read_this_cycle c > 0")
    case True
    with "1.prems"(3) obtain i s u where g: "trace_get src = Inr (i, s)" "init_instruction E i c = Inr u"
      "read_instrs E u s = Inr (d, src')"
      by (subst (asm) read_instrs.simps) (auto split: sum.splits)
    have f: "fresh i" "source_fresh s" using fresh_trace_get [OF g(1) "1.prems"(2)] by simp_all
    show ?thesis by (rule "1.IH" [OF True g(1) refl g(2) core_inv_init_instruction [OF "1.prems"(1) f(1) g(2)] f(2) g(3)])
  next
    case False
    then have "read_instrs E c src = Inr (c, src)" by (subst read_instrs.simps) auto
    then show ?thesis using "1.prems" by simp
  qed
qed

lemma core_inv_outside:
  assumes "core_inv c"
  shows "core_inv (c\<lparr>ITLB_bus := b\<rparr>)" "core_inv (c\<lparr>DTLB_bus := b\<rparr>)" "core_inv (c\<lparr>L1I_bus := b\<rparr>)"
    "core_inv (c\<lparr>L1D_bus := b\<rparr>)" "core_inv (c\<lparr>o_lower := w\<rparr>)"
  by (rule keeps_core_inv [OF _ assms], simp)+

lemma core_inv_step:
  assumes "sim_step s t" "core_inv (fst s) \<and> source_fresh (snd s)"
  shows "core_inv (fst t) \<and> source_fresh (snd t)"
  using assms
proof cases
  case (cycle E c d src)
  then have "core_inv d" using core_inv_operate assms(2) by auto
  then have "core_inv (d\<lparr>current_cycle := current_cycle d + 1\<rparr>)" by (rule keeps_core_inv [rotated]) simp
  then show ?thesis using cycle assms(2) by simp
next
  case (read E c src d src')
  then show ?thesis using core_inv_read_instrs [of c src E d src'] assms(2) by simp
next
  case (warmed c src)
  then show ?thesis using assms(2) keeps_core_inv [of c "finish_warmup_core c"] by (simp add: finish_warmup_core_def)
qed (use assms(2) in \<open>simp_all add: core_inv_outside\<close>)

lemma core_inv_reachable:
  assumes "sim_reachable c"
  shows "core_inv c"
proof -
  obtain s src where s: "sim_start s" "sim_step\<^sup>*\<^sup>* s (c, src)" using assms by (auto simp: sim_reachable_def)
  have start: "core_inv (fst s) \<and> source_fresh (snd s)"
    using s(1) core_inv_new by (auto simp: sim_start_def trace_opened_def source_fresh_def split: trace_source.splits)
  from s(2) start have "core_inv (fst (c, src)) \<and> source_fresh (snd (c, src))"
    by (induction rule: rtranclp_induct) (use core_inv_step in blast)+
  then show ?thesis by simp
qed

section \<open>Properties of a core in a simulation\<close>

text \<open>The first part of \<open>O3_CPU::operate\<close>, up to \<open>schedule_memory_instruction\<close>, and the front end after it.\<close>

definition begin_cycle :: "('b, 'w) O3_CPU \<Rightarrow> ('b, 'w) O3_CPU" where
  "begin_cycle c = c\<lparr>instrs_to_read_this_cycle :=
     of_nat (min (FETCH_WIDTH (ocfg c)) (cb_sz (IFETCH_BUFFER c) - cb_occupancy (IFETCH_BUFFER c)))\<rparr>"

definition core_back_end :: "('b, 'w) core_env \<Rightarrow> ('b, 'w) O3_CPU \<Rightarrow> ('b, 'w) O3_CPU result" where
  "core_back_end E c =
     bindE (retire_rob E (begin_cycle c)) (\<lambda>c.
     bindE (complete_inflight_instruction c) (\<lambda>c.
     bindE (schedule_instruction E (execute_instruction E c)) (\<lambda>c.
     bindE (handle_memory_return E c) (\<lambda>c.
     bindE (operate_lsq E c) schedule_memory_instruction))))"

definition core_front_end :: "('b, 'w) core_env \<Rightarrow> ('b, 'w) O3_CPU \<Rightarrow> ('b, 'w) O3_CPU result" where
  "core_front_end E c =
     bindE (dispatch_instruction c) (\<lambda>c. bindE (decode_instruction E c) (promote_to_decode E))"

definition core_fetch_end :: "('b, 'w) core_env \<Rightarrow> ('b, 'w) O3_CPU \<Rightarrow> ('b, 'w) O3_CPU result" where
  "core_fetch_end E c =
     bindE (fetch_instruction E c) (\<lambda>c.
     bindE (translate_fetch E c) (\<lambda>c.
     Inr ((check_dib c)\<lparr>DISPATCH_BUFFER := dq_operate (DISPATCH_BUFFER (check_dib c)),
                DECODE_BUFFER := dq_operate (DECODE_BUFFER (check_dib c))\<rparr>)))"

lemma core_operate_split:
  "core_operate E c = bindE (core_back_end E c) (\<lambda>c. bindE (core_front_end E c) (core_fetch_end E))"
  by (simp add: core_operate_def core_back_end_def core_front_end_def core_fetch_end_def [abs_def] begin_cycle_def Let_def bindE_assoc)

lemma core_inv_begin_cycle: "core_inv c \<Longrightarrow> core_inv (begin_cycle c)"
  by (erule keeps_core_inv [rotated]) (simp add: begin_cycle_def)

lemma core_inv_back_end:
  assumes inv: "core_inv c" and ok: "core_back_end E c = Inr d"
  shows "core_inv d"
proof -
  from ok obtain c1 c2 c3 c4 c5 where s: "retire_rob E (begin_cycle c) = Inr c1" "complete_inflight_instruction c1 = Inr c2"
    "schedule_instruction E (execute_instruction E c2) = Inr c3" "handle_memory_return E c3 = Inr c4" "operate_lsq E c4 = Inr c5"
    "schedule_memory_instruction c5 = Inr d"
    unfolding core_back_end_def by (auto simp: errs)
  have i3: "core_inv c3"
    by (rule core_inv_schedule [OF core_inv_execute
          [OF core_inv_complete [OF core_inv_retire_rob [OF core_inv_begin_cycle [OF inv] s(1)] s(2)]] s(3)])
  show ?thesis
    by (rule core_inv_schedule_memory
        [OF keeps_core_inv [OF keeps_operate_lsq [OF s(5)] keeps_core_inv [OF keeps_handle_memory_return [OF s(4)] i3]] s(6)])
qed

lemma waits_none:
  assumes s: "sched_inv P L R" and k: "k < length L" "i_executed (L ! k) \<noteq> 0" and j: "j < length L" "P k \<in> set (deps (L ! j))"
  shows "i_executed (L ! j) = COMPLETED"
proof (rule ccontr)
  assume "i_executed (L ! j) \<noteq> COMPLETED"
  then have "j \<in> waits P L k" using j by (simp add: waits_def)
  then have "card (waits P L k) \<noteq> 0" by auto
  moreover have "i_num_reg_dependent (L ! k) = int (card (waits P L k))" using sched_invD(2) [OF s] k(1) by (simp add: count_ok_def)
  moreover have "i_num_reg_dependent (L ! k) = 0" using sched_invD(3) [OF s] k by (simp add: exec_ok_def)
  ultimately show False by simp
qed

text \<open>
  C1: In every state a core reaches in a simulation, the instructions in flight, from the
  oldest of the reorder buffer to the youngest of the fetch buffer, are the ones
  numbered from \<open>num_retired\<close> to \<open>instr_unique_id - 1\<close>, each once and in order:
  none is lost, duplicated or reordered on its way through the pipeline, and
  instructions retire in the order in which they were read from the trace.
\<close>

theorem core_keeps_program_order:
  assumes "sim_reachable c"
  shows "map i_instr_id (pipeline c) = map (\<lambda>k. num_retired c + of_nat k) [0..<length (pipeline c)]
     \<and> instr_unique_id c = num_retired c + of_nat (length (pipeline c))"
proof (rule conjI)
  have o: "consecutive (num_retired c) (map i_instr_id (pipeline c)) (instr_unique_id c)"
    using core_invD(2) [OF core_inv_reachable [OF assms]] by (simp add: ordered_def)
  show "instr_unique_id c = num_retired c + of_nat (length (pipeline c))" using o by (simp add: consecutive_def)
  show "map i_instr_id (pipeline c) = map (\<lambda>k. num_retired c + of_nat k) [0..<length (pipeline c)]"
    using o by (intro nth_equalityI) (simp_all add: consecutive_def)
qed

text \<open>
  C2: An instruction of the reorder buffer that executes or has executed finds
  its registers written: the youngest older instruction that writes one of its
  source registers has completed, whatever the memory and the predictors do.
\<close>

theorem core_respects_register_dependences:
  assumes "sim_reachable c" "k < length (cb_list (ROB c))" "i_executed (cb_list (ROB c) ! k) \<noteq> 0"
    "r \<in> set (i_source_registers (cb_list (ROB c) ! k))" "r \<noteq> 0" "youngest_writer (cb_list (ROB c)) k r j"
  shows "i_executed (cb_list (ROB c) ! j) = COMPLETED"
proof -
  have s: "sched_inv (cb_pos (ROB c)) (cb_list (ROB c)) (ready_to_execute c)"
    using core_invD(4) [OF core_inv_reachable [OF assms(1)]] by (simp add: deps_inv_def)
  have "i_scheduled (cb_list (ROB c) ! k) \<noteq> 0" using sched_invD(3) [OF s] assms(2,3) by (simp add: exec_ok_def)
  then have "raw_at (cb_pos (ROB c)) (cb_list (ROB c)) k r" using sched_invD(5) [OF s] assms(2,4,5) by (simp add: raw_ok_def)
  then have "i_executed (cb_list (ROB c) ! j) = COMPLETED \<or> cb_pos (ROB c) k \<in> set (deps (cb_list (ROB c) ! j))"
    using assms(6) by (simp add: raw_at_def)
  moreover have "j < length (cb_list (ROB c))" using assms(2,6) by (simp add: youngest_writer_def)
  ultimately show ?thesis using waits_none [OF s assms(2,3)] by blast
qed

text \<open>
  C3: When retirement succeeds, completion, execution and scheduling never fail an
  assertion: no count of dependences falls below zero, and the queue of ready
  instructions never holds more than the reorder buffer has room for.
\<close>

theorem core_scheduler_never_fails:
  assumes "sim_reachable c" "retire_rob E (begin_cycle c) = Inr d"
  shows "\<exists>e f. complete_inflight_instruction d = Inr e \<and> schedule_instruction E (execute_instruction E e) = Inr f"
proof -
  have "core_inv d" using core_inv_retire_rob [OF core_inv_begin_cycle [OF core_inv_reachable [OF assms(1)]] assms(2)] .
  then show ?thesis using complete_inflight_ok schedule_instruction_ok core_inv_execute by metis
qed

text \<open>
  C4: When the back end has done its work in a cycle, the front end (dispatch,
  decode, promotion to decode) either does its work or throws the deadlock
  exception of this core: its queues never overflow and never underflow.
\<close>

theorem core_front_end_fails_only_by_deadlock:
  assumes "sim_reachable c" "core_back_end E c = Inr d"
  shows "(\<exists>e. core_front_end E d = Inr e) \<or> core_front_end E d = Inl (DeadlockThrown (of_nat (o_cpu d)))"
proof -
  have d: "core_inv d" using core_inv_back_end [OF core_inv_reachable [OF assms(1)] assms(2)] .
  show ?thesis
  proof (cases "dispatch_instruction d")
    case (Inr u)
    then have u: "core_inv u" "o_cpu u = o_cpu d" using dispatch_instruction_cases [OF d] by auto
    show ?thesis
    proof (cases "decode_instruction E u")
      case v: (Inr v)
      then have "core_inv v" "o_cpu v = o_cpu d" using decode_instruction_cases [OF u(1), of E] u(2) by auto
      then show ?thesis using promote_to_decode_cases [of v E] Inr v by (auto simp: core_front_end_def)
    qed (use decode_instruction_cases [OF u(1), of E] u(2) Inr in \<open>auto simp: core_front_end_def\<close>)
  qed (use dispatch_instruction_cases [OF d] in \<open>auto simp: core_front_end_def\<close>)
qed

end
