(* ===== verification/CoreExample.thy ===== *)
theory CoreExample
  imports Simulation
begin

text \<open>
  A core with a reorder buffer of two instructions runs a trace of one
  instruction that reads and writes the same register, over a memory that
  answers at once.  After ten iterations of the loop of \<open>main\<close> the first
  instruction has completed and the second, which waited for it, executes.
  The properties of \<open>Simulation\<close> are applied to this run.
\<close>

section \<open>The configuration\<close>

definition demo_consts :: constants where
  "demo_consts = \<lparr>BLOCK_SIZE = 4, PAGE_SIZE = 8, NUM_CPUS = 1, DRAM_CHANNELS = 1, DRAM_RANKS = 1, DRAM_BANKS = 1,
     DRAM_ROWS = 1, DRAM_COLUMNS = 1, DRAM_WQ_SIZE = 1, DRAM_RQ_SIZE = 1, DRAM_CHANNEL_WIDTH = 1\<rparr>"

definition demo_env :: "(unit, unit) core_env" where
  "demo_env = \<lparr>o_consts = demo_consts, o_warm = (\<lambda>_. True), o_metadata = 0,
     impl_btb_prediction = (\<lambda>_ _ b. ((0, False), b)), impl_predict_branch = (\<lambda>_ _ _ _ b. (False, b)),
     impl_prefetcher_branch_operate = (\<lambda>_ _ _ s. s), impl_update_btb = (\<lambda>_ _ _ _ b. b),
     impl_last_branch_result = (\<lambda>_ _ _ _ b. b),
     itlb_add_rq = (\<lambda>p w. Inr (0, [p], w)), dtlb_add_rq = (\<lambda>p w. Inr (0, [p], w)),
     l1i_add_rq = (\<lambda>p w. Inr (0, [p], w)), l1d_add_rq = (\<lambda>p w. Inr (0, [p], w)),
     l1d_add_wq = (\<lambda>p w. Inr (0, w)), l1i_prefetch_line = (\<lambda>_ _ _ w. Inr (0, w)),
     itlb_fill_level = 1, dtlb_fill_level = 1, l1i_fill_level = 1, l1d_fill_level = 1,
     itlb_MAX_READ = 1, dtlb_MAX_READ = 1, l1i_MAX_READ = 1, l1d_MAX_READ = 1\<rparr>"

definition demo_config :: core_config where
  "demo_config = \<lparr>dib_set = 1, dib_way = 1, dib_window = 2, FETCH_WIDTH = 1, DECODE_WIDTH = 1, DISPATCH_WIDTH = 1,
     SCHEDULER_SIZE = 2, EXEC_WIDTH = 1, LQ_WIDTH = 1, SQ_WIDTH = 1, RETIRE_WIDTH = 1, BRANCH_MISPREDICT_PENALTY = 1,
     SCHEDULING_LATENCY = 0, EXEC_LATENCY = 2, ITLB_bus_id = 0, DTLB_bus_id = 1, L1I_bus_id = 2, L1D_bus_id = 3\<rparr>"

definition demo_sizes :: core_sizes where
  "demo_sizes = \<lparr>ifetch_buffer_size = 2, decode_buffer_size = 1, dispatch_buffer_size = 1, rob_size = 2, lq_size = 1, sq_size = 1,
     decode_latency = 0, dispatch_latency = 0\<rparr>"

definition demo_record :: "nat \<Rightarrow> u8 \<Rightarrow> u8 \<Rightarrow> u8 list" where
  "demo_record ip dst src = le_bytes 8 ip @ [0, 0, dst, 0, src, 0, 0, 0] @ replicate 48 0"

definition demo_file :: "u8 list" where
  "demo_file = demo_record 16 1 1"

definition demo_start :: "(unit, unit) O3_CPU \<times> trace_source" where
  "demo_start = (O3_CPU_new demo_env demo_config demo_sizes 0 () (), Input_trace 0 demo_file \<lparr>tr_file = demo_file, tr_last_instr = None\<rparr>)"

text \<open>The instruction of the trace, and the reader after the first call of \<open>get\<close>.\<close>

definition demo_instr :: ooo_model_instr where
  "demo_instr = instr_of_input 0 (input_instr_of demo_file)"

definition demo_src :: trace_source where
  "demo_src = Input_trace 0 demo_file \<lparr>tr_file = [], tr_last_instr = Some demo_instr\<rparr>"

section \<open>Evaluation\<close>

text \<open>The fields of the records that stay folded during the evaluation.\<close>

lemma demo_consts_sel:
  "BLOCK_SIZE demo_consts = 4" "PAGE_SIZE demo_consts = 8" "NUM_CPUS demo_consts = 1" "DRAM_CHANNELS demo_consts = 1"
  "DRAM_RANKS demo_consts = 1" "DRAM_BANKS demo_consts = 1" "DRAM_ROWS demo_consts = 1" "DRAM_COLUMNS demo_consts = 1"
  "DRAM_WQ_SIZE demo_consts = 1" "DRAM_RQ_SIZE demo_consts = 1" "DRAM_CHANNEL_WIDTH demo_consts = 1"
  by (simp_all add: demo_consts_def)

lemma demo_env_sel:
  "o_consts demo_env = demo_consts" "o_warm demo_env = (\<lambda>_. True)" "o_metadata demo_env = 0"
  "impl_btb_prediction demo_env = (\<lambda>_ _ b. ((0, False), b))"
  "impl_predict_branch demo_env = (\<lambda>_ _ _ _ b. (False, b))"
  "impl_prefetcher_branch_operate demo_env = (\<lambda>_ _ _ s. s)"
  "impl_update_btb demo_env = (\<lambda>_ _ _ _ b. b)" "impl_last_branch_result demo_env = (\<lambda>_ _ _ _ b. b)"
  "itlb_add_rq demo_env = (\<lambda>p w. Inr (0, [p], w))" "dtlb_add_rq demo_env = (\<lambda>p w. Inr (0, [p], w))"
  "l1i_add_rq demo_env = (\<lambda>p w. Inr (0, [p], w))" "l1d_add_rq demo_env = (\<lambda>p w. Inr (0, [p], w))"
  "l1d_add_wq demo_env = (\<lambda>p w. Inr (0, w))" "l1i_prefetch_line demo_env = (\<lambda>_ _ _ w. Inr (0, w))"
  "itlb_fill_level demo_env = 1" "dtlb_fill_level demo_env = 1" "l1i_fill_level demo_env = 1"
  "l1d_fill_level demo_env = 1" "itlb_MAX_READ demo_env = 1" "dtlb_MAX_READ demo_env = 1" "l1i_MAX_READ demo_env = 1"
  "l1d_MAX_READ demo_env = 1"
  by (simp_all add: demo_env_def)

lemma demo_config_sel:
  "dib_set demo_config = 1" "dib_way demo_config = 1" "dib_window demo_config = 2" "FETCH_WIDTH demo_config = 1"
  "DECODE_WIDTH demo_config = 1" "DISPATCH_WIDTH demo_config = 1" "SCHEDULER_SIZE demo_config = 2"
  "EXEC_WIDTH demo_config = 1" "LQ_WIDTH demo_config = 1" "SQ_WIDTH demo_config = 1" "RETIRE_WIDTH demo_config = 1"
  "BRANCH_MISPREDICT_PENALTY demo_config = 1" "SCHEDULING_LATENCY demo_config = 0" "EXEC_LATENCY demo_config = 2"
  "ITLB_bus_id demo_config = 0" "DTLB_bus_id demo_config = 1" "L1I_bus_id demo_config = 2"
  "L1D_bus_id demo_config = 3"
  by (simp_all add: demo_config_def)

lemma demo_sizes_sel:
  "ifetch_buffer_size demo_sizes = 2" "decode_buffer_size demo_sizes = 1" "dispatch_buffer_size demo_sizes = 1"
  "rob_size demo_sizes = 2" "lq_size demo_sizes = 1" "sq_size demo_sizes = 1" "decode_latency demo_sizes = 0"
  "dispatch_latency demo_sizes = 0"
  by (simp_all add: demo_sizes_def)

lemma ooo_model_instr_new_sel:
  "i_instr_id ooo_model_instr_new = 0" "i_ip ooo_model_instr_new = 0" "i_event_cycle ooo_model_instr_new = 0"
  "i_is_branch ooo_model_instr_new = False" "i_is_memory ooo_model_instr_new = False"
  "i_branch_taken ooo_model_instr_new = False" "i_branch_mispredicted ooo_model_instr_new = False"
  "i_source_added ooo_model_instr_new = replicate NUM_INSTR_SOURCES False"
  "i_destination_added ooo_model_instr_new = replicate NUM_INSTR_DESTINATIONS_SPARC False"
  "i_is_btb_miss ooo_model_instr_new = False" "i_is_kernel ooo_model_instr_new = True"
  "i_asid ooo_model_instr_new = (- 1, - 1)" "i_branch_type ooo_model_instr_new = NOT_BRANCH"
  "i_branch_target ooo_model_instr_new = 0" "i_translated ooo_model_instr_new = 0" "i_fetched ooo_model_instr_new = 0"
  "i_decoded ooo_model_instr_new = 0" "i_scheduled ooo_model_instr_new = 0" "i_executed ooo_model_instr_new = 0"
  "i_num_reg_ops ooo_model_instr_new = 0" "i_num_mem_ops ooo_model_instr_new = 0"
  "i_num_reg_dependent ooo_model_instr_new = 0"
  "i_destination_registers ooo_model_instr_new = replicate NUM_INSTR_DESTINATIONS_SPARC 0"
  "i_source_registers ooo_model_instr_new = replicate NUM_INSTR_SOURCES 0"
  "i_registers_instrs_depend_on_me ooo_model_instr_new = []" "i_memory_instrs_depend_on_me ooo_model_instr_new = []"
  "i_instruction_pa ooo_model_instr_new = 0"
  "i_destination_memory ooo_model_instr_new = replicate NUM_INSTR_DESTINATIONS_SPARC 0"
  "i_source_memory ooo_model_instr_new = replicate NUM_INSTR_SOURCES 0"
  "i_lq_index ooo_model_instr_new = replicate NUM_INSTR_SOURCES None"
  "i_sq_index ooo_model_instr_new = replicate NUM_INSTR_DESTINATIONS_SPARC None"
  by (simp_all add: ooo_model_instr_new_def)

lemma PACKET_new_sel:
  "p_scheduled (PACKET_new c meta) = False" "p_asid (PACKET_new c meta) = (- 1, - 1)" "p_type (PACKET_new c meta) = 0"
  "p_fill_level (PACKET_new c meta) = 0" "p_pf_origin_level (PACKET_new c meta) = 0"
  "p_pf_metadata (PACKET_new c meta) = meta" "p_cpu (PACKET_new c meta) = NUM_CPUS c"
  "p_address (PACKET_new c meta) = 0" "p_v_address (PACKET_new c meta) = 0" "p_data (PACKET_new c meta) = 0"
  "p_instr_id (PACKET_new c meta) = 0" "p_ip (PACKET_new c meta) = 0" "p_event_cycle (PACKET_new c meta) = - 1"
  "p_cycle_enqueued (PACKET_new c meta) = 0" "p_lq_dep (PACKET_new c meta) = []" "p_sq_dep (PACKET_new c meta) = []"
  "p_instr_dep (PACKET_new c meta) = []" "p_to_return (PACKET_new c meta) = []"
  "p_translation_level (PACKET_new c meta) = 0" "p_init_translation_level (PACKET_new c meta) = 0"
  by (simp_all add: PACKET_new_def)

lemma LSQ_ENTRY_new_sel:
  "l_instr_id LSQ_ENTRY_new = 0" "l_producer_id LSQ_ENTRY_new = - 1" "l_virtual_address LSQ_ENTRY_new = 0"
  "l_physical_address LSQ_ENTRY_new = 0" "l_ip LSQ_ENTRY_new = 0" "l_event_cycle LSQ_ENTRY_new = 0"
  "l_rob_index LSQ_ENTRY_new = None" "l_translated LSQ_ENTRY_new = 0" "l_fetched LSQ_ENTRY_new = 0"
  "l_asid LSQ_ENTRY_new = (- 1, - 1)"
  by (simp_all add: LSQ_ENTRY_new_def)

lemma demo_get:
  "trace_get (snd demo_start) = Inr (demo_instr\<lparr>i_branch_target := 16\<rparr>, demo_src)"
  "trace_get demo_src = Inr (demo_instr\<lparr>i_branch_target := 16\<rparr>, demo_src)"
  by code_simp+

lemma demo_instr_eq:
  "demo_instr = ooo_model_instr_new\<lparr>i_ip := 16, i_asid := (0, 0), i_destination_registers := [1, 0],
     i_source_registers := [1, 0, 0, 0]\<rparr>"
  by code_simp

text \<open>Evaluation from the left: the rest of a sequence waits until its first part is a value.\<close>

lemma bindE_weak_cong: "m = m' \<Longrightarrow> bindE m f = bindE m' f"
  by simp

lemma numeral_list:
  "replicate (numeral n) x = x # replicate (pred_numeral n) x" "(y # ys)[numeral n := x] = y # ys[pred_numeral n := x]"
  "[0..<numeral n] = 0 # [Suc 0..<numeral n]"
  by (simp_all add: numeral_eq_Suc upt_rec)

lemma upt_one_numeral: "[Suc 0..<numeral n] = (if n = num.One then [] else Suc 0 # [2..<numeral n])"
  by (cases n) (simp_all add: upt_rec numeral_eq_Suc)

lemma sim_run_numeral:
  "sim_run E (numeral n) s =
     bindE (core_operate E (fst s)) (\<lambda>c.
     bindE (read_instrs E (c\<lparr>current_cycle := current_cycle c + 1\<rparr>) (snd s)) (sim_run E (pred_numeral n)))"
  by (simp add: numeral_eq_Suc)

lemma demo_lg2: "lg2 2 = 1" "lg2 4 = 2" "lg2 8 = 3"
  by (simp_all add: lg2.simps)

lemma partition_point_small: "partition_point P [] = 0" "partition_point P [x] = (if P x then 1 else 0)"
  by (auto simp: partition_point_def bisect_point.simps [of _ _ 0] bisect_point.simps [of _ _ "Suc 0"])

lemmas core_eval =
  DEADLOCK_CYCLE_def add_load_queue_def add_store_queue_def bus_packet_def bus_return_data_def bus_step_def cb_at_def
  cb_begin_def cb_empty_def cb_end_def cb_for_each_def cb_front_def cb_full_def cb_list_def cb_new_def
  cb_occupancy_def cb_pop_front_def cb_pos_def cb_positions_def cb_push_back_def cb_set_def check_deadlock_def
  check_dib_def circ_inc_mod complete_inflight_instruction_def core_operate_def count_retired_def
  decode_instruction_def deref_def dib_entry_new_def dib_find_def dib_set_begin_def dib_touch_def
  dispatch_instruction_def do_check_dib_def do_complete_execution_def do_dib_update_def do_execution_def
  do_fetch_instruction_def do_memory_scheduling_def do_scheduling_def do_sq_forward_to_lq_def do_translate_fetch_def
  do_translate_load_def do_translate_store_def dq_empty_def dq_front_def dq_full_def dq_has_ready_def dq_list_def
  dq_new_def dq_occupancy_def dq_operate_def dq_pop_front_def dq_push_back_def dq_push_back_ready_def dq_push_delay_def dq_ready_def
  dq_size_def enter_ifetch_def execute_instruction_def execute_load_def execute_store_def fetch_instruction_def
  find_prior_def finish_load_def finish_mem_op_def fold_sp_def forward_source_def handle_memory_return_def
  init_destination_def init_instruction_def init_source_def instr_mem_will_produce_def instr_reg_will_produce_def
  it_add_def it_diff_def it_eq_def it_ge_def it_gt_def it_le_def it_lt_def it_ne_def it_range_def mark_dependency_def
  operate_lsq_def predict_def promote_to_decode_def push_ready_def release_dependent_def retire_rob_def
  retire_store_def schedule_instruction_def schedule_load_def schedule_memory_instruction_def schedule_one_def
  schedule_store_def send_dtlb_def send_itlb_def send_l1d_def send_l1i_def sq_will_forward_def translate_entry_def
  translate_fetch_def upd_ifetch_def upd_lq_def upd_rob_def upd_sq_def wake_dependent_def register_use_def
  classify_branch_def is_valid_LSQ_def find_if_not_def eq_addr_def slice_def map_slice_def max_element_def
  min_element_def lru_updater_def lru_comparator_def cmp_lru_def invalid_is_maximal_def invalid_is_minimal_def
  splice_bits_def bitmask_def assertE_def Let_def

lemmas demo_eval = demo_consts_sel demo_env_sel demo_config_sel demo_sizes_sel ooo_model_instr_new_sel PACKET_new_sel LSQ_ENTRY_new_sel
  O3_CPU_new_def demo_start_def demo_instr_eq demo_get [unfolded demo_start_def snd_conv] demo_lg2
  numeral_list upt_one_numeral partition_point_small sim_run_numeral read_instrs.simps word_le_nat_alt word_less_nat_alt

definition demo_view :: "ooo_model_instr \<Rightarrow> u64 \<times> nat \<times> u8 list \<times> u8 list" where
  "demo_view i = (i_instr_id i, i_executed i, i_source_registers i, i_destination_registers i)"

lemma demo_ten:
  "case sim_run demo_env 10 demo_start of
     Inl e \<Rightarrow> False
   | Inr (c, src) \<Rightarrow>
       map demo_view (cb_list (ROB c)) = [(0, COMPLETED, [1, 0, 0, 0], [1, 0]), (1, INFLIGHT, [1, 0, 0, 0], [1, 0])]
       \<and> length (pipeline c) = 6 \<and> num_retired c = 0
       \<and> \<not> isl (retire_rob demo_env (begin_cycle c)) \<and> \<not> isl (core_back_end demo_env c)"
  by (simp add: core_eval demo_eval demo_view_def pipeline_def begin_cycle_def core_back_end_def
      cong: bindE_weak_cong let_weak_cong)

lemma demo_core:
  "\<exists>c d e. sim_reachable c
     \<and> map demo_view (cb_list (ROB c)) = [(0, COMPLETED, [1, 0, 0, 0], [1, 0]), (1, INFLIGHT, [1, 0, 0, 0], [1, 0])]
     \<and> length (pipeline c) = 6 \<and> num_retired c = 0
     \<and> retire_rob demo_env (begin_cycle c) = Inr d \<and> core_back_end demo_env c = Inr e"
proof -
  from demo_ten obtain c src where c: "sim_run demo_env 10 demo_start = Inr (c, src)"
    and f: "map demo_view (cb_list (ROB c)) = [(0, COMPLETED, [1, 0, 0, 0], [1, 0]), (1, INFLIGHT, [1, 0, 0, 0], [1, 0])]"
    "length (pipeline c) = 6" "num_retired c = 0"
    "\<not> isl (retire_rob demo_env (begin_cycle c))" "\<not> isl (core_back_end demo_env c)"
    by (cases "sim_run demo_env 10 demo_start") auto
  obtain d e where "retire_rob demo_env (begin_cycle c) = Inr d" "core_back_end demo_env c = Inr e"
    using f(4,5) by (cases "retire_rob demo_env (begin_cycle c)"; cases "core_back_end demo_env c") auto
  moreover have "sim_start demo_start"
    unfolding sim_start_def
    by (rule conjI, simp add: demo_start_def trace_opened_def, rule exI [of _ demo_env], rule exI [of _ demo_config])
      (auto simp: demo_start_def demo_config_sel)
  then have "sim_reachable c" using sim_run_steps [OF c] unfolding sim_reachable_def by blast
  ultimately show ?thesis using f(1-3) by (intro exI conjI)
qed

text \<open>The views of the two instructions, one by one.\<close>

lemma demo_views:
  assumes "map demo_view L = [(0, a, [1, 0, 0, 0], [1, 0]), (1, b, [1, 0, 0, 0], [1, 0])]"
  shows "length L = 2" "i_executed (L ! 0) = a" "i_executed (L ! 1) = b" "1 \<in> set (i_source_registers (L ! 1))"
    "youngest_writer L 1 1 0"
proof -
  from assms obtain x y where L: "L = [x, y]" by (auto simp: Cons_eq_map_conv map_eq_Cons_conv)
  with assms show "length L = 2" "i_executed (L ! 0) = a" "i_executed (L ! 1) = b" "1 \<in> set (i_source_registers (L ! 1))"
    "youngest_writer L 1 1 0" by (auto simp: demo_view_def youngest_writer_def)
qed

section \<open>The properties at this run\<close>

theorem core_keeps_program_order_witness:
  "\<exists>c :: (unit, unit) O3_CPU. sim_reachable c \<and> length (pipeline c) = 6 \<and> map i_instr_id (pipeline c) = [0, 1, 2, 3, 4, 5]"
proof -
  obtain c :: "(unit, unit) O3_CPU" where c: "sim_reachable c" "length (pipeline c) = 6" "num_retired c = 0"
    using demo_core by (elim exE conjE) (rule that; assumption)
  have "map i_instr_id (pipeline c) = map of_nat [0..<6]" using core_keeps_program_order [OF c(1)] c(2,3) by simp
  moreover have "map of_nat [0..<6] = ([0, 1, 2, 3, 4, 5] :: u64 list)" by (simp add: numeral_list upt_one_numeral)
  ultimately show ?thesis using c(1,2) by metis
qed

theorem core_respects_register_dependences_witness:
  "\<exists>c :: (unit, unit) O3_CPU. sim_reachable c \<and> i_executed (cb_list (ROB c) ! 1) = INFLIGHT \<and> youngest_writer (cb_list (ROB c)) 1 1 0
     \<and> i_executed (cb_list (ROB c) ! 0) = COMPLETED"
proof -
  obtain c :: "(unit, unit) O3_CPU" where c: "sim_reachable c"
    "map demo_view (cb_list (ROB c)) = [(0, COMPLETED, [1, 0, 0, 0], [1, 0]), (1, INFLIGHT, [1, 0, 0, 0], [1, 0])]"
    using demo_core by (elim exE conjE) (rule that; assumption)
  note v = demo_views [OF c(2)]
  have "i_executed (cb_list (ROB c) ! 0) = COMPLETED"
    by (rule core_respects_register_dependences [OF c(1) _ _ v(4) _ v(5)]) (use v(1,3) in simp_all)
  then show ?thesis using c(1) v(3,5) by blast
qed

theorem core_scheduler_never_fails_witness:
  "\<exists>c d e f. sim_reachable c \<and> retire_rob demo_env (begin_cycle c) = Inr d
     \<and> complete_inflight_instruction d = Inr e \<and> schedule_instruction demo_env (execute_instruction demo_env e) = Inr f"
proof -
  obtain c d where c: "sim_reachable c" "retire_rob demo_env (begin_cycle c) = Inr d"
    using demo_core by (elim exE conjE) (rule that; assumption)
  then show ?thesis using core_scheduler_never_fails [OF c] by blast
qed

theorem core_front_end_fails_only_by_deadlock_witness:
  "\<exists>c d. sim_reachable c \<and> core_back_end demo_env c = Inr d
     \<and> ((\<exists>e. core_front_end demo_env d = Inr e) \<or> core_front_end demo_env d = Inl (DeadlockThrown (of_nat (o_cpu d))))"
proof -
  obtain c d where c: "sim_reachable c" "core_back_end demo_env c = Inr d"
    using demo_core by (elim exE conjE) (rule that; assumption)
  then show ?thesis using core_front_end_fails_only_by_deadlock [OF c] by blast
qed

end
