(* ===== verification/TraceBuffer.thy ===== *)
theory TraceBuffer
  imports TraceReader
begin

text \<open>
  The backend with which QEMU writes the traces, \<open>trace/simple.c\<close>: a ring of
  bytes into which any number of threads write records while one thread copies
  finished records to the file.  The length of the ring is the argument \<open>N\<close>,
  \<open>TRACE_BUF_LEN\<close> in the source; the file is the list of the bytes written to
  it, and only the branches for an uncompressed file are modelled.
\<close>

section \<open>The ring\<close>

definition TRACE_BUF_LEN :: nat where "TRACE_BUF_LEN = 4096 * 1024"

abbreviation TRACE_RECORD_VALID :: u64 where "TRACE_RECORD_VALID \<equiv> push_bit 63 1"

text \<open>\<open>sizeof(TraceRecord)\<close>: event, timestamp, length and process, without the arguments.\<close>

abbreviation (input) SIZEOF_TraceRecord :: nat where "SIZEOF_TraceRecord \<equiv> 24"

definition wrap_idx :: "nat \<Rightarrow> u32 \<Rightarrow> u32" where
  "wrap_idx N idx = (if N \<le> unat idx then idx mod of_nat N else idx)"

fun read_from_buffer :: "nat \<Rightarrow> u32 \<Rightarrow> nat \<Rightarrow> u8 list \<Rightarrow> u8 list" where
  "read_from_buffer N idx 0 buf = []"
| "read_from_buffer N idx (Suc n) buf =
     (let idx = wrap_idx N idx in buf ! unat idx # read_from_buffer N (idx + 1) n buf)"

fun write_to_buffer :: "nat \<Rightarrow> u32 \<Rightarrow> u8 list \<Rightarrow> u8 list \<Rightarrow> u32 \<times> u8 list" where
  "write_to_buffer N idx [] buf = (idx, buf)"
| "write_to_buffer N idx (x # xs) buf =
     (let idx = wrap_idx N idx in write_to_buffer N (idx + 1) xs (buf[unat idx := x]))"

fun clear_buffer_range :: "nat \<Rightarrow> u32 \<Rightarrow> nat \<Rightarrow> u8 list \<Rightarrow> u8 list" where
  "clear_buffer_range N idx 0 buf = buf"
| "clear_buffer_range N idx (Suc n) buf =
     (let idx = wrap_idx N idx in clear_buffer_range N (idx + 1) n (buf[unat idx := 0]))"

definition get_trace_record :: "nat \<Rightarrow> u32 \<Rightarrow> u8 list \<Rightarrow> (u8 list \<times> u8 list) option" where
  "get_trace_record N idx buf =
     (if u64_at 0 (read_from_buffer N idx 8 buf) AND TRACE_RECORD_VALID = 0 then None
      else
        let record = read_from_buffer N idx SIZEOF_TraceRecord buf;
            len = unat (u32_at 16 record);
            recordptr = read_from_buffer N idx len buf
        in Some (le_bytes 8 (unat (u64_at 0 recordptr AND NOT TRACE_RECORD_VALID)) @ drop 8 recordptr,
                 clear_buffer_range N idx len buf))"

section \<open>State\<close>

record trace_state =
  trace_buf :: "u8 list"
  trace_idx :: u32
  writeout_idx :: u32
  dropped_events :: u32
  trace_available :: bool
  trace_writeout_enabled :: bool
  trace_pid :: u32
  trace_fp :: "u8 list"

record TraceBufferRecord =
  tbuf_idx :: u32
  rec_off :: u32

text \<open>An argument of an event: a number, or a string with its length before it.\<close>

datatype trace_arg = Arg_u64 u64 | Arg_str "u8 list"

fun arg_bytes :: "trace_arg \<Rightarrow> u8 list" where
  "arg_bytes (Arg_u64 val) = le_bytes 8 (unat val)"
| "arg_bytes (Arg_str s) = le_bytes 4 (length s) @ s"

definition args_size :: "trace_arg list \<Rightarrow> nat" where
  "args_size args = sum_list (map (\<lambda>a. length (arg_bytes a)) args)"

definition flush_trace_file :: "trace_state \<Rightarrow> trace_state" where
  "flush_trace_file s = s\<lparr>trace_available := True\<rparr>"

section \<open>Writing a record\<close>

text \<open>
  The loop at the start of a record: \<open>None\<close> as long as the ring has no room, in
  which case the thread spins.  The check and the compare-and-exchange are one
  step: the index has not moved in between, and what the writing thread has
  freed meanwhile only makes more room.
\<close>

definition reserve_record :: "nat \<Rightarrow> u32 \<Rightarrow> trace_state \<Rightarrow> (u32 \<times> trace_state) option" where
  "reserve_record N rec_len s =
     (let old_idx = trace_idx s; new_idx = old_idx + rec_len in
      if unat (new_idx - writeout_idx s) > N then None
      else Some (old_idx mod of_nat N, s\<lparr>trace_idx := new_idx\<rparr>))"

definition record_header :: "u64 \<Rightarrow> u64 \<Rightarrow> u32 \<Rightarrow> u32 \<Rightarrow> u8 list" where
  "record_header event timestamp_ns rec_len pid =
     le_bytes 8 (unat event) @ le_bytes 8 (unat timestamp_ns) @ le_bytes 4 (unat rec_len) @ le_bytes 4 (unat pid)"

definition write_record_header ::
  "nat \<Rightarrow> u32 \<Rightarrow> u32 \<Rightarrow> u64 \<Rightarrow> u32 \<Rightarrow> trace_state \<Rightarrow> TraceBufferRecord \<times> trace_state" where
  "write_record_header N idx event timestamp_ns rec_len s =
     (let (rec_off, buf) = write_to_buffer N idx (le_bytes 8 (unat (ucast event :: u64))) (trace_buf s);
          (rec_off, buf) = write_to_buffer N rec_off (le_bytes 8 (unat timestamp_ns)) buf;
          (rec_off, buf) = write_to_buffer N rec_off (le_bytes 4 (unat rec_len)) buf;
          (rec_off, buf) = write_to_buffer N rec_off (le_bytes 4 (unat (trace_pid s))) buf
      in (\<lparr>tbuf_idx = idx, rec_off = (idx + of_nat SIZEOF_TraceRecord) mod of_nat N\<rparr>, s\<lparr>trace_buf := buf\<rparr>))"

definition trace_record_start ::
  "nat \<Rightarrow> u32 \<Rightarrow> nat \<Rightarrow> u64 \<Rightarrow> trace_state \<Rightarrow> (TraceBufferRecord \<times> trace_state) option" where
  "trace_record_start N event datasize timestamp_ns s =
     (let rec_len = of_nat (SIZEOF_TraceRecord + datasize) in
      case reserve_record N rec_len s of
        None \<Rightarrow> None
      | Some (idx, s) \<Rightarrow> Some (write_record_header N idx event timestamp_ns rec_len s))"

definition trace_record_write_u64 ::
  "nat \<Rightarrow> u64 \<Rightarrow> TraceBufferRecord \<Rightarrow> trace_state \<Rightarrow> TraceBufferRecord \<times> trace_state" where
  "trace_record_write_u64 N val r s =
     (let (off, buf) = write_to_buffer N (rec_off r) (le_bytes 8 (unat val)) (trace_buf s)
      in (r\<lparr>rec_off := off\<rparr>, s\<lparr>trace_buf := buf\<rparr>))"

definition trace_record_write_str ::
  "nat \<Rightarrow> u8 list \<Rightarrow> TraceBufferRecord \<Rightarrow> trace_state \<Rightarrow> TraceBufferRecord \<times> trace_state" where
  "trace_record_write_str N str r s =
     (let (off, buf) = write_to_buffer N (rec_off r) (le_bytes 4 (length str)) (trace_buf s);
          (off, buf) = write_to_buffer N off str buf
      in (r\<lparr>rec_off := off\<rparr>, s\<lparr>trace_buf := buf\<rparr>))"

fun write_arg :: "nat \<Rightarrow> trace_arg \<Rightarrow> TraceBufferRecord \<Rightarrow> trace_state \<Rightarrow> TraceBufferRecord \<times> trace_state" where
  "write_arg N (Arg_u64 val) r s = trace_record_write_u64 N val r s"
| "write_arg N (Arg_str str) r s = trace_record_write_str N str r s"

definition trace_record_finish :: "nat \<Rightarrow> TraceBufferRecord \<Rightarrow> trace_state \<Rightarrow> trace_state" where
  "trace_record_finish N r s =
     (let record = read_from_buffer N (tbuf_idx r) SIZEOF_TraceRecord (trace_buf s);
          record = le_bytes 8 (unat (u64_at 0 record OR TRACE_RECORD_VALID)) @ drop 8 record;
          (_, buf) = write_to_buffer N (tbuf_idx r) record (trace_buf s);
          s = s\<lparr>trace_buf := buf\<rparr>
      in if unat (trace_idx s - writeout_idx s) > N div 4 then flush_trace_file s else s)"

section \<open>Threads\<close>

text \<open>
  The code generated for an event starts a record, writes its arguments and
  finishes it.  A thread in between is a \<open>producer\<close>: \<open>pr_rec\<close> is \<open>None\<close> until the
  header is written.  The thread that writes the file waits, scans for the next
  valid record, or has copied one of the given length and not yet released its
  bytes.
\<close>

record producer =
  pr_idx :: u32
  pr_event :: u32
  pr_time :: u64
  pr_len :: u32
  pr_rec :: "TraceBufferRecord option"
  pr_left :: "trace_arg list"

datatype writer_pc = Waiting | Scanning | Advancing u32

record trace_sys =
  ts_state :: trace_state
  ts_producers :: "nat \<Rightarrow> producer option"
  ts_writer :: writer_pc

datatype trace_act =
    Reserve nat u32 u64 "trace_arg list"
  | Header nat
  | Write nat
  | Finish nat
  | Flush
  | Wake
  | Take
  | Advance
  | Stop

text \<open>The record of type \<open>TRACE_RECORD_TYPE_EVENT\<close> as it goes to the file.\<close>

definition write_event :: "u8 list \<Rightarrow> trace_state \<Rightarrow> trace_state" where
  "write_event record s = s\<lparr>trace_fp := trace_fp s @ le_bytes 8 1 @ record\<rparr>"

text \<open>The report of dropped events; \<open>now\<close> is the clock.\<close>

definition write_dropped :: "u64 \<Rightarrow> trace_state \<Rightarrow> trace_state" where
  "write_dropped now s =
     (if dropped_events s = 0 then s
      else write_event (record_header (- 2) now 32 (trace_pid s) @ le_bytes 8 (unat (dropped_events s)))
             (s\<lparr>dropped_events := 0\<rparr>))"

fun trace_step :: "nat \<Rightarrow> u64 \<Rightarrow> trace_act \<Rightarrow> trace_sys \<Rightarrow> trace_sys option" where
  "trace_step N now (Reserve t event time args) y =
     (if ts_producers y t \<noteq> None then None
      else
        let len = of_nat (SIZEOF_TraceRecord + args_size args) in
        case reserve_record N len (ts_state y) of
          None \<Rightarrow> None
        | Some (idx, s) \<Rightarrow>
            Some (y\<lparr>ts_state := s, ts_producers := (ts_producers y)(t \<mapsto>
              \<lparr>pr_idx = idx, pr_event = event, pr_time = time, pr_len = len, pr_rec = None, pr_left = args\<rparr>)\<rparr>))"
| "trace_step N now (Header t) y =
     (case ts_producers y t of
        Some p \<Rightarrow>
          if pr_rec p = None
          then let (r, s) = write_record_header N (pr_idx p) (pr_event p) (pr_time p) (pr_len p) (ts_state y)
               in Some (y\<lparr>ts_state := s, ts_producers := (ts_producers y)(t \<mapsto> p\<lparr>pr_rec := Some r\<rparr>)\<rparr>)
          else None
      | None \<Rightarrow> None)"
| "trace_step N now (Write t) y =
     (case ts_producers y t of
        Some p \<Rightarrow>
          (case (pr_rec p, pr_left p) of
             (Some r, a # args) \<Rightarrow>
               let (r, s) = write_arg N a r (ts_state y)
               in Some (y\<lparr>ts_state := s, ts_producers := (ts_producers y)(t \<mapsto> p\<lparr>pr_rec := Some r, pr_left := args\<rparr>)\<rparr>)
           | _ \<Rightarrow> None)
      | None \<Rightarrow> None)"
| "trace_step N now (Finish t) y =
     (case ts_producers y t of
        Some p \<Rightarrow>
          (case (pr_rec p, pr_left p) of
             (Some r, []) \<Rightarrow>
               Some (y\<lparr>ts_state := trace_record_finish N r (ts_state y), ts_producers := (ts_producers y)(t := None)\<rparr>)
           | _ \<Rightarrow> None)
      | None \<Rightarrow> None)"
| "trace_step N now Flush y = Some (y\<lparr>ts_state := flush_trace_file (ts_state y)\<rparr>)"
| "trace_step N now Wake y =
     (if ts_writer y = Waiting \<and> trace_available (ts_state y) \<and> trace_writeout_enabled (ts_state y)
      then Some (y\<lparr>ts_state := write_dropped now ((ts_state y)\<lparr>trace_available := False\<rparr>), ts_writer := Scanning\<rparr>)
      else None)"
| "trace_step N now Take y =
     (if ts_writer y = Scanning then
        case get_trace_record N (writeout_idx (ts_state y) mod of_nat N) (trace_buf (ts_state y)) of
          Some (record, buf) \<Rightarrow>
            Some (y\<lparr>ts_state := write_event record ((ts_state y)\<lparr>trace_buf := buf\<rparr>),
                    ts_writer := Advancing (u32_at 16 record)\<rparr>)
        | None \<Rightarrow> None
      else None)"
| "trace_step N now Advance y =
     (case ts_writer y of
        Advancing len \<Rightarrow>
          Some (y\<lparr>ts_state := (ts_state y)\<lparr>writeout_idx := writeout_idx (ts_state y) + len\<rparr>, ts_writer := Scanning\<rparr>)
      | _ \<Rightarrow> None)"
| "trace_step N now Stop y =
     (if ts_writer y = Scanning
         \<and> get_trace_record N (writeout_idx (ts_state y) mod of_nat N) (trace_buf (ts_state y)) = None
      then Some (y\<lparr>ts_writer := Waiting\<rparr>) else None)"

fun trace_run :: "nat \<Rightarrow> u64 \<Rightarrow> trace_act list \<Rightarrow> trace_sys \<Rightarrow> trace_sys option" where
  "trace_run N now [] y = Some y"
| "trace_run N now (a # acts) y = (case trace_step N now a y of None \<Rightarrow> None | Some z \<Rightarrow> trace_run N now acts z)"

text \<open>
  The loop of the writing thread from its waking on, as long as the other threads
  stand still; \<open>None\<close> when more than \<open>n\<close> rounds are needed.
\<close>

fun writeout :: "nat \<Rightarrow> u64 \<Rightarrow> nat \<Rightarrow> trace_sys \<Rightarrow> trace_sys option" where
  "writeout N now 0 y = None"
| "writeout N now (Suc n) y =
     (case trace_step N now Take y of
        None \<Rightarrow> trace_step N now Stop y
      | Some y \<Rightarrow> (case trace_step N now Advance y of None \<Rightarrow> None | Some y \<Rightarrow> writeout N now n y))"

text \<open>The mapping of the events (\<open>st_write_event_mapping\<close>): identifier and name of each.\<close>

definition event_mapping :: "(u64 \<times> u8 list) list \<Rightarrow> u8 list" where
  "event_mapping events =
     concat (map (\<lambda>(ident, name). le_bytes 8 0 @ le_bytes 8 (unat ident) @ le_bytes 4 (length name) @ name) events)"

text \<open>
  The state after \<open>st_init\<close> and the enabling of a trace file: the header and the
  mapping of the events that the build has are in the file.
\<close>

definition trace_log_header :: "u8 list" where
  "trace_log_header = le_bytes 8 (2 ^ 64 - 1) @ le_bytes 8 0xf2b177cb0aa429b4 @ le_bytes 8 4"

definition st_init :: "nat \<Rightarrow> u32 \<Rightarrow> (u64 \<times> u8 list) list \<Rightarrow> trace_sys" where
  "st_init N pid events =
     \<lparr>ts_state = \<lparr>trace_buf = replicate N 0, trace_idx = 0, writeout_idx = 0, dropped_events = 0,
        trace_available = True, trace_writeout_enabled = True, trace_pid = pid,
        trace_fp = trace_log_header @ event_mapping events\<rparr>,
      ts_producers = (\<lambda>_. None), ts_writer = Waiting\<rparr>"

end
