(* ===== verification/TraceInvariant.thy ===== *)
theory TraceInvariant
  imports TraceBuffer
begin

text \<open>
  The ring of \<open>TraceBuffer\<close> holds the records that are reserved and not yet
  released, one after the other from the position of the writing thread on, and
  zeros everywhere else.  Every step of every thread keeps this, and with it
  follows what the trace file contains.
\<close>

section \<open>The ring seen from a position\<close>

definition ring_len :: "nat \<Rightarrow> bool" where
  "ring_len N \<longleftrightarrow> N dvd 2 ^ 32 \<and> 24 \<le> N \<and> 2 * N < 2 ^ 32"

lemma ring_len_source: "ring_len TRACE_BUF_LEN"
proof -
  have "(4294967296 :: nat) = 4194304 * 1024" by simp
  then have "(4194304 :: nat) dvd 4294967296" by (metis dvd_triv_left)
  then show ?thesis by (simp add: ring_len_def TRACE_BUF_LEN_def)
qed

definition ring_view :: "nat \<Rightarrow> nat \<Rightarrow> u8 list \<Rightarrow> u8 list" where
  "ring_view N W buf = map (\<lambda>i. buf ! ((W + i) mod N)) [0..<N]"

lemma length_ring_view [simp]: "length (ring_view N W buf) = N"
  by (simp add: ring_view_def)

lemma mod_pos_inj:
  assumes "i < N" "j < N" "(W + i) mod N = (W + j) mod (N :: nat)"
  shows "i = j"
proof -
  have "(int W + int i) mod int N = (int W + int j) mod int N"
    using assms(3) by (metis of_nat_add zmod_int)
  then have "int i mod int N = int j mod int N"
    by (metis add_diff_cancel_left' mod_diff_left_eq)
  then show ?thesis using assms(1,2) by (simp flip: zmod_int)
qed

lemma view_update:
  assumes "length buf = N" "i < N"
  shows "ring_view N W (buf[(W + i) mod N := x]) = (ring_view N W buf)[i := x]"
proof (rule nth_equalityI)
  fix k
  assume "k < length (ring_view N W (buf[(W + i) mod N := x]))"
  then have k: "k < N" by simp
  then show "ring_view N W (buf[(W + i) mod N := x]) ! k = (ring_view N W buf)[i := x] ! k"
    using assms mod_pos_inj [of k N i W] by (auto simp: ring_view_def nth_list_update)
qed simp

lemma unat_wrap_idx:
  assumes "0 < N" "N < 2 ^ 32"
  shows "unat (wrap_idx N idx) = unat idx mod N"
proof -
  have "unat (of_nat N :: u32) = N" using assms by (simp add: unat_of_nat)
  then show ?thesis by (simp add: wrap_idx_def unat_mod_distrib)
qed

lemma unat_wrap_Suc:
  assumes "0 < N" "N < 2 ^ 32"
  shows "unat (wrap_idx N idx + 1) = unat idx mod N + 1"
proof -
  have "unat (wrap_idx N idx) < N" using assms by (simp add: unat_wrap_idx)
  then have "unat (wrap_idx N idx) + unat (1 :: u32) < 2 ^ LENGTH(32)" using assms(2) by simp
  then have "unat (wrap_idx N idx + 1) = unat (wrap_idx N idx) + unat (1 :: u32)" by (rule unat_add_lem [THEN iffD1])
  then show ?thesis using assms by (simp add: unat_wrap_idx)
qed

text \<open>Writing at offset \<open>k\<close> of the ring_view.\<close>

definition overwrite :: "nat \<Rightarrow> u8 list \<Rightarrow> u8 list \<Rightarrow> u8 list" where
  "overwrite k xs v = take k v @ xs @ drop (k + length xs) v"

lemma overwrite_Nil [simp]: "overwrite k [] v = v"
  by (simp add: overwrite_def)

lemma overwrite_Cons: "k < length v \<Longrightarrow> overwrite (Suc k) xs (v[k := x]) = overwrite k (x # xs) v"
  by (simp add: overwrite_def take_Suc_conv_app_nth drop_update_cancel take_update_cancel)

lemma length_overwrite: "k + length xs \<le> length v \<Longrightarrow> length (overwrite k xs v) = length v"
  by (simp add: overwrite_def)

lemma write_to_buffer_view:
  assumes "0 < N" "N < 2 ^ 32" "length buf = N" "unat idx mod N = (W + k) mod N" "k + length xs \<le> N"
  shows "length (snd (write_to_buffer N idx xs buf)) = N
    \<and> ring_view N W (snd (write_to_buffer N idx xs buf)) = overwrite k xs (ring_view N W buf)
    \<and> unat (fst (write_to_buffer N idx xs buf)) mod N = (W + k + length xs) mod N"
  using assms
proof (induction xs arbitrary: idx buf k)
  case (Cons x xs)
  let ?i = "wrap_idx N idx" and ?b = "buf[(W + k) mod N := x]"
  have u: "unat ?i = (W + k) mod N" using Cons.prems unat_wrap_idx by simp
  have n: "unat (?i + 1) mod N = (W + Suc k) mod N"
    using Cons.prems unat_wrap_Suc [of N idx] by (simp add: mod_Suc_eq)
  have k: "k < N" using Cons.prems by simp
  have w: "write_to_buffer N idx (x # xs) buf = write_to_buffer N (?i + 1) xs ?b" by (simp add: u Let_def)
  note ih = Cons.IH [of ?b "?i + 1" "Suc k"]
  show ?case unfolding w using ih n Cons.prems k by (simp_all add: view_update overwrite_Cons)
qed (simp_all)

lemma clear_is_write: "clear_buffer_range N idx n buf = snd (write_to_buffer N idx (replicate n 0) buf)"
  by (induction n arbitrary: idx buf) (simp_all add: Let_def)

lemma read_from_buffer_view:
  assumes "0 < N" "N < 2 ^ 32" "unat idx mod N = (W + k) mod N" "k + n \<le> N"
  shows "read_from_buffer N idx n buf = take n (drop k (ring_view N W buf))"
  using assms
proof (induction n arbitrary: idx k)
  case (Suc n)
  have u: "unat (wrap_idx N idx) = (W + k) mod N" using Suc.prems unat_wrap_idx by simp
  have n: "unat (wrap_idx N idx + 1) mod N = (W + Suc k) mod N"
    using Suc.prems unat_wrap_Suc [of N idx] by (simp add: mod_Suc_eq)
  have k: "k < N" using Suc.prems by simp
  have "drop k (ring_view N W buf) = buf ! ((W + k) mod N) # drop (Suc k) (ring_view N W buf)"
    using k by (subst Cons_nth_drop_Suc [symmetric]) (simp_all add: ring_view_def)
  then show ?case using Suc.IH [OF Suc.prems(1,2) n] Suc.prems(4) u by (simp add: Let_def)
qed simp

lemma view_advance:
  assumes "l \<le> N"
  shows "ring_view N (W + l) buf = drop l (ring_view N W buf) @ take l (ring_view N W buf)"
proof (rule nth_equalityI)
  fix i
  assume "i < length (ring_view N (W + l) buf)"
  then have i: "i < N" by simp
  show "ring_view N (W + l) buf ! i = (drop l (ring_view N W buf) @ take l (ring_view N W buf)) ! i"
  proof (cases "i < N - l")
    case True
    then have "l + i < N" by simp
    then show ?thesis using True i assms by (simp add: ring_view_def nth_append add.assoc)
  next
    case False
    define m where "m = i - (N - l)"
    have m: "m < l" "W + l + i = W + m + N" using i False assms by (simp_all add: m_def)
    have "(W + l + i) mod N = (W + m) mod N" by (simp only: m(2) mod_add_self2)
    then have "ring_view N (W + l) buf ! i = ring_view N W buf ! m" using i m(1) assms by (simp add: ring_view_def)
    also have "\<dots> = (drop l (ring_view N W buf) @ take l (ring_view N W buf)) ! i"
      using False m(1) by (simp add: nth_append m_def)
    finally show ?thesis .
  qed
qed (use assms in simp)

lemma write_append:
  "write_to_buffer N idx (xs @ ys) buf = (case write_to_buffer N idx xs buf of (i, b) \<Rightarrow> write_to_buffer N i ys b)"
  by (induction xs arbitrary: idx buf) (simp_all add: Let_def)

section \<open>Records in the ring\<close>

text \<open>
  An entry is a reserved record: \<open>E_filling k\<close> has its header and \<open>k\<close> arguments,
  \<open>E_taken\<close> is copied to the file and cleared, but its bytes are not released.
\<close>

datatype entry_st = E_reserved | E_filling nat | E_done | E_taken

record entry =
  en_thread :: nat
  en_event :: u32
  en_time :: u64
  en_args :: "trace_arg list"
  en_st :: entry_st

definition entry_len :: "entry \<Rightarrow> nat" where
  "entry_len e = 24 + args_size (en_args e)"

definition header_of :: "u32 \<Rightarrow> u64 \<Rightarrow> entry \<Rightarrow> u8 list" where
  "header_of pid flag e = record_header (ucast (en_event e) OR flag) (en_time e) (of_nat (entry_len e)) pid"

definition args_image :: "nat \<Rightarrow> entry \<Rightarrow> u8 list" where
  "args_image k e = concat (map arg_bytes (take k (en_args e))) @ replicate (args_size (drop k (en_args e))) 0"

definition record_image :: "u32 \<Rightarrow> entry \<Rightarrow> u8 list" where
  "record_image pid e =
     (case en_st e of
        E_filling k \<Rightarrow> header_of pid 0 e @ args_image k e
      | E_done \<Rightarrow> header_of pid TRACE_RECORD_VALID e @ concat (map arg_bytes (en_args e))
      | _ \<Rightarrow> replicate (entry_len e) 0)"

definition total_len :: "entry list \<Rightarrow> nat" where
  "total_len q = sum_list (map entry_len q)"

lemma total_len_simps [simp]: "total_len [] = 0" "total_len (e # q) = entry_len e + total_len q" "total_len (q @ r) = total_len q + total_len r"
  by (simp_all add: total_len_def)

lemma length_header [simp]: "length (record_header a b c d) = 24"
  by (simp add: record_header_def)

lemma args_size_simps [simp]:
  "args_size [] = 0" "args_size (a # as) = length (arg_bytes a) + args_size as" "args_size (as @ bs) = args_size as + args_size bs"
  by (simp_all add: args_size_def)

lemma length_concat_args: "length (concat (map arg_bytes as)) = args_size as"
  by (induction as) simp_all

lemma args_size_split: "args_size (take k as) + args_size (drop k as) = args_size as"
  by (metis append_take_drop_id args_size_simps(3))

lemma length_record_image [simp]: "length (record_image pid e) = entry_len e"
  using args_size_split [of _ "en_args e"]
  by (simp add: record_image_def entry_len_def header_of_def args_image_def length_concat_args split: entry_st.split)

lemma length_concat_record_image: "length (concat (map (record_image pid) q)) = total_len q"
  by (induction q) simp_all

lemma entry_len_ge: "24 \<le> entry_len e"
  by (simp add: entry_len_def)

lemma word_of_le_bytes:
  "word_of_nat (unat (v :: u64) mod 18446744073709551616) = v" "word_of_nat (unat (w :: u32) mod 4294967296) = w"
  using unsigned_less [of v, where ?'a = nat] unsigned_less [of w, where ?'a = nat] by simp_all

lemma u64_at_header: "u64_at 0 (record_header ev ts len pid @ r) = ev"
  by (simp add: u64_at_def slice_def record_header_def le_value_bytes word_of_le_bytes)

lemma u64_at_header0: "u64_at 0 (record_header ev ts len pid) = ev"
  using u64_at_header [of ev ts len pid "[]"] by simp

lemma u32_at_header: "u32_at 16 (record_header ev ts len pid @ r) = len"
  by (simp add: u32_at_def slice_def record_header_def le_value_bytes word_of_le_bytes)

lemma u32_at_header0: "u32_at 16 (record_header ev ts len pid) = len"
  using u32_at_header [of ev ts len pid "[]"] by simp

lemma drop_8_header: "le_bytes 8 (unat ev') @ drop 8 (record_header ev ts len pid @ r) = record_header ev' ts len pid @ r"
  by (simp add: record_header_def)

definition ring_ok :: "nat \<Rightarrow> u32 \<Rightarrow> nat \<Rightarrow> entry list \<Rightarrow> u8 list \<Rightarrow> bool" where
  "ring_ok N pid W q buf \<longleftrightarrow> length buf = N \<and> total_len q \<le> N
     \<and> ring_view N W buf = concat (map (record_image pid) q) @ replicate (N - total_len q) 0"

lemma overwrite_middle:
  assumes "k + length xs \<le> length b"
  shows "overwrite (length a + k) xs (a @ b @ c) = a @ overwrite k xs b @ c"
  using assms by (simp add: overwrite_def)

lemma ring_write:
  assumes N: "ring_len N" and r: "ring_ok N pid W (q1 @ e # q2) buf"
    and i: "unat idx mod N = (W + total_len q1 + k) mod N" and k: "k + length xs \<le> entry_len e"
    and e: "record_image pid e' = overwrite k xs (record_image pid e)" "entry_len e' = entry_len e"
  shows "ring_ok N pid W (q1 @ e' # q2) (snd (write_to_buffer N idx xs buf))"
    "unat (fst (write_to_buffer N idx xs buf)) mod N = (W + total_len q1 + k + length xs) mod N"
proof -
  have n: "0 < N" "N < 2 ^ 32" using N by (simp_all add: ring_len_def)
  have l: "length buf = N" "total_len q1 + k + length xs \<le> N" using r k by (simp_all add: ring_ok_def)
  note w = write_to_buffer_view [OF n l(1), of idx W "total_len q1 + k" xs]
  have "ring_view N W (snd (write_to_buffer N idx xs buf)) = overwrite (total_len q1 + k) xs (ring_view N W buf)"
    using w i l(2) by (simp add: add.assoc)
  also have "\<dots> = concat (map (record_image pid) q1) @ record_image pid e' @ concat (map (record_image pid) q2) @ replicate (N - total_len (q1 @ e # q2)) 0"
    using r overwrite_middle [of k xs "record_image pid e" "concat (map (record_image pid) q1)"] k e(1)
    by (simp add: ring_ok_def length_concat_record_image)
  finally show "ring_ok N pid W (q1 @ e' # q2) (snd (write_to_buffer N idx xs buf))"
    using r w i l(2) e(2) by (simp add: ring_ok_def add.assoc)
  show "unat (fst (write_to_buffer N idx xs buf)) mod N = (W + total_len q1 + k + length xs) mod N"
    using w i l(2) by (simp add: add.assoc)
qed

lemma ring_read:
  assumes N: "ring_len N" and r: "ring_ok N pid W (q1 @ e # q2) buf"
    and i: "unat idx mod N = (W + total_len q1) mod N" and n: "n \<le> entry_len e"
  shows "read_from_buffer N idx n buf = take n (record_image pid e)"
proof -
  have l: "total_len q1 + n \<le> N" using r n by (simp add: ring_ok_def)
  have "read_from_buffer N idx n buf = take n (drop (total_len q1) (ring_view N W buf))"
    by (rule read_from_buffer_view) (use N i l in \<open>simp_all add: ring_len_def\<close>)
  then show ?thesis using r n by (simp add: ring_ok_def length_concat_record_image)
qed

lemma ring_reserve:
  assumes "ring_ok N pid W q buf" "total_len q + entry_len e \<le> N" "en_st e = E_reserved"
  shows "ring_ok N pid W (q @ [e]) buf"
proof -
  have "replicate (N - total_len q) (0 :: u8) = replicate (entry_len e) 0 @ replicate (N - (total_len q + entry_len e)) 0"
    using assms(2) by (simp flip: replicate_add)
  then show ?thesis using assms by (simp add: ring_ok_def record_image_def)
qed

lemma ring_release:
  assumes "ring_ok N pid W (e # q) buf" "en_st e = E_taken"
  shows "ring_ok N pid (W + entry_len e) q buf"
proof -
  have l: "entry_len e \<le> N" using assms(1) by (simp add: ring_ok_def)
  have "replicate (N - total_len q) (0 :: u8) = replicate (N - (entry_len e + total_len q)) 0 @ replicate (entry_len e) 0"
    using assms(1) by (simp add: ring_ok_def flip: replicate_add)
  then show ?thesis using assms view_advance [OF l, of W buf] by (simp add: ring_ok_def record_image_def)
qed

section \<open>The invariant\<close>

type_synonym event_spec = "u32 \<times> u64 \<times> trace_arg list"

definition spec_of :: "entry \<Rightarrow> event_spec" where
  "spec_of e = (en_event e, en_time e, en_args e)"

fun event_bytes :: "u32 \<Rightarrow> event_spec \<Rightarrow> u8 list" where
  "event_bytes pid (event, time, args) =
     le_bytes 8 1 @ record_header (ucast event) time (of_nat (24 + args_size args)) pid @ concat (map arg_bytes args)"

fun is_open :: "entry_st \<Rightarrow> bool" where
  "is_open E_reserved = True"
| "is_open (E_filling k) = True"
| "is_open _ = False"

definition open_entries :: "entry list \<Rightarrow> entry list" where
  "open_entries q = filter (\<lambda>e. is_open (en_st e)) q"

lemma open_entries_simps [simp]:
  "open_entries [] = []" "open_entries (e # q) = (if is_open (en_st e) then e # open_entries q else open_entries q)"
  "open_entries (q @ r) = open_entries q @ open_entries r"
  by (simp_all add: open_entries_def)

definition producer_ok :: "nat \<Rightarrow> nat \<Rightarrow> entry \<Rightarrow> producer \<Rightarrow> bool" where
  "producer_ok N pos e p \<longleftrightarrow>
     pr_event p = en_event e \<and> pr_time p = en_time e \<and> pr_len p = of_nat (entry_len e)
     \<and> unat (pr_idx p) = pos mod N
     \<and> (case en_st e of
          E_reserved \<Rightarrow> pr_rec p = None \<and> pr_left p = en_args e
        | E_filling k \<Rightarrow> k \<le> length (en_args e) \<and> pr_left p = drop k (en_args e)
            \<and> (\<exists>r. pr_rec p = Some r \<and> tbuf_idx r = pr_idx p
                   \<and> unat (rec_off r) mod N = (pos + 24 + args_size (take k (en_args e))) mod N)
        | _ \<Rightarrow> True)"

fun producers_ok :: "nat \<Rightarrow> (nat \<Rightarrow> producer option) \<Rightarrow> nat \<Rightarrow> entry list \<Rightarrow> bool" where
  "producers_ok N P pos [] = True"
| "producers_ok N P pos (e # q) \<longleftrightarrow>
     (is_open (en_st e) \<longrightarrow> (\<exists>p. P (en_thread e) = Some p \<and> producer_ok N pos e p))
     \<and> producers_ok N P (pos + entry_len e) q"

lemma producers_ok_append [simp]:
  "producers_ok N P pos (q @ r) \<longleftrightarrow> producers_ok N P pos q \<and> producers_ok N P (pos + total_len q) r"
  by (induction q arbitrary: pos) (auto simp: add.assoc)

lemma producers_ok_upd:
  assumes "t \<notin> en_thread ` set (open_entries q)"
  shows "producers_ok N (P(t := x)) pos q = producers_ok N P pos q"
  using assms by (induction q arbitrary: pos) (auto split: if_splits)

definition no_taken :: "entry list \<Rightarrow> bool" where
  "no_taken q \<longleftrightarrow> list_all (\<lambda>e. en_st e \<noteq> E_taken) q"

fun writer_ok :: "writer_pc \<Rightarrow> entry list \<Rightarrow> bool" where
  "writer_ok (Advancing l) (e # q) \<longleftrightarrow> en_st e = E_taken \<and> l = of_nat (entry_len e) \<and> no_taken q"
| "writer_ok (Advancing l) [] \<longleftrightarrow> False"
| "writer_ok _ q \<longleftrightarrow> no_taken q"

definition pending :: "entry list \<Rightarrow> event_spec list" where
  "pending q = map spec_of (filter (\<lambda>e. en_st e \<noteq> E_taken) q)"

definition trace_rel ::
  "nat \<Rightarrow> u32 \<Rightarrow> u8 list \<Rightarrow> event_spec list \<Rightarrow> nat \<Rightarrow> entry list \<Rightarrow> event_spec list \<Rightarrow> trace_sys \<Rightarrow> bool" where
  "trace_rel N pid pre res W q out y \<longleftrightarrow>
     ring_ok N pid W q (trace_buf (ts_state y))
     \<and> writeout_idx (ts_state y) = of_nat W \<and> trace_idx (ts_state y) = of_nat (W + total_len q)
     \<and> trace_pid (ts_state y) = pid \<and> dropped_events (ts_state y) = 0 \<and> trace_writeout_enabled (ts_state y)
     \<and> producers_ok N (ts_producers y) W q
     \<and> distinct (map en_thread (open_entries q))
     \<and> dom (ts_producers y) = en_thread ` set (open_entries q)
     \<and> writer_ok (ts_writer y) q
     \<and> trace_fp (ts_state y) = pre @ concat (map (event_bytes pid) out)
     \<and> res = out @ pending q
     \<and> (ts_writer y = Waiting \<and> \<not> trace_available (ts_state y) \<longrightarrow> open_entries q \<noteq> [] \<or> total_len q \<le> N div 4)"

definition trace_inv :: "nat \<Rightarrow> u32 \<Rightarrow> u8 list \<Rightarrow> event_spec list \<Rightarrow> trace_sys \<Rightarrow> bool" where
  "trace_inv N pid pre res y \<longleftrightarrow> (\<exists>W q out. trace_rel N pid pre res W q out y)"

lemma pending_simps [simp]:
  "pending [] = []" "pending (e # q) = (if en_st e = E_taken then pending q else spec_of e # pending q)"
  "pending (q @ r) = pending q @ pending r"
  by (simp_all add: pending_def)

lemma no_taken_simps [simp]:
  "no_taken []" "no_taken (e # q) \<longleftrightarrow> en_st e \<noteq> E_taken \<and> no_taken q" "no_taken (q @ r) \<longleftrightarrow> no_taken q \<and> no_taken r"
  by (simp_all add: no_taken_def)

lemma writer_ok_replace:
  assumes "writer_ok w (q1 @ e # q2)" "en_st e \<noteq> E_taken" "en_st e' \<noteq> E_taken"
  shows "writer_ok w (q1 @ e' # q2)"
  using assms by (cases w; cases q1) auto

lemma writer_ok_snoc:
  assumes "writer_ok w q" "en_st e \<noteq> E_taken"
  shows "writer_ok w (q @ [e])"
  using assms by (cases w; cases q) auto

lemma unat_of_nat_mod:
  assumes "ring_len N"
  shows "unat (of_nat x :: u32) mod N = x mod N"
  using assms by (simp add: ring_len_def unat_of_nat mod_mod_cancel)

lemma unat_mod_ring:
  assumes "ring_len N"
  shows "unat (of_nat x mod of_nat N :: u32) = x mod N"
proof -
  have "unat (of_nat N :: u32) = N" using assms by (simp add: ring_len_def unat_of_nat)
  then show ?thesis using unat_of_nat_mod [OF assms, of x] by (simp add: unat_mod_distrib)
qed

lemma open_entry:
  assumes "trace_rel N pid pre res W q out y" "ts_producers y t = Some p"
  obtains q1 e q2 where "q = q1 @ e # q2" "en_thread e = t" "is_open (en_st e)" "producer_ok N (W + total_len q1) e p"
    "t \<notin> en_thread ` set (open_entries q1)" "t \<notin> en_thread ` set (open_entries q2)"
proof -
  have "t \<in> en_thread ` set (open_entries q)"
    using assms by (auto simp: trace_rel_def dom_def)
  then obtain e where e: "e \<in> set q" "is_open (en_st e)" "en_thread e = t"
    by (auto simp: open_entries_def)
  obtain q1 q2 where q: "q = q1 @ e # q2" using split_list [OF e(1)] by blast
  show thesis
    by (rule that [OF q e(3,2)]) (use assms e q in \<open>auto simp: trace_rel_def\<close>)
qed

section \<open>Every step keeps it\<close>

fun reservation :: "trace_act \<Rightarrow> event_spec list" where
  "reservation (Reserve t event time args) = [(event, time, args)]"
| "reservation _ = []"

fun fits :: "nat \<Rightarrow> trace_act \<Rightarrow> bool" where
  "fits N (Reserve t event time args) \<longleftrightarrow> 24 + args_size args \<le> N"
| "fits N _ \<longleftrightarrow> True"

definition only_buffer :: "trace_state \<Rightarrow> trace_state \<Rightarrow> bool" where
  "only_buffer s s' \<longleftrightarrow> trace_idx s' = trace_idx s \<and> writeout_idx s' = writeout_idx s
     \<and> dropped_events s' = dropped_events s \<and> trace_pid s' = trace_pid s \<and> trace_fp s' = trace_fp s
     \<and> trace_writeout_enabled s' = trace_writeout_enabled s \<and> (trace_available s \<longrightarrow> trace_available s')"

lemma rel_replace:
  assumes rel: "trace_rel N pid pre res W (q1 @ e # q2) out y" and "is_open (en_st e)"
    and t: "en_thread e \<notin> en_thread ` set (open_entries q1)" "en_thread e \<notin> en_thread ` set (open_entries q2)"
    and e': "spec_of e' = spec_of e" "en_thread e' = en_thread e" "en_st e' \<noteq> E_taken"
    and ring: "ring_ok N pid W (q1 @ e' # q2) (trace_buf s')" and s': "only_buffer (ts_state y) s'"
    and x: "if is_open (en_st e') then \<exists>p. x = Some p \<and> producer_ok N (W + total_len q1) e' p
            else x = None \<and> (N div 4 < total_len (q1 @ e # q2) \<longrightarrow> trace_available s')"
  shows "trace_rel N pid pre res W (q1 @ e' # q2) out (y\<lparr>ts_state := s', ts_producers := (ts_producers y)(en_thread e := x)\<rparr>)"
proof -
  have len: "entry_len e' = entry_len e" using e'(1) by (simp add: spec_of_def entry_len_def)
  have nt: "en_st e \<noteq> E_taken" using assms(2) by auto
  have d: "dom ((ts_producers y)(en_thread e := x)) = en_thread ` set (open_entries (q1 @ e' # q2))"
  proof -
    let ?A = "en_thread ` set (open_entries q1)" and ?B = "en_thread ` set (open_entries q2)"
    have P: "dom (ts_producers y) = insert (en_thread e) (?A \<union> ?B)"
      using rel assms(2) by (simp add: trace_rel_def image_Un)
    have "insert (en_thread e) (?A \<union> ?B) - {en_thread e} = ?A \<union> ?B" using t by blast
    then show ?thesis using x e'(2) P by (cases "is_open (en_st e')") (auto simp: image_Un)
  qed
  have p: "producers_ok N ((ts_producers y)(en_thread e := x)) W (q1 @ e' # q2)"
    using rel x e'(2) len by (auto simp: trace_rel_def producers_ok_upd [OF t(1)] producers_ok_upd [OF t(2)] split: if_splits)
  have w: "writer_ok (ts_writer y) (q1 @ e' # q2)"
    using rel writer_ok_replace [OF _ nt e'(3)] by (simp add: trace_rel_def)
  have dist: "distinct (map en_thread (open_entries (q1 @ e' # q2)))"
    using rel assms(2) e'(2) by (simp add: trace_rel_def)
  have av: "open_entries (q1 @ e' # q2) \<noteq> [] \<or> total_len (q1 @ e' # q2) \<le> N div 4"
    if "ts_writer y = Waiting" "\<not> trace_available s'"
    using x that(2) len by (cases "is_open (en_st e')") auto
  show ?thesis
    unfolding trace_rel_def
    using rel ring s' d p w dist av len e'(1,3) nt
    by (simp add: trace_rel_def only_buffer_def)
qed

lemma rel_reserve:
  assumes N: "ring_len N" and rel: "trace_rel N pid pre res W q out y"
    and step: "trace_step N now (Reserve t event time args) y = Some z" and fit: "24 + args_size args \<le> N"
  shows "trace_rel N pid pre (res @ [(event, time, args)]) W
           (q @ [\<lparr>en_thread = t, en_event = event, en_time = time, en_args = args, en_st = E_reserved\<rparr>]) out z"
proof -
  let ?len = "24 + args_size args" and ?s = "ts_state y"
  let ?e = "\<lparr>en_thread = t, en_event = event, en_time = time, en_args = args, en_st = E_reserved\<rparr>"
  have idx: "writeout_idx ?s = of_nat W" "trace_idx ?s = of_nat (W + total_len q)" and ring: "ring_ok N pid W q (trace_buf ?s)"
    using rel by (simp_all add: trace_rel_def)
  have tot: "total_len q \<le> N" using ring by (simp add: ring_ok_def)
  have el: "entry_len ?e = ?len" by (simp add: entry_len_def)
  have dist: "trace_idx ?s + of_nat ?len - writeout_idx ?s = of_nat (total_len q + ?len)"
    by (simp add: idx)
  have u: "unat (of_nat (total_len q + ?len) :: u32) = total_len q + ?len"
    unfolding unat_of_nat using tot fit N by (intro mod_less) (simp add: ring_len_def)
  have room: "total_len q + ?len \<le> N" and t: "ts_producers y t = None"
    and z: "z = y\<lparr>ts_state := ?s\<lparr>trace_idx := trace_idx ?s + of_nat ?len\<rparr>, ts_producers := (ts_producers y)(t \<mapsto>
      \<lparr>pr_idx = trace_idx ?s mod of_nat N, pr_event = event, pr_time = time, pr_len = of_nat ?len, pr_rec = None, pr_left = args\<rparr>)\<rparr>"
    using step unfolding trace_step.simps reserve_record_def Let_def dist u
    by (auto split: if_splits)
  have nt: "t \<notin> en_thread ` set (open_entries q)" using rel t by (auto simp: trace_rel_def)
  have p: "producer_ok N (W + total_len q) ?e
      \<lparr>pr_idx = trace_idx ?s mod of_nat N, pr_event = event, pr_time = time, pr_len = of_nat ?len, pr_rec = None, pr_left = args\<rparr>"
    unfolding producer_ok_def el idx using unat_mod_ring [OF N, of "W + total_len q"] by simp
  have r: "ring_ok N pid W (q @ [?e]) (trace_buf ?s)"
    using ring_reserve [OF ring] room by (simp add: entry_len_def)
  have w: "writer_ok (ts_writer y) (q @ [?e])"
    using rel writer_ok_snoc [of "ts_writer y" q ?e] by (simp add: trace_rel_def)
  show ?thesis
    using rel r w p nt unfolding z trace_rel_def
    by (auto simp: producers_ok_upd spec_of_def entry_len_def)
qed

lemma write_record_header_eq:
  "write_record_header N idx event time len s =
     (\<lparr>tbuf_idx = idx, rec_off = (idx + 24) mod of_nat N\<rparr>,
      s\<lparr>trace_buf := snd (write_to_buffer N idx (record_header (ucast event) time len (trace_pid s)) (trace_buf s))\<rparr>)"
  by (simp add: write_record_header_def record_header_def write_append split_beta Let_def)

lemma write_arg_eq:
  "write_arg N a r s =
     (r\<lparr>rec_off := fst (write_to_buffer N (rec_off r) (arg_bytes a) (trace_buf s))\<rparr>,
      s\<lparr>trace_buf := snd (write_to_buffer N (rec_off r) (arg_bytes a) (trace_buf s))\<rparr>)"
  by (cases a) (simp_all add: trace_record_write_u64_def trace_record_write_str_def write_append split_beta Let_def)

lemma rel_header:
  assumes N: "ring_len N" and rel: "trace_rel N pid pre res W q out y"
    and step: "trace_step N now (Header t) y = Some z"
  shows "\<exists>q'. trace_rel N pid pre res W q' out z"
proof -
  obtain p where p: "ts_producers y t = Some p" "pr_rec p = None"
    using step by (auto split: option.splits if_splits)
  from open_entry [OF rel p(1)] obtain q1 e q2 where q: "q = q1 @ e # q2" "en_thread e = t" "is_open (en_st e)"
    "producer_ok N (W + total_len q1) e p" "t \<notin> en_thread ` set (open_entries q1)" "t \<notin> en_thread ` set (open_entries q2)" .
  have st: "en_st e = E_reserved" using q(3,4) p(2) by (auto simp: producer_ok_def split: entry_st.splits)
  define e' where "e' = e\<lparr>en_st := E_filling 0\<rparr>"
  let ?xs = "record_header (ucast (pr_event p)) (pr_time p) (pr_len p) (trace_pid (ts_state y))"
  let ?r = "\<lparr>tbuf_idx = pr_idx p, rec_off = (pr_idx p + 24) mod of_nat N\<rparr>"
  have z: "z = y\<lparr>ts_state := (ts_state y)\<lparr>trace_buf := snd (write_to_buffer N (pr_idx p) ?xs (trace_buf (ts_state y)))\<rparr>,
      ts_producers := (ts_producers y)(t \<mapsto> p\<lparr>pr_rec := Some ?r\<rparr>)\<rparr>"
    using step p by (simp add: write_record_header_eq)
  have xs: "?xs = header_of pid 0 e"
    using rel q(4) by (simp add: header_of_def producer_ok_def trace_rel_def)
  have i: "unat (pr_idx p) mod N = (W + total_len q1 + 0) mod N" using q(4) by (simp add: producer_ok_def)
  have ring: "ring_ok N pid W (q1 @ e' # q2) (snd (write_to_buffer N (pr_idx p) ?xs (trace_buf (ts_state y))))"
    unfolding xs
    by (rule ring_write(1) [OF N _ i])
       (use rel q(1) st in \<open>simp_all add: trace_rel_def entry_len_def header_of_def record_image_def e'_def args_image_def overwrite_def\<close>)
  have off: "unat ((pr_idx p + 24) mod of_nat N) = (W + total_len q1 + 24) mod N"
  proof -
    have "of_nat (unat (pr_idx p) + 24) = pr_idx p + 24" by simp
    then show ?thesis using unat_mod_ring [OF N, of "unat (pr_idx p) + 24"] i by (metis add.right_neutral mod_add_left_eq)
  qed
  have pr: "producer_ok N (W + total_len q1) e' (p\<lparr>pr_rec := Some ?r\<rparr>)"
    using q(4) st off by (simp add: producer_ok_def e'_def entry_len_def)
  have "trace_rel N pid pre res W (q1 @ e' # q2) out z"
    unfolding z q(2) [symmetric]
    by (rule rel_replace [OF rel [unfolded q(1)] q(3)])
       (use q ring pr in \<open>simp_all add: e'_def spec_of_def only_buffer_def\<close>)
  then show ?thesis ..
qed

lemma args_image_step:
  assumes "k < length (en_args e)" "a = en_args e ! k"
  shows "overwrite (24 + args_size (take k (en_args e))) (arg_bytes a) (header_of pid 0 e @ args_image k e)
         = header_of pid 0 e @ args_image (Suc k) e"
proof -
  have d: "drop k (en_args e) = a # drop (Suc k) (en_args e)" using assms by (simp add: Cons_nth_drop_Suc)
  have t: "take (Suc k) (en_args e) = take k (en_args e) @ [a]" using assms by (simp add: take_Suc_conv_app_nth)
  show ?thesis
    by (simp add: overwrite_def args_image_def d t header_of_def length_concat_args replicate_add)
qed

lemma rel_write:
  assumes N: "ring_len N" and rel: "trace_rel N pid pre res W q out y"
    and step: "trace_step N now (Write t) y = Some z"
  shows "\<exists>q'. trace_rel N pid pre res W q' out z"
proof -
  obtain p r a args where p: "ts_producers y t = Some p" "pr_rec p = Some r" "pr_left p = a # args"
    using step by (auto split: option.splits list.splits)
  from open_entry [OF rel p(1)] obtain q1 e q2 where q: "q = q1 @ e # q2" "en_thread e = t" "is_open (en_st e)"
    "producer_ok N (W + total_len q1) e p" "t \<notin> en_thread ` set (open_entries q1)" "t \<notin> en_thread ` set (open_entries q2)" .
  obtain k where st: "en_st e = E_filling k" using q(3,4) p(2) by (auto simp: producer_ok_def split: entry_st.splits)
  have k: "drop k (en_args e) = a # args" and i: "unat (rec_off r) mod N = (W + total_len q1 + (24 + args_size (take k (en_args e)))) mod N"
    using q(4) st p(2,3) by (simp_all add: producer_ok_def add.assoc)
  have kl: "k < length (en_args e)" "a = en_args e ! k" "drop (Suc k) (en_args e) = args"
    using k by (metis drop_all list.distinct(1) not_less, metis nth_via_drop, metis drop_Suc list.sel(3) tl_drop)
  have tk: "take (Suc k) (en_args e) = take k (en_args e) @ [a]" using kl by (simp add: take_Suc_conv_app_nth)
  define e' where "e' = e\<lparr>en_st := E_filling (Suc k)\<rparr>"
  let ?w = "write_to_buffer N (rec_off r) (arg_bytes a) (trace_buf (ts_state y))"
  have z: "z = y\<lparr>ts_state := (ts_state y)\<lparr>trace_buf := snd ?w\<rparr>,
      ts_producers := (ts_producers y)(t \<mapsto> p\<lparr>pr_rec := Some (r\<lparr>rec_off := fst ?w\<rparr>), pr_left := args\<rparr>)\<rparr>"
    using step p by (simp add: write_arg_eq)
  have fit: "24 + args_size (take k (en_args e)) + length (arg_bytes a) \<le> entry_len e"
    using args_size_split [of k "en_args e"] k by (simp add: entry_len_def)
  have im: "record_image pid e' = overwrite (24 + args_size (take k (en_args e))) (arg_bytes a) (record_image pid e)"
    using args_image_step [OF kl(1,2), of pid] st by (simp add: record_image_def e'_def header_of_def args_image_def entry_len_def)
  have re: "ring_ok N pid W (q1 @ e # q2) (trace_buf (ts_state y))" using rel q(1) by (simp add: trace_rel_def)
  have le: "entry_len e' = entry_len e" by (simp add: e'_def entry_len_def)
  note w = ring_write [OF N re i fit im le]
  have pr: "producer_ok N (W + total_len q1) e' (p\<lparr>pr_rec := Some (r\<lparr>rec_off := fst ?w\<rparr>), pr_left := args\<rparr>)"
    using q(4) st p(2) w(2) kl tk by (simp add: producer_ok_def e'_def entry_len_def add.assoc)
  have "trace_rel N pid pre res W (q1 @ e' # q2) out z"
    unfolding z q(2) [symmetric]
    by (rule rel_replace [OF rel [unfolded q(1)] q(3)])
       (use q w(1) pr in \<open>simp_all add: e'_def spec_of_def only_buffer_def\<close>)
  then show ?thesis ..
qed

lemma rel_finish:
  assumes N: "ring_len N" and rel: "trace_rel N pid pre res W q out y"
    and step: "trace_step N now (Finish t) y = Some z"
  shows "\<exists>q'. trace_rel N pid pre res W q' out z"
proof -
  let ?s = "ts_state y"
  obtain p r where p: "ts_producers y t = Some p" "pr_rec p = Some r" "pr_left p = []"
    using step by (auto split: option.splits list.splits)
  from open_entry [OF rel p(1)] obtain q1 e q2 where q: "q = q1 @ e # q2" "en_thread e = t" "is_open (en_st e)"
    "producer_ok N (W + total_len q1) e p" "t \<notin> en_thread ` set (open_entries q1)" "t \<notin> en_thread ` set (open_entries q2)" .
  obtain k where st: "en_st e = E_filling k" using q(3,4) p(2) by (auto simp: producer_ok_def split: entry_st.splits)
  have k: "k = length (en_args e)" and i: "unat (tbuf_idx r) mod N = (W + total_len q1) mod N"
    using q(4) st p(2,3) by (simp_all add: producer_ok_def)
  define e' where "e' = e\<lparr>en_st := E_done\<rparr>"
  have re: "ring_ok N pid W (q1 @ e # q2) (trace_buf ?s)" using rel q(1) by (simp add: trace_rel_def)
  have rd: "read_from_buffer N (tbuf_idx r) 24 (trace_buf ?s) = header_of pid 0 e"
    using ring_read [OF N re i entry_len_ge] st by (simp add: record_image_def header_of_def)
  have wr: "le_bytes 8 (unat (u64_at 0 (header_of pid 0 e) OR TRACE_RECORD_VALID)) @ drop 8 (header_of pid 0 e) = header_of pid TRACE_RECORD_VALID e"
    using drop_8_header [where r = "[]"] by (simp add: header_of_def u64_at_header0)
  let ?b = "snd (write_to_buffer N (tbuf_idx r) (header_of pid TRACE_RECORD_VALID e) (trace_buf ?s))"
  define s' where "s' = trace_record_finish N r ?s"
  have s': "s' = (if N div 4 < total_len q then flush_trace_file (?s\<lparr>trace_buf := ?b\<rparr>) else ?s\<lparr>trace_buf := ?b\<rparr>)"
  proof -
    have "total_len q \<le> N" using rel by (simp add: trace_rel_def ring_ok_def)
    then have "unat (of_nat (total_len q) :: u32) = total_len q" unfolding unat_of_nat using N by (intro mod_less) (simp add: ring_len_def)
    then have "unat (trace_idx ?s - writeout_idx ?s) = total_len q" using rel by (simp add: trace_rel_def)
    then show ?thesis unfolding s'_def trace_record_finish_def Let_def rd wr by (simp add: split_beta)
  qed
  have z: "z = y\<lparr>ts_state := s', ts_producers := (ts_producers y)(t := None)\<rparr>"
    using step p by (simp add: s'_def)
  have "ring_ok N pid W (q1 @ e' # q2) ?b"
    by (rule ring_write(1) [OF N re, where k = 0])
       (use i st k in \<open>simp_all add: entry_len_def header_of_def record_image_def e'_def args_image_def overwrite_def\<close>)
  then have ring: "ring_ok N pid W (q1 @ e' # q2) (trace_buf s')" by (simp add: s' flush_trace_file_def)
  have "trace_rel N pid pre res W (q1 @ e' # q2) out z"
    unfolding z q(2) [symmetric]
    by (rule rel_replace [OF rel [unfolded q(1)] q(3)])
       (use q ring in \<open>simp_all add: e'_def spec_of_def only_buffer_def s' flush_trace_file_def\<close>)
  then show ?thesis ..
qed

lemma high_flag:
  fixes ev :: u32
  assumes "32 \<le> k"
  shows "(ucast ev :: u64) AND push_bit k 1 = 0" "((ucast ev :: u64) OR push_bit k 1) AND push_bit k 1 = push_bit k 1"
    "((ucast ev :: u64) OR push_bit k 1) AND NOT (push_bit k 1) = ucast ev"
proof -
  have "\<not> bit ev k" using assms bit_imp_le_length [of ev k] by auto
  then show "(ucast ev :: u64) AND push_bit k 1 = 0" "((ucast ev :: u64) OR push_bit k 1) AND push_bit k 1 = push_bit k 1"
    "((ucast ev :: u64) OR push_bit k 1) AND NOT (push_bit k 1) = ucast ev"
    by (auto intro!: bit_eqI simp: bit_simps)
qed

lemma valid_flag:
  fixes ev :: u32
  shows "(ucast ev :: u64) AND TRACE_RECORD_VALID = 0"
    "((ucast ev :: u64) OR TRACE_RECORD_VALID) AND TRACE_RECORD_VALID = TRACE_RECORD_VALID"
    "((ucast ev :: u64) OR TRACE_RECORD_VALID) AND NOT TRACE_RECORD_VALID = ucast ev"
  by (rule high_flag; simp)+

lemma u64_at_take: "u64_at 0 (take 8 xs) = u64_at 0 xs"
  by (simp add: u64_at_def slice_def)

lemma u64_at_zeros: "u64_at 0 (replicate n 0) = 0"
proof -
  have "le_value (replicate k 0) = 0" for k by (induction k) simp_all
  then show ?thesis by (simp add: u64_at_def slice_def)
qed

lemma get_nothing:
  assumes N: "ring_len N" and ring: "ring_ok N pid W q buf" and nt: "no_taken q"
    and hd: "q = [] \<or> is_open (en_st (hd q))"
  shows "get_trace_record N (of_nat W mod of_nat N) buf = None"
proof -
  let ?i = "of_nat W mod of_nat N :: u32"
  have i: "unat ?i mod N = W mod N" using N by (simp add: unat_mod_ring)
  have "u64_at 0 (read_from_buffer N ?i 8 buf) AND TRACE_RECORD_VALID = 0"
  proof (cases q)
    case Nil
    have "read_from_buffer N ?i 8 buf = take 8 (drop 0 (ring_view N W buf))"
      by (rule read_from_buffer_view) (use N i in \<open>simp_all add: ring_len_def\<close>)
    then show ?thesis using ring Nil by (simp add: ring_ok_def u64_at_take u64_at_zeros)
  next
    case (Cons e q')
    have r: "read_from_buffer N ?i 8 buf = take 8 (record_image pid e)"
      by (rule ring_read [OF N, where ?q1.0 = "[]" and ?q2.0 = q']) (use ring Cons i in \<open>simp_all add: entry_len_def\<close>)
    show ?thesis
      using hd Cons valid_flag(1) [of "en_event e"]
      by (cases "en_st e") (simp_all add: r u64_at_take record_image_def u64_at_zeros header_of_def u64_at_header u64_at_header0)
  qed
  then show ?thesis by (simp add: get_trace_record_def)
qed

lemma get_done:
  assumes N: "ring_len N" and ring: "ring_ok N pid W (e # q) buf" and st: "en_st e = E_done"
  shows "\<exists>buf'. get_trace_record N (of_nat W mod of_nat N) buf
                  = Some (header_of pid 0 e @ concat (map arg_bytes (en_args e)), buf')
               \<and> ring_ok N pid W (e\<lparr>en_st := E_taken\<rparr> # q) buf'"
proof -
  let ?i = "of_nat W mod of_nat N :: u32" and ?args = "concat (map arg_bytes (en_args e))"
  have i: "unat ?i mod N = (W + total_len []) mod N" using N by (simp add: unat_mod_ring)
  have ring': "ring_ok N pid W ([] @ e # q) buf" using ring by simp
  have rd: "read_from_buffer N ?i n buf = take n (record_image pid e)" if "n \<le> entry_len e" for n
    by (rule ring_read [OF N ring' i that])
  have im: "record_image pid e = header_of pid TRACE_RECORD_VALID e @ ?args" using st by (simp add: record_image_def)
  have le: "entry_len e < 2 ^ 32" using ring N by (simp add: ring_ok_def ring_len_def)
  have len: "unat (u32_at 16 (read_from_buffer N ?i 24 buf)) = entry_len e"
  proof -
    have "unat (of_nat (entry_len e) :: u32) = entry_len e" unfolding unat_of_nat using le by simp
    then show ?thesis by (simp add: rd [OF entry_len_ge] im header_of_def u32_at_header0)
  qed
  have flag: "u64_at 0 (read_from_buffer N ?i 8 buf) = ucast (en_event e) OR TRACE_RECORD_VALID"
    using entry_len_ge [of e] by (simp add: rd im u64_at_take header_of_def u64_at_header u64_at_header0)
  have full: "read_from_buffer N ?i (entry_len e) buf = header_of pid TRACE_RECORD_VALID e @ ?args"
    unfolding rd [OF order_refl] im [symmetric] by simp
  have rec: "le_bytes 8 (unat (u64_at 0 (header_of pid TRACE_RECORD_VALID e @ ?args) AND NOT TRACE_RECORD_VALID))
      @ drop 8 (header_of pid TRACE_RECORD_VALID e @ ?args) = header_of pid 0 e @ ?args"
    unfolding header_of_def u64_at_header drop_8_header valid_flag(3) by simp
  let ?b = "snd (write_to_buffer N ?i (replicate (entry_len e) 0) buf)"
  have le': "entry_len (e\<lparr>en_st := E_taken\<rparr>) = entry_len e" by (simp add: entry_len_def)
  then have "record_image pid (e\<lparr>en_st := E_taken\<rparr>) = replicate (entry_len e) 0" by (simp add: record_image_def)
  then have "record_image pid (e\<lparr>en_st := E_taken\<rparr>) = overwrite 0 (replicate (entry_len e) 0) (record_image pid e)"
    by (simp add: overwrite_def)
  then have "ring_ok N pid W ([] @ e\<lparr>en_st := E_taken\<rparr> # q) ?b"
    using i le' by (intro ring_write(1) [OF N ring', where k = 0]) simp_all
  moreover have "get_trace_record N ?i buf = Some (header_of pid 0 e @ ?args, ?b)"
    unfolding get_trace_record_def flag valid_flag(2) Let_def len full rec clear_is_write by simp
  ultimately show ?thesis by simp
qed

lemma take_done:
  assumes N: "ring_len N" and rel: "trace_rel N pid pre res W (e # q) out y"
    and w: "ts_writer y = Scanning" and st: "en_st e = E_done"
  shows "\<exists>z. trace_step N now Take y = Some z \<and> ts_writer z = Advancing (of_nat (entry_len e)) \<and> ts_producers z = ts_producers y
           \<and> trace_rel N pid pre res W (e\<lparr>en_st := E_taken\<rparr> # q) (out @ [spec_of e]) z"
proof -
  let ?s = "ts_state y" and ?rec = "header_of pid 0 e @ concat (map arg_bytes (en_args e))"
  have r: "ring_ok N pid W (e # q) (trace_buf ?s)" "no_taken q" "writeout_idx ?s = of_nat W" using rel w by (simp_all add: trace_rel_def)
  from get_done [OF N r(1) st] obtain buf where
    b: "get_trace_record N (of_nat W mod of_nat N) (trace_buf ?s) = Some (?rec, buf)"
      "ring_ok N pid W (e\<lparr>en_st := E_taken\<rparr> # q) buf" by blast
  define z where "z = y\<lparr>ts_state := write_event ?rec (?s\<lparr>trace_buf := buf\<rparr>), ts_writer := Advancing (of_nat (entry_len e))\<rparr>"
  have "u32_at 16 ?rec = of_nat (entry_len e)" by (simp add: header_of_def u32_at_header)
  then have "trace_step N now Take y = Some z" using w b(1) r(3) by (simp add: z_def)
  moreover have "trace_rel N pid pre res W (e\<lparr>en_st := E_taken\<rparr> # q) (out @ [spec_of e]) z"
    using rel b(2) r(2) st unfolding z_def trace_rel_def
    by (simp add: write_event_def spec_of_def header_of_def entry_len_def)
  ultimately show ?thesis by (auto simp: z_def)
qed

lemma rel_take:
  assumes N: "ring_len N" and rel: "trace_rel N pid pre res W q out y" and step: "trace_step N now Take y = Some z"
  shows "\<exists>q' out'. trace_rel N pid pre res W q' out' z"
proof -
  have w: "ts_writer y = Scanning" using step by (simp split: if_splits)
  have r: "ring_ok N pid W q (trace_buf (ts_state y))" "no_taken q" "writeout_idx (ts_state y) = of_nat W"
    using rel w by (simp_all add: trace_rel_def)
  have "\<not> (q = [] \<or> is_open (en_st (hd q)))" using get_nothing [OF N r(1,2)] step w r(3) by auto
  then obtain e q' where q: "q = e # q'" "en_st e = E_done" using r(2) by (cases q; cases "en_st (hd q)") auto
  show ?thesis using take_done [OF N rel [unfolded q(1)] w q(2), of now] step by auto
qed

lemma advance_taken:
  assumes rel: "trace_rel N pid pre res W (e # q) out y" and w: "ts_writer y = Advancing l"
  shows "\<exists>z. trace_step N now Advance y = Some z \<and> ts_writer z = Scanning \<and> ts_producers z = ts_producers y
           \<and> trace_rel N pid pre res (W + entry_len e) q out z"
proof -
  have e: "en_st e = E_taken" "l = of_nat (entry_len e)" "no_taken q" using rel w by (simp_all add: trace_rel_def)
  define z where "z = y\<lparr>ts_state := (ts_state y)\<lparr>writeout_idx := writeout_idx (ts_state y) + l\<rparr>, ts_writer := Scanning\<rparr>"
  have "trace_rel N pid pre res (W + entry_len e) q out z"
    using rel e ring_release [of N pid W e q] unfolding z_def trace_rel_def by (simp add: add.assoc)
  then show ?thesis using w by (simp add: z_def)
qed

lemma rel_advance:
  assumes rel: "trace_rel N pid pre res W q out y" and step: "trace_step N now Advance y = Some z"
  shows "\<exists>W' q'. trace_rel N pid pre res W' q' out z"
proof -
  obtain l where l: "ts_writer y = Advancing l" using step by (auto split: writer_pc.splits)
  then obtain e q' where "q = e # q'" using rel by (cases q) (auto simp: trace_rel_def)
  with advance_taken [of N pid pre res W e q' out y l now] rel l step show ?thesis by auto
qed

lemma rel_stop:
  assumes N: "ring_len N" and rel: "trace_rel N pid pre res W q out y" and step: "trace_step N now Stop y = Some z"
  shows "trace_rel N pid pre res W q out z"
proof -
  let ?s = "ts_state y"
  have w: "ts_writer y = Scanning" "get_trace_record N (writeout_idx ?s mod of_nat N) (trace_buf ?s) = None"
    and z: "z = y\<lparr>ts_writer := Waiting\<rparr>"
    using step by (auto split: if_splits)
  have r: "ring_ok N pid W q (trace_buf ?s)" "no_taken q" "writeout_idx ?s = of_nat W" using rel w by (simp_all add: trace_rel_def)
  have "q = [] \<or> open_entries q \<noteq> []"
  proof (cases q)
    case (Cons e q')
    have "en_st e \<noteq> E_done" using get_done [OF N r(1) [unfolded Cons]] w(2) r(3) by auto
    then show ?thesis using r(2) Cons by (cases "en_st e") auto
  qed simp
  then show ?thesis using rel w(1) unfolding z trace_rel_def by auto
qed

lemma inv_step:
  assumes N: "ring_len N" and inv: "trace_inv N pid pre res y" and fit: "fits N act"
    and step: "trace_step N now act y = Some z"
  shows "trace_inv N pid pre (res @ reservation act) z"
proof -
  from inv obtain W q out where rel: "trace_rel N pid pre res W q out y" by (auto simp: trace_inv_def)
  have wake: "trace_rel N pid pre res W q out z" if "act = Wake"
  proof -
    have "ts_writer y = Waiting" "z = y\<lparr>ts_state := (ts_state y)\<lparr>trace_available := False\<rparr>, ts_writer := Scanning\<rparr>"
      using that rel step by (auto simp: trace_rel_def write_dropped_def split: if_splits)
    with rel show ?thesis by (simp add: trace_rel_def)
  qed
  have flush: "trace_rel N pid pre res W q out z" if "act = Flush"
  proof -
    have "z = y\<lparr>ts_state := (ts_state y)\<lparr>trace_available := True\<rparr>\<rparr>"
      using that step by (simp add: flush_trace_file_def)
    with rel show ?thesis by (simp add: trace_rel_def)
  qed
  show ?thesis
  proof (cases act)
    case (Reserve t event time args)
    then show ?thesis using rel_reserve [OF N rel] step fit by (simp add: trace_inv_def) blast
  next
    case (Header t)
    then show ?thesis using rel_header [OF N rel] step by (simp add: trace_inv_def) blast
  next
    case (Write t)
    then show ?thesis using rel_write [OF N rel] step by (simp add: trace_inv_def) blast
  next
    case (Finish t)
    then show ?thesis using rel_finish [OF N rel] step by (simp add: trace_inv_def) blast
  next
    case Take
    then show ?thesis using rel_take [OF N rel] step by (simp add: trace_inv_def) blast
  next
    case Advance
    then show ?thesis using rel_advance [OF rel] step by (simp add: trace_inv_def) blast
  next
    case Stop
    then show ?thesis using rel_stop [OF N rel] step by (simp add: trace_inv_def) blast
  qed (use wake flush in \<open>auto simp: trace_inv_def\<close>)
qed

definition reservations :: "trace_act list \<Rightarrow> event_spec list" where
  "reservations acts = concat (map reservation acts)"

lemma inv_run:
  assumes "ring_len N" "trace_inv N pid pre res y" "list_all (fits N) acts" "trace_run N now acts y = Some z"
  shows "trace_inv N pid pre (res @ reservations acts) z"
  using assms
proof (induction acts arbitrary: res y)
  case (Cons a acts)
  obtain x where x: "trace_step N now a y = Some x" "trace_run N now acts x = Some z"
    using Cons.prems(4) by (auto split: option.splits)
  have "trace_inv N pid pre (res @ reservation a) x"
    using inv_step [OF Cons.prems(1,2) _ x(1)] Cons.prems(3) by simp
  from Cons.IH [OF Cons.prems(1) this _ x(2)] Cons.prems(3) show ?case by (simp add: reservations_def)
qed (simp add: reservations_def)

lemma inv_init:
  assumes "ring_len N"
  shows "trace_inv N pid (trace_log_header @ event_mapping events) [] (st_init N pid events)"
proof -
  have "ring_view N 0 (replicate N 0) = replicate N 0"
    by (rule nth_equalityI) (simp_all add: ring_view_def)
  then have "trace_rel N pid (trace_log_header @ event_mapping events) [] 0 [] [] (st_init N pid events)"
    by (simp add: trace_rel_def st_init_def ring_ok_def)
  then show ?thesis unfolding trace_inv_def by blast
qed

lemma inv_reachable:
  assumes "ring_len N" "list_all (fits N) acts" "trace_run N now acts (st_init N pid events) = Some y"
  shows "trace_inv N pid (trace_log_header @ event_mapping events) (reservations acts) y"
  using inv_run [OF assms(1) inv_init [OF assms(1)] assms(2,3)] by simp

section \<open>The writing thread alone\<close>

lemma no_open_entry: "trace_rel N pid pre res W q out y \<Longrightarrow> ts_producers y = Map.empty \<longleftrightarrow> open_entries q = []"
  by (simp add: trace_rel_def dom_eq_empty_conv [symmetric] del: dom_eq_empty_conv)

lemma stop_at_head:
  assumes N: "ring_len N" and rel: "trace_rel N pid pre res W q out y" and w: "ts_writer y = Scanning"
    and hd: "q = [] \<or> is_open (en_st (hd q))"
  shows "trace_step N now Take y = None" "trace_step N now Stop y = Some (y\<lparr>ts_writer := Waiting\<rparr>)"
  using get_nothing [OF N _ _ hd, of pid W "trace_buf (ts_state y)"] rel w by (simp_all add: trace_rel_def)

lemma writeout_rel:
  assumes "ring_len N" "trace_rel N pid pre res W q out y" "ts_writer y = Scanning" "length q < n"
  shows "\<exists>z W' q' out'. writeout N now n y = Some z \<and> ts_writer z = Waiting \<and> ts_producers z = ts_producers y
           \<and> trace_rel N pid pre res W' q' out' z \<and> (q' = [] \<or> is_open (en_st (hd q')))"
  using assms(2-)
proof (induction n arbitrary: W q out y)
  case (Suc n)
  show ?case
  proof (cases "q = [] \<or> is_open (en_st (hd q))")
    case True
    note s = stop_at_head [OF assms(1) Suc.prems(1,2) True, of now]
    have "trace_rel N pid pre res W q out (y\<lparr>ts_writer := Waiting\<rparr>)" by (rule rel_stop [OF assms(1) Suc.prems(1) s(2)])
    then show ?thesis using s True by auto
  next
    case False
    have "no_taken q" using Suc.prems(1,2) by (simp add: trace_rel_def)
    with False obtain e q' where q: "q = e # q'" "en_st e = E_done" by (cases q; cases "en_st (hd q)") auto
    from take_done [OF assms(1) Suc.prems(1) [unfolded q(1)] Suc.prems(2) q(2), of now] obtain y1 where
      y1: "trace_step N now Take y = Some y1" "ts_writer y1 = Advancing (of_nat (entry_len e))" "ts_producers y1 = ts_producers y"
        "trace_rel N pid pre res W (e\<lparr>en_st := E_taken\<rparr> # q') (out @ [spec_of e]) y1" by blast
    from advance_taken [OF y1(4,2), of now] obtain y2 W2 where
      y2: "trace_step N now Advance y1 = Some y2" "ts_writer y2 = Scanning" "ts_producers y2 = ts_producers y1"
        "trace_rel N pid pre res W2 q' (out @ [spec_of e]) y2" by blast
    have "length q' < n" using Suc.prems(3) q(1) by simp
    from Suc.IH [OF y2(4,2) this] y1(1,3) y2(1,3) show ?thesis by simp
  qed
qed simp

section \<open>Properties\<close>

definition spec_len :: "event_spec \<Rightarrow> nat" where
  "spec_len sp = 24 + args_size (snd (snd sp))"

lemma pending_le: "sum_list (map spec_len (pending q)) \<le> total_len q"
  by (induction q) (simp_all add: spec_len_def spec_of_def entry_len_def)



lemma flush_completes_file_aux:
  assumes "ring_len N" "list_all (fits N) acts" "trace_run N now acts (st_init N pid events) = Some y"
    and "ts_producers y = Map.empty" "ts_writer y = Waiting"
  shows "\<exists>y1 z. trace_run N now [Flush, Wake] y = Some y1
    \<and> writeout N now (Suc (length (reservations acts))) y1 = Some z \<and> ts_writer z = Waiting
    \<and> trace_fp (ts_state z) = trace_log_header @ event_mapping events @ concat (map (event_bytes pid) (reservations acts))"
proof -
  let ?pre = "trace_log_header @ event_mapping events" and ?res = "reservations acts"
  from inv_reachable [OF assms(1-3)] obtain W q out where rel: "trace_rel N pid ?pre ?res W q out y"
    by (auto simp: trace_inv_def)
  define y1 where "y1 = y\<lparr>ts_state := (ts_state y)\<lparr>trace_available := False\<rparr>, ts_writer := Scanning\<rparr>"
  have run: "trace_run N now [Flush, Wake] y = Some y1"
    using rel assms(5) by (simp add: y1_def trace_rel_def flush_trace_file_def write_dropped_def)
  have rel1: "trace_rel N pid ?pre ?res W q out y1" "ts_writer y1 = Scanning"
    using rel assms(5) by (simp_all add: y1_def trace_rel_def)
  have "no_taken q" "?res = out @ pending q" using rel assms(5) by (simp_all add: trace_rel_def)
  then have len: "length q < Suc (length ?res)"
    by (simp add: pending_def no_taken_def list_all_iff filter_id_conv [THEN iffD2])
  from writeout_rel [OF assms(1) rel1 len, of now] obtain z W' q' out' where
    z: "writeout N now (Suc (length ?res)) y1 = Some z" "ts_writer z = Waiting" "ts_producers z = ts_producers y1"
      "trace_rel N pid ?pre ?res W' q' out' z" "q' = [] \<or> is_open (en_st (hd q'))"
    by (elim exE conjE) (rule that; assumption)
  have "open_entries q' = []" using no_open_entry [OF z(4)] z(3) assms(4) by (simp add: y1_def)
  with z(5) have "q' = []" by (cases q') auto
  then have "trace_fp (ts_state z) = ?pre @ concat (map (event_bytes pid) ?res)" using z(4) by (simp add: trace_rel_def)
  then show ?thesis using run z(1,2) by auto
qed


end
