(* ===== verification/TraceExample.thy ===== *)
theory TraceExample
  imports TraceInvariant
begin

text \<open>
  A thread that records its events one after the other, as the code generated
  for an event does it, and examples of runs made of such threads.
\<close>

section \<open>Recording an event\<close>

fun simple_acts :: "nat \<Rightarrow> event_spec \<Rightarrow> trace_act list" where
  "simple_acts t (event, time, args) =
     Reserve t event time args # Header t # replicate (length args) (Write t) @ [Finish t]"

definition same_thread_state :: "trace_sys \<Rightarrow> trace_sys \<Rightarrow> bool" where
  "same_thread_state y z \<longleftrightarrow> ts_writer z = ts_writer y \<and> writeout_idx (ts_state z) = writeout_idx (ts_state y)
     \<and> trace_fp (ts_state z) = trace_fp (ts_state y)"

lemma trace_run_append:
  "trace_run N now (as @ bs) y = (case trace_run N now as y of None \<Rightarrow> None | Some z \<Rightarrow> trace_run N now bs z)"
  by (induction as arbitrary: y) (simp_all split: option.split)

lemma write_args:
  assumes "ts_producers y t = Some p" "pr_rec p \<noteq> None"
  shows "\<exists>z p'. trace_run N now (replicate (length (pr_left p)) (Write t)) y = Some z \<and> same_thread_state y z
      \<and> trace_idx (ts_state z) = trace_idx (ts_state y)
      \<and> ts_producers z = (ts_producers y)(t \<mapsto> p') \<and> pr_rec p' \<noteq> None \<and> pr_left p' = []"
  using assms
proof (induction "pr_left p" arbitrary: y p)
  case Nil
  have "ts_producers y = (ts_producers y)(t \<mapsto> p)" using Nil.prems(1) by (simp add: fun_upd_idem)
  then show ?case using Nil by (intro exI [of _ y] exI [of _ p]) (simp add: same_thread_state_def)
next
  case (Cons a args)
  obtain r where r: "pr_rec p = Some r" using Cons.prems(2) by blast
  define p1 where "p1 = p\<lparr>pr_rec := Some (fst (write_arg N a r (ts_state y))), pr_left := args\<rparr>"
  define y1 where "y1 = y\<lparr>ts_state := snd (write_arg N a r (ts_state y)), ts_producers := (ts_producers y)(t \<mapsto> p1)\<rparr>"
  have s: "trace_step N now (Write t) y = Some y1"
    using Cons.prems(1) r Cons.hyps(2) [symmetric] by (simp add: y1_def p1_def split_beta)
  have same: "same_thread_state y y1" "trace_idx (ts_state y1) = trace_idx (ts_state y)"
    by (simp_all add: same_thread_state_def y1_def write_arg_eq)
  have "args = pr_left p1" "ts_producers y1 t = Some p1" "pr_rec p1 \<noteq> None" by (simp_all add: y1_def p1_def)
  from Cons.hyps(1) [OF this] obtain z p' where
    z: "trace_run N now (replicate (length (pr_left p1)) (Write t)) y1 = Some z" "same_thread_state y1 z"
      "trace_idx (ts_state z) = trace_idx (ts_state y1)"
      "ts_producers z = (ts_producers y1)(t \<mapsto> p')" "pr_rec p' \<noteq> None" "pr_left p' = []" by blast
  have "length (pr_left p) = Suc (length (pr_left p1))" using Cons.hyps(2) [symmetric] by (simp add: p1_def)
  moreover have "ts_producers z = (ts_producers y)(t \<mapsto> p')" using z(4) by (simp add: y1_def)
  ultimately show ?case using s z same by (auto simp: same_thread_state_def)
qed

lemma record_event:
  assumes t: "ts_producers y t = None"
    and room: "unat (trace_idx (ts_state y) + of_nat (spec_len sp) - writeout_idx (ts_state y)) \<le> N"
  shows "\<exists>z. trace_run N now (simple_acts t sp) y = Some z \<and> same_thread_state y z
      \<and> trace_idx (ts_state z) = trace_idx (ts_state y) + of_nat (spec_len sp) \<and> ts_producers z = ts_producers y"
proof -
  obtain event time args where sp: "sp = (event, time, args)" by (cases sp)
  define len where "len = (of_nat (24 + args_size args) :: u32)"
  define p where "p = \<lparr>pr_idx = trace_idx (ts_state y) mod of_nat N, pr_event = event, pr_time = time, pr_len = len,
    pr_rec = None, pr_left = args\<rparr>"
  define y1 where "y1 = y\<lparr>ts_state := (ts_state y)\<lparr>trace_idx := trace_idx (ts_state y) + len\<rparr>,
    ts_producers := (ts_producers y)(t \<mapsto> p)\<rparr>"
  have len: "of_nat (spec_len sp) = len" by (simp add: spec_len_def sp len_def)
  have s1: "trace_step N now (Reserve t event time args) y = Some y1"
    using t room unfolding len trace_step.simps Let_def len_def [symmetric] reserve_record_def by (simp add: y1_def p_def)
  define h where "h = write_record_header N (pr_idx p) event time len (ts_state y1)"
  define p2 where "p2 = p\<lparr>pr_rec := Some (fst h)\<rparr>"
  define y2 where "y2 = y1\<lparr>ts_state := snd h, ts_producers := (ts_producers y1)(t \<mapsto> p2)\<rparr>"
  have s2: "trace_step N now (Header t) y1 = Some y2"
    by (simp add: y1_def y2_def p2_def h_def p_def split_beta)
  have "ts_producers y2 t = Some p2" "pr_rec p2 \<noteq> None" "pr_left p2 = args" by (simp_all add: y2_def p2_def p_def)
  from write_args [OF this(1,2), of N now] this(3) obtain y3 p3 where
    y3: "trace_run N now (replicate (length args) (Write t)) y2 = Some y3" "same_thread_state y2 y3"
      "trace_idx (ts_state y3) = trace_idx (ts_state y2)"
      "ts_producers y3 = (ts_producers y2)(t \<mapsto> p3)" "pr_rec p3 \<noteq> None" "pr_left p3 = []" by auto
  obtain r where r: "pr_rec p3 = Some r" using y3(5) by blast
  define z where "z = y3\<lparr>ts_state := trace_record_finish N r (ts_state y3), ts_producers := (ts_producers y3)(t := None)\<rparr>"
  have s3: "trace_step N now (Finish t) y3 = Some z" using y3(4,6) r by (simp add: z_def)
  have "same_thread_state y z" "trace_idx (ts_state z) = trace_idx (ts_state y) + len"
    using y3(2,3) by (simp_all add: same_thread_state_def z_def y2_def y1_def h_def write_record_header_eq
      trace_record_finish_def flush_trace_file_def Let_def split_beta)
  moreover have "ts_producers z = ts_producers y"
    using t y3(4) by (simp add: z_def y2_def y1_def fun_upd_idem)
  ultimately show ?thesis
    using s1 s2 s3 y3(1) by (simp add: sp trace_run_append len [unfolded sp])
qed

lemma record_events:
  assumes "ts_producers y t = None" "writeout_idx (ts_state y) = 0" "N < 2 ^ 32"
    and "trace_idx (ts_state y) = of_nat T" "T + sum_list (map spec_len sps) \<le> N"
  shows "\<exists>z. trace_run N now (concat (map (simple_acts t) sps)) y = Some z \<and> same_thread_state y z
      \<and> ts_producers z = ts_producers y \<and> trace_idx (ts_state z) = of_nat (T + sum_list (map spec_len sps))"
  using assms
proof (induction sps arbitrary: y T)
  case (Cons sp sps)
  have "unat (of_nat (T + spec_len sp) :: u32) = T + spec_len sp"
    unfolding unat_of_nat using Cons.prems(3,5) by (intro mod_less) simp
  then have "unat (trace_idx (ts_state y) + of_nat (spec_len sp) - writeout_idx (ts_state y)) \<le> N"
    using Cons.prems(2,4,5) by simp
  from record_event [OF Cons.prems(1) this, of now] obtain x where
    x: "trace_run N now (simple_acts t sp) y = Some x" "same_thread_state y x"
      "trace_idx (ts_state x) = of_nat (T + spec_len sp)" "ts_producers x = ts_producers y"
    using Cons.prems(4) by auto
  have "\<exists>z. trace_run N now (concat (map (simple_acts t) sps)) x = Some z \<and> same_thread_state x z
      \<and> ts_producers z = ts_producers x \<and> trace_idx (ts_state z) = of_nat (T + spec_len sp + sum_list (map spec_len sps))"
    by (rule Cons.IH) (use Cons.prems x in \<open>simp_all add: same_thread_state_def\<close>)
  then show ?case using x by (auto simp: trace_run_append same_thread_state_def add.assoc)
qed (simp add: same_thread_state_def)

lemma reservations_simple: "reservations (concat (map (simple_acts t) sps)) = sps"
proof (induction sps)
  case (Cons sp sps)
  obtain event time args where "sp = (event, time, args)" by (cases sp)
  moreover have "concat (map reservation (replicate n (Write t))) = []" for n by (induction n) simp_all
  ultimately show ?case using Cons by (simp add: reservations_def)
qed (simp add: reservations_def)

lemma fits_simple: "list_all (\<lambda>sp. spec_len sp \<le> N) sps \<Longrightarrow> list_all (fits N) (concat (map (simple_acts t) sps))"
  by (induction sps) (auto simp: spec_len_def list_all_iff)

lemma take_when_finished:
  assumes N: "ring_len N" and inv: "trace_inv N pid pre res y" and "ts_producers y = Map.empty" "ts_writer y = Scanning"
    and fp: "trace_fp (ts_state y) = pre" "res \<noteq> []"
  shows "\<exists>z. trace_step N now Take y = Some z"
proof -
  obtain W q out where rel: "trace_rel N pid pre res W q out y" using inv by (auto simp: trace_inv_def)
  have "concat (map (event_bytes pid) out) = []" using rel fp(1) by (simp add: trace_rel_def)
  moreover have "le_bytes 8 1 \<noteq> []" by (metis length_le_bytes list.size(3) zero_neq_numeral)
  then have "event_bytes pid sp \<noteq> []" for sp by (cases sp) simp
  ultimately have "out = []" by (cases out) simp_all
  then obtain e q' where q: "q = e # q'" using rel fp(2) by (cases q) (auto simp: trace_rel_def)
  have "open_entries q = []" "no_taken q" using no_open_entry [OF rel] assms(3,4) rel by (simp_all add: trace_rel_def)
  then have "en_st e = E_done" using q by (cases "en_st e") (auto split: if_splits)
  from take_done [OF N rel [unfolded q] assms(4) this] show ?thesis by blast
qed

section \<open>Examples\<close>

text \<open>Two threads whose records overlap: the second finishes first, then the writing thread takes the first.\<close>

definition demo_events :: "event_spec list" where
  "demo_events = [(63, 5, [Arg_u64 7]), (64, 6, [Arg_u64 300])]"

definition demo_acts :: "trace_act list" where
  "demo_acts =
     [Reserve 0 63 5 [Arg_u64 7], Reserve 1 64 6 [Arg_u64 300], Header 1, Header 0, Write 1, Finish 1, Write 0, Finish 0]"

lemma ring_len_64: "ring_len 64"
  by (simp add: ring_len_def)

lemma demo_reservations: "reservations demo_acts = demo_events" "reservations (demo_acts @ acts) = demo_events @ reservations acts"
  by (simp_all add: reservations_def demo_acts_def demo_events_def)

lemma demo_fits: "list_all (fits 64) demo_acts"
  by (simp add: demo_acts_def)

definition finish_buf :: "nat \<Rightarrow> TraceBufferRecord \<Rightarrow> u8 list \<Rightarrow> u8 list" where
  "finish_buf N r buf =
     (let record = read_from_buffer N (tbuf_idx r) 24 buf
      in snd (write_to_buffer N (tbuf_idx r) (le_bytes 8 (unat (u64_at 0 record OR TRACE_RECORD_VALID)) @ drop 8 record) buf))"

lemma finish_eq:
  "trace_record_finish N r s = s\<lparr>trace_buf := finish_buf N r (trace_buf s),
     trace_available := (unat (trace_idx s - writeout_idx s) > N div 4 \<or> trace_available s)\<rparr>"
  by (simp add: trace_record_finish_def finish_buf_def flush_trace_file_def Let_def split_beta)

lemma demo_run:
  "\<exists>y. trace_run 64 0 demo_acts (st_init 64 1 []) = Some y \<and> ts_producers y = Map.empty \<and> ts_writer y = Waiting
     \<and> trace_available (ts_state y) \<and> trace_writeout_enabled (ts_state y) \<and> dropped_events (ts_state y) = 0
     \<and> trace_fp (ts_state y) = trace_log_header @ event_mapping []"
  by (simp add: demo_acts_def st_init_def reserve_record_def write_record_header_eq write_arg_eq finish_eq fun_eq_iff)

lemma demo_take:
  "\<exists>z. trace_run 64 0 (demo_acts @ [Wake, Take]) (st_init 64 1 []) = Some z"
proof -
  from demo_run obtain y where
    y: "trace_run 64 0 demo_acts (st_init 64 1 []) = Some y" "ts_producers y = Map.empty" "ts_writer y = Waiting"
      "trace_available (ts_state y)" "trace_writeout_enabled (ts_state y)" "dropped_events (ts_state y) = 0"
      "trace_fp (ts_state y) = trace_log_header @ event_mapping []" by blast
  obtain x where x: "trace_step 64 0 Wake y = Some x" "ts_producers x = Map.empty" "ts_writer x = Scanning"
      "trace_fp (ts_state x) = trace_log_header @ event_mapping []"
    using y by (simp add: write_dropped_def)
  have run: "trace_run 64 0 (demo_acts @ [Wake]) (st_init 64 1 []) = Some x" using y(1) x(1) by (simp add: trace_run_append)
  have inv: "trace_inv 64 1 (trace_log_header @ event_mapping []) (reservations (demo_acts @ [Wake])) x"
    by (rule inv_reachable [OF ring_len_64 _ run]) (simp add: demo_fits)
  have ne: "reservations (demo_acts @ [Wake]) \<noteq> []" by (simp add: demo_reservations demo_events_def)
  obtain z where "trace_step 64 0 Take x = Some z"
    using take_when_finished [OF ring_len_64 inv x(2-4) ne, of 0] by blast
  then show ?thesis using y(1) x(1) by (simp add: trace_run_append)
qed




end
