(* ===== verification/TracePlugin.thy ===== *)
theory TracePlugin
  imports TraceInvariant
begin

text \<open>
  The QEMU plugin that produces the trace (\<open>tests/plugin/cache_test.c\<close>), the
  functions of \<open>plugins/api.c\<close> and \<open>accel/tcg/cputlb.c\<close> it calls, and the
  three events of \<open>trace-events\<close>.  Translated code is a list of instructions
  with the callbacks registered for them; running an instruction calls them and
  gives the events that go to the trace backend.  The state of the emulated
  processor (its code segment selector, its page table base, its software TLB)
  and the clock are parameters of every step.
\<close>

section \<open>Events\<close>

text \<open>
  The events as the generated code records them: every argument as 64 bits.
  The identifiers are those the trace reader expects.
\<close>

definition trace_guest_trace_mem_access_itlb ::
  "u64 \<Rightarrow> u64 \<Rightarrow> u64 \<Rightarrow> u64 \<Rightarrow> u8 \<Rightarrow> u64 \<Rightarrow> u8 \<Rightarrow> u64 \<Rightarrow> event_spec" where
  "trace_guest_trace_mem_access_itlb time icount vaddr paddr seg_states cr3 br_type target_vaddr =
     (63, time, map Arg_u64 [icount, vaddr, paddr, ucast seg_states, cr3, ucast br_type, target_vaddr])"

definition trace_guest_trace_mem_access_tlb ::
  "u64 \<Rightarrow> u64 \<Rightarrow> u64 \<Rightarrow> u64 \<Rightarrow> u8 \<Rightarrow> u8 \<Rightarrow> u8 \<Rightarrow> u64 \<Rightarrow> event_spec" where
  "trace_guest_trace_mem_access_tlb time icount vaddr paddr load_store len seg_states cr3 =
     (64, time, map Arg_u64 [icount, vaddr, paddr, ucast load_store, ucast len, ucast seg_states, cr3])"

definition trace_guest_trace_nop :: "u64 \<Rightarrow> u8 \<Rightarrow> u8 \<Rightarrow> u8 \<Rightarrow> event_spec" where
  "trace_guest_trace_nop time nop_byte0 nop_byte1 nop_byte2 =
     (65, time, map Arg_u64 [ucast nop_byte0, ucast nop_byte1, ucast nop_byte2])"

section \<open>State\<close>

record pqii_data =
  pq_status :: u8
  pq_icount :: u64

record cpu_view =
  cv_selector :: u32
  cv_cr3 :: u64

text \<open>What \<open>qemu_plugin_insn_*\<close> give for an instruction.\<close>

record plugin_insn =
  pi_data :: "u8 list"
  pi_vaddr :: u64
  pi_paddr :: u64
  pi_is_br_jmp :: nat
  pi_target_vaddr :: u64

text \<open>The entry of the software TLB for an access: whether it hits, whether it is a device, and its page.\<close>

record tlb_view =
  tv_hit :: bool
  tv_mmio :: bool
  tv_paddr :: u64

record mem_access =
  ma_info :: u32
  ma_vaddr :: u64
  ma_tlb :: tlb_view
  ma_time :: u64

datatype callback =
    Exec_before nat
  | Get_vaddr u64
  | Get_paddr u64
  | Exec_normal
  | Exec_br u64
  | Exec_dir_jmp u64
  | Exec_indir_jmp u64
  | Exec_dir_call u64
  | Exec_indir_call u64
  | Exec_ret u64
  | Exec_others u64

record plugin =
  g_pqii_data :: pqii_data
  track_io :: bool
  udata_buf :: "(u8 \<times> u8 \<times> u8) list"
  idx_udata_buf :: nat
  tmp_vaddr :: u64
  tmp_paddr :: u64
  pl_code :: "(plugin_insn \<times> callback list) list"

abbreviation (input) MAX_UDATA_BUF_SIZE :: nat where "MAX_UDATA_BUF_SIZE \<equiv> 10000"
abbreviation (input) WARMUP_THRESHOLD_1 :: u64 where "WARMUP_THRESHOLD_1 \<equiv> 0"
abbreviation (input) WARMUP_THRESHOLD_2 :: u64 where "WARMUP_THRESHOLD_2 \<equiv> 1000000000"

definition plugin_new :: "bool \<Rightarrow> plugin" where
  "plugin_new io =
     \<lparr>g_pqii_data = \<lparr>pq_status = 0, pq_icount = 0\<rparr>, track_io = io, udata_buf = replicate MAX_UDATA_BUF_SIZE (0, 0, 0),
      idx_udata_buf = 0, tmp_vaddr = 0, tmp_paddr = 0, pl_code = []\<rparr>"

section \<open>Callbacks\<close>

definition qemu_plugin_get_cpuinfo :: "cpu_view \<Rightarrow> u64 \<Rightarrow> u64 \<Rightarrow> u64 \<Rightarrow> u8 \<Rightarrow> u64 \<Rightarrow> u64 \<Rightarrow> event_spec" where
  "qemu_plugin_get_cpuinfo cv time vaddr paddr is_br_jmp target_vaddr icount =
     trace_guest_trace_mem_access_itlb time icount vaddr paddr (ucast (cv_selector cv AND 3)) (cv_cr3 cv) is_br_jmp target_vaddr"

definition qemu_plugin_nop :: "u64 \<Rightarrow> u8 \<times> u8 \<times> u8 \<Rightarrow> event_spec" where
  "qemu_plugin_nop time = (\<lambda>(b0, b1, b2). trace_guest_trace_nop time b0 b1 b2)"

text \<open>The lookup tells whether the access goes to a device, and records the access when it does not.\<close>

definition tlb_plugin_lookup ::
  "cpu_view \<Rightarrow> pqii_data \<Rightarrow> u64 \<Rightarrow> tlb_view \<Rightarrow> u64 \<Rightarrow> u32 \<Rightarrow> bool \<Rightarrow> bool option \<times> event_spec list" where
  "tlb_plugin_lookup cv pq time tv addr info is_store =
     (if tv_hit tv then
        if tv_mmio tv then (Some True, [])
        else
          let paddr = (addr AND 0xfff) + tv_paddr tv in
          (Some False,
           if pq_status pq \<noteq> 0
           then let mem_size = push_bit (unat (info AND 0xf)) (1 :: u32)
                in [trace_guest_trace_mem_access_tlb time (pq_icount pq) addr paddr (if is_store then 1 else 0)
                      (ucast mem_size) (ucast (cv_selector cv AND 3)) (cv_cr3 cv)]
           else [])
      else (None, []))"

definition qemu_plugin_get_hwaddr :: "cpu_view \<Rightarrow> pqii_data \<Rightarrow> mem_access \<Rightarrow> bool option \<times> event_spec list" where
  "qemu_plugin_get_hwaddr cv pq a =
     tlb_plugin_lookup cv pq (ma_time a) (ma_tlb a) (ma_vaddr a) (ma_info a) (bit (ma_info a) 6)"

text \<open>Neither branch on the result does anything.\<close>

definition vcpu_haddr :: "cpu_view \<Rightarrow> mem_access \<Rightarrow> plugin \<Rightarrow> event_spec list" where
  "vcpu_haddr cv a s =
     (if pq_status (g_pqii_data s) \<noteq> 0 then
        if pq_icount (g_pqii_data s) > WARMUP_THRESHOLD_1 \<and> pq_icount (g_pqii_data s) \<le> WARMUP_THRESHOLD_2
        then snd (qemu_plugin_get_hwaddr cv (g_pqii_data s) a)
        else []
      else [])"

definition vcpu_insn_exec_before :: "u64 \<Rightarrow> nat \<Rightarrow> plugin \<Rightarrow> event_spec list \<times> plugin" where
  "vcpu_insn_exec_before time udata s =
     (let nop_data = udata_buf s ! udata;
          s = (if fst nop_data = 0xbe then s\<lparr>g_pqii_data := (g_pqii_data s)\<lparr>pq_status := 1\<rparr>\<rparr>
               else if fst nop_data = 0xed then s\<lparr>g_pqii_data := (g_pqii_data s)\<lparr>pq_status := 0\<rparr>\<rparr>
               else s)
      in ([qemu_plugin_nop time nop_data], s))"

text \<open>The callbacks for the kinds of branches differ in the kind only.\<close>

definition insn_exec :: "u8 \<Rightarrow> u64 \<Rightarrow> cpu_view \<Rightarrow> u64 \<Rightarrow> plugin \<Rightarrow> event_spec list \<times> plugin" where
  "insn_exec kind target cv time s =
     (if pq_status (g_pqii_data s) \<noteq> 0 then
        let icount = pq_icount (g_pqii_data s) + 1;
            s = s\<lparr>g_pqii_data := (g_pqii_data s)\<lparr>pq_icount := icount\<rparr>\<rparr>
        in if icount \<le> WARMUP_THRESHOLD_2
           then (if icount > WARMUP_THRESHOLD_1
                 then [qemu_plugin_get_cpuinfo cv time (tmp_vaddr s) (tmp_paddr s) kind target icount] else [], s)
           else ([], s\<lparr>g_pqii_data := (g_pqii_data s)\<lparr>pq_status := 0\<rparr>\<rparr>)
      else ([], s))"

fun run_callback :: "cpu_view \<Rightarrow> u64 \<Rightarrow> callback \<Rightarrow> plugin \<Rightarrow> event_spec list \<times> plugin" where
  "run_callback cv time (Exec_before udata) s = vcpu_insn_exec_before time udata s"
| "run_callback cv time (Get_vaddr v) s = ([], s\<lparr>tmp_vaddr := v\<rparr>)"
| "run_callback cv time (Get_paddr v) s = ([], s\<lparr>tmp_paddr := v\<rparr>)"
| "run_callback cv time Exec_normal s = insn_exec 0 0 cv time s"
| "run_callback cv time (Exec_br t) s = insn_exec 1 t cv time s"
| "run_callback cv time (Exec_dir_jmp t) s = insn_exec 2 t cv time s"
| "run_callback cv time (Exec_indir_jmp t) s = insn_exec 3 t cv time s"
| "run_callback cv time (Exec_dir_call t) s = insn_exec 4 t cv time s"
| "run_callback cv time (Exec_indir_call t) s = insn_exec 5 t cv time s"
| "run_callback cv time (Exec_ret t) s = insn_exec 6 t cv time s"
| "run_callback cv time (Exec_others t) s = insn_exec 7 t cv time s"

section \<open>Translation and execution\<close>

definition is_marker :: "u8 list \<Rightarrow> bool" where
  "is_marker insn_data \<longleftrightarrow> insn_data ! 0 = 0x0f \<and> insn_data ! 1 = 0x1f \<and> insn_data ! 2 = 0x84
     \<and> (insn_data ! 3 = 0xbe \<or> insn_data ! 3 = 0xed \<or> insn_data ! 3 = 0xac)"

definition exec_callback :: "nat \<Rightarrow> u64 \<Rightarrow> callback" where
  "exec_callback is_br_jmp target_vaddr =
     (if is_br_jmp = 1 then Exec_br target_vaddr
      else if is_br_jmp = 2 then Exec_dir_jmp target_vaddr
      else if is_br_jmp = 3 then Exec_indir_jmp target_vaddr
      else if is_br_jmp = 4 then Exec_dir_call target_vaddr
      else if is_br_jmp = 5 then Exec_indir_call target_vaddr
      else if is_br_jmp = 6 then Exec_ret target_vaddr
      else if is_br_jmp = 7 then Exec_others target_vaddr
      else Exec_normal)"

fun vcpu_tb_trans :: "plugin_insn list \<Rightarrow> plugin \<Rightarrow> plugin" where
  "vcpu_tb_trans [] s = s"
| "vcpu_tb_trans (insn # tb) s =
     (let insn_data = pi_data insn in
      vcpu_tb_trans tb
        (if is_marker insn_data then
           let idx = idx_udata_buf s
           in s\<lparr>udata_buf := (udata_buf s)[idx := (insn_data ! 3, insn_data ! 6, insn_data ! 7)],
                idx_udata_buf := (if idx + 1 \<ge> MAX_UDATA_BUF_SIZE then 0 else idx + 1),
                pl_code := pl_code s @ [(insn, [Exec_before idx])]\<rparr>
         else
           s\<lparr>pl_code := pl_code s @
               [(insn, [Get_vaddr (pi_vaddr insn), Get_paddr (pi_paddr insn),
                        exec_callback (pi_is_br_jmp insn) (pi_target_vaddr insn)])]\<rparr>))"

fun run_callbacks :: "cpu_view \<Rightarrow> u64 \<Rightarrow> callback list \<Rightarrow> plugin \<Rightarrow> event_spec list \<times> plugin" where
  "run_callbacks cv time [] s = ([], s)"
| "run_callbacks cv time (cb # cbs) s =
     (let (es, s) = run_callback cv time cb s; (es', s) = run_callbacks cv time cbs s in (es @ es', s))"

text \<open>
  What the emulator does: it translates a block, or it runs an instruction of the
  code translated so far, given by its number, which makes the given accesses.
  The callback for accesses is not registered for markers.
\<close>

datatype guest_act =
    Translate "plugin_insn list"
  | Execute nat cpu_view u64 "mem_access list"

fun plugin_step :: "guest_act \<Rightarrow> plugin \<Rightarrow> event_spec list \<times> plugin" where
  "plugin_step (Translate tb) s = ([], vcpu_tb_trans tb s)"
| "plugin_step (Execute j cv time accs) s =
     (let (insn, cbs) = pl_code s ! j; (es, s) = run_callbacks cv time cbs s
      in (es @ (if is_marker (pi_data insn) then [] else concat (map (\<lambda>a. vcpu_haddr cv a s) accs)), s))"

fun plugin_run :: "guest_act list \<Rightarrow> plugin \<Rightarrow> event_spec list \<times> plugin" where
  "plugin_run [] s = ([], s)"
| "plugin_run (a # acts) s = (let (es, s) = plugin_step a s; (es', s) = plugin_run acts s in (es @ es', s))"

section \<open>What is recorded\<close>

text \<open>
  The specification has no callbacks and no buffer of marker bytes: recording is
  on or off, and an instruction is recorded with its accesses to memory as long
  as it is on and the count is within the limits.
\<close>

definition recorded :: "u64 \<Rightarrow> bool" where
  "recorded n \<longleftrightarrow> 0 < n \<and> n \<le> WARMUP_THRESHOLD_2"

definition insn_kind :: "plugin_insn \<Rightarrow> u8" where
  "insn_kind i = (if pi_is_br_jmp i \<le> 7 then of_nat (pi_is_br_jmp i) else 0)"

definition insn_target :: "plugin_insn \<Rightarrow> u64" where
  "insn_target i = (if pi_is_br_jmp i \<in> {1..7} then pi_target_vaddr i else 0)"

definition insn_event :: "plugin_insn \<Rightarrow> cpu_view \<Rightarrow> u64 \<Rightarrow> u64 \<Rightarrow> event_spec" where
  "insn_event i cv time n =
     trace_guest_trace_mem_access_itlb time n (pi_vaddr i) (pi_paddr i) (ucast (cv_selector cv AND 3)) (cv_cr3 cv)
       (insn_kind i) (insn_target i)"

definition data_event :: "cpu_view \<Rightarrow> u64 \<Rightarrow> mem_access \<Rightarrow> event_spec" where
  "data_event cv n a =
     trace_guest_trace_mem_access_tlb (ma_time a) n (ma_vaddr a) ((ma_vaddr a AND 0xfff) + tv_paddr (ma_tlb a))
       (if bit (ma_info a) 6 then 1 else 0) (ucast (push_bit (unat (ma_info a AND 0xf)) (1 :: u32)))
       (ucast (cv_selector cv AND 3)) (cv_cr3 cv)"

definition memory_accesses :: "mem_access list \<Rightarrow> mem_access list" where
  "memory_accesses accs = filter (\<lambda>a. tv_hit (ma_tlb a) \<and> \<not> tv_mmio (ma_tlb a)) accs"

fun spec_step :: "plugin_insn \<Rightarrow> cpu_view \<Rightarrow> u64 \<Rightarrow> mem_access list \<Rightarrow> bool \<times> u64 \<Rightarrow> event_spec list \<times> bool \<times> u64" where
  "spec_step i cv time accs (on, n) =
     (if is_marker (pi_data i)
      then ([trace_guest_trace_nop time (pi_data i ! 3) (pi_data i ! 6) (pi_data i ! 7)],
            pi_data i ! 3 = 0xbe \<or> on \<and> pi_data i ! 3 \<noteq> 0xed, n)
      else if \<not> on then ([], on, n)
      else (if recorded (n + 1) then insn_event i cv time (n + 1) # map (data_event cv (n + 1)) (memory_accesses accs) else [],
            n + 1 \<le> WARMUP_THRESHOLD_2, n + 1))"

fun spec_run :: "guest_act list \<Rightarrow> plugin_insn list \<Rightarrow> bool \<times> u64 \<Rightarrow> event_spec list" where
  "spec_run [] code st = []"
| "spec_run (Translate tb # acts) code st = spec_run acts (code @ tb) st"
| "spec_run (Execute j cv time accs # acts) code st =
     (let (es, st) = spec_step (code ! j) cv time accs st in es @ spec_run acts code st)"

text \<open>An execution refers to translated code, and the translated markers fit in the buffer.\<close>

definition markers :: "plugin_insn list \<Rightarrow> nat" where
  "markers tb = length (filter (\<lambda>i. is_marker (pi_data i)) tb)"

fun acts_ok :: "guest_act list \<Rightarrow> plugin_insn list \<Rightarrow> bool" where
  "acts_ok [] code \<longleftrightarrow> True"
| "acts_ok (Translate tb # acts) code \<longleftrightarrow> markers (code @ tb) < MAX_UDATA_BUF_SIZE \<and> acts_ok acts (code @ tb)"
| "acts_ok (Execute j cv time accs # acts) code \<longleftrightarrow> j < length code \<and> acts_ok acts code"

definition code_ok :: "plugin \<Rightarrow> plugin_insn \<Rightarrow> callback list \<Rightarrow> bool" where
  "code_ok s i cbs \<longleftrightarrow>
     (if is_marker (pi_data i)
      then \<exists>k < idx_udata_buf s. cbs = [Exec_before k] \<and> udata_buf s ! k = (pi_data i ! 3, pi_data i ! 6, pi_data i ! 7)
      else cbs = [Get_vaddr (pi_vaddr i), Get_paddr (pi_paddr i), exec_callback (pi_is_br_jmp i) (pi_target_vaddr i)])"

definition plugin_inv :: "plugin_insn list \<Rightarrow> plugin \<Rightarrow> bool" where
  "plugin_inv code s \<longleftrightarrow> length (udata_buf s) = MAX_UDATA_BUF_SIZE \<and> idx_udata_buf s = markers code
     \<and> map fst (pl_code s) = code \<and> (\<forall>(i, cbs) \<in> set (pl_code s). code_ok s i cbs)"

definition plugin_abs :: "plugin \<Rightarrow> bool \<times> u64" where
  "plugin_abs s = (pq_status (g_pqii_data s) \<noteq> 0, pq_icount (g_pqii_data s))"

lemma markers_simps [simp]:
  "markers [] = 0" "markers (i # tb) = (if is_marker (pi_data i) then Suc (markers tb) else markers tb)"
  "markers (tb @ tb') = markers tb + markers tb'"
  by (simp_all add: markers_def)

lemma code_ok_mono:
  assumes "code_ok s i cbs" "idx_udata_buf s \<le> idx_udata_buf s'"
    "\<And>k. k < idx_udata_buf s \<Longrightarrow> udata_buf s' ! k = udata_buf s ! k"
  shows "code_ok s' i cbs"
  using assms by (fastforce simp: code_ok_def split: if_splits)

lemma plugin_inv_cong:
  assumes "plugin_inv code s" "udata_buf s' = udata_buf s" "idx_udata_buf s' = idx_udata_buf s" "pl_code s' = pl_code s"
  shows "plugin_inv code s'"
proof -
  have "code_ok s' = code_ok s" using assms(2,3) by (simp add: code_ok_def fun_eq_iff)
  then show ?thesis using assms by (simp add: plugin_inv_def)
qed

lemma callback_keeps_code:
  "udata_buf (snd (run_callback cv time cb s)) = udata_buf s \<and> idx_udata_buf (snd (run_callback cv time cb s)) = idx_udata_buf s
   \<and> pl_code (snd (run_callback cv time cb s)) = pl_code s"
  by (cases cb) (simp_all add: vcpu_insn_exec_before_def insn_exec_def Let_def)

lemma callbacks_keep_code:
  "udata_buf (snd (run_callbacks cv time cbs s)) = udata_buf s \<and> idx_udata_buf (snd (run_callbacks cv time cbs s)) = idx_udata_buf s
   \<and> pl_code (snd (run_callbacks cv time cbs s)) = pl_code s"
  using callback_keeps_code by (induction cbs arbitrary: s) (simp_all add: split_beta)

lemma trans_inv:
  assumes "plugin_inv code s" "markers (code @ tb) < MAX_UDATA_BUF_SIZE"
  shows "plugin_inv (code @ tb) (vcpu_tb_trans tb s) \<and> plugin_abs (vcpu_tb_trans tb s) = plugin_abs s"
  using assms
proof (induction tb arbitrary: code s)
  case (Cons i tb)
  define s1 where "s1 = (if is_marker (pi_data i)
    then s\<lparr>udata_buf := (udata_buf s)[idx_udata_buf s := (pi_data i ! 3, pi_data i ! 6, pi_data i ! 7)],
           idx_udata_buf := idx_udata_buf s + 1, pl_code := pl_code s @ [(i, [Exec_before (idx_udata_buf s)])]\<rparr>
    else s\<lparr>pl_code := pl_code s @ [(i, [Get_vaddr (pi_vaddr i), Get_paddr (pi_paddr i), exec_callback (pi_is_br_jmp i) (pi_target_vaddr i)])]\<rparr>)"
  have room: "is_marker (pi_data i) \<Longrightarrow> idx_udata_buf s + 1 < MAX_UDATA_BUF_SIZE"
    using Cons.prems by (simp add: plugin_inv_def)
  have t: "vcpu_tb_trans (i # tb) s = vcpu_tb_trans tb s1"
    using room by (cases "is_marker (pi_data i)") (simp_all add: s1_def Let_def)
  have keep: "code_ok s1 j cbs" if "code_ok s j cbs" for j cbs
    by (rule code_ok_mono [OF that]) (auto simp: s1_def)
  have new: "code_ok s1 i (snd (last (pl_code s1)))"
    using room Cons.prems(1) by (auto simp: s1_def code_ok_def plugin_inv_def)
  have "\<forall>(j, cbs) \<in> set (pl_code s1). code_ok s1 j cbs"
  proof -
    have "set (pl_code s1) = insert (i, snd (last (pl_code s1))) (set (pl_code s))" by (auto simp: s1_def)
    then show ?thesis using keep new Cons.prems(1) by (auto simp: plugin_inv_def)
  qed
  then have "plugin_inv (code @ [i]) s1" "plugin_abs s1 = plugin_abs s"
    using Cons.prems(1) by (simp_all add: plugin_inv_def plugin_abs_def s1_def)
  then show ?case unfolding t using Cons.IH [of "code @ [i]" s1] Cons.prems(2) by simp
qed simp

lemma exec_callback_runs:
  "run_callback cv time (exec_callback k target) s =
     insn_exec (if k \<le> 7 then of_nat k else 0) (if k \<in> {1..7} then target else 0) cv time s"
proof -
  consider "k = 0" | "k = 1" | "k = 2" | "k = 3" | "k = 4" | "k = 5" | "k = 6" | "k = 7" | "k > 7" by linarith
  then show ?thesis by cases (simp_all add: exec_callback_def)
qed

lemma exec_step:
  assumes inv: "plugin_inv code s" and j: "j < length code"
  shows "fst (plugin_step (Execute j cv time accs) s) = fst (spec_step (code ! j) cv time accs (plugin_abs s))
    \<and> plugin_abs (snd (plugin_step (Execute j cv time accs) s)) = snd (spec_step (code ! j) cv time accs (plugin_abs s))
    \<and> plugin_inv code (snd (plugin_step (Execute j cv time accs) s))"
proof -
  have keep: "plugin_inv code (snd (plugin_step (Execute j cv time accs) s))"
    by (rule plugin_inv_cong [OF inv]) (simp_all add: split_beta callbacks_keep_code)
  obtain i cbs where e: "pl_code s ! j = (i, cbs)" by (cases "pl_code s ! j")
  have jl: "j < length (pl_code s)" and i: "code ! j = i"
    using inv j e by (auto simp: plugin_inv_def)
  have ok: "code_ok s i cbs" using inv nth_mem [OF jl] e by (auto simp: plugin_inv_def)
  have "fst (plugin_step (Execute j cv time accs) s) = fst (spec_step (code ! j) cv time accs (plugin_abs s))
    \<and> plugin_abs (snd (plugin_step (Execute j cv time accs) s)) = snd (spec_step (code ! j) cv time accs (plugin_abs s))"
  proof (cases "is_marker (pi_data i)")
    case True
    then obtain k where k: "cbs = [Exec_before k]" "udata_buf s ! k = (pi_data i ! 3, pi_data i ! 6, pi_data i ! 7)"
      using ok by (auto simp: code_ok_def)
    show ?thesis
      using True k
      by (simp add: e i plugin_abs_def vcpu_insn_exec_before_def qemu_plugin_nop_def Let_def)
  next
    case False
    then have cbs: "cbs = [Get_vaddr (pi_vaddr i), Get_paddr (pi_paddr i), exec_callback (pi_is_br_jmp i) (pi_target_vaddr i)]"
      using ok by (simp add: code_ok_def)
    have haddr: "concat (map (\<lambda>a. vcpu_haddr cv a t) as) =
        (if pq_status (g_pqii_data t) \<noteq> 0 \<and> recorded (pq_icount (g_pqii_data t))
         then map (data_event cv (pq_icount (g_pqii_data t))) (memory_accesses as) else [])" for t as
      by (induction as) (auto simp: vcpu_haddr_def recorded_def qemu_plugin_get_hwaddr_def tlb_plugin_lookup_def
          data_event_def memory_accesses_def Let_def)
    show ?thesis
      using False
      by (simp add: e i cbs plugin_abs_def exec_callback_runs insn_exec_def haddr recorded_def insn_event_def insn_kind_def insn_target_def
          qemu_plugin_get_cpuinfo_def Let_def)
  qed
  then show ?thesis using keep by simp
qed

lemma run_refines:
  assumes "plugin_inv code s" "acts_ok acts code"
  shows "fst (plugin_run acts s) = spec_run acts code (plugin_abs s)"
  using assms
proof (induction acts arbitrary: code s)
  case (Cons a acts)
  show ?case
  proof (cases a)
    case (Translate tb)
    have t: "plugin_inv (code @ tb) (vcpu_tb_trans tb s)" "plugin_abs (vcpu_tb_trans tb s) = plugin_abs s" "acts_ok acts (code @ tb)"
      using Cons.prems trans_inv [of code s tb] by (simp_all add: Translate)
    show ?thesis using Cons.IH [OF t(1,3)] t(2) by (simp add: Translate split_beta)
  next
    case (Execute j cv time accs)
    note e = exec_step [of code s j cv time accs]
    have t: "plugin_inv code (snd (plugin_step a s))" "acts_ok acts code"
      using Cons.prems e by (simp_all add: Execute del: plugin_step.simps spec_step.simps)
    show ?thesis using Cons.IH [OF t] Cons.prems e by (simp add: Execute split_beta del: plugin_step.simps spec_step.simps)
  qed
qed simp

lemma plugin_records_execution_aux:
  assumes "acts_ok acts []"
  shows "fst (plugin_run acts (plugin_new io)) = spec_run acts [] (False, 0)"
proof -
  have "plugin_inv [] (plugin_new io)" "plugin_abs (plugin_new io) = (False, 0)"
    by (simp_all add: plugin_inv_def plugin_new_def plugin_abs_def)
  then show ?thesis using run_refines [of "[]" "plugin_new io" acts] assms by simp
qed

text \<open>
  C35: The plugin records what its specification says, whatever blocks are
  translated and whatever translated instructions are run in whatever order:
  every marker with its own bytes, and, between a begin and an end marker and
  within the limit of instructions, every other instruction with its number,
  addresses, kind and target, followed by its accesses to memory.  This needs
  fewer than 10000 translated markers, as their bytes are kept in a buffer that is
  reused from the start.
\<close>

theorem plugin_records_execution:
  assumes "acts_ok acts []"
  shows "fst (plugin_run acts (plugin_new io)) = spec_run acts [] (False, 0)"
  using assms by (rule plugin_records_execution_aux)

end
