(* ===== verification/TraceExchange.thy ===== *)
theory TraceExchange
  imports TraceExample TracePlugin
begin

text \<open>
  The way of a trace from the emulated program to the simulator: what the
  plugin records, the trace backend writes to the file and the trace reader
  turns into instructions again.
\<close>

section \<open>Events in the file\<close>

definition header_for :: "u32 \<Rightarrow> event_spec \<Rightarrow> QEMU_event_header" where
  "header_for pid sp =
     \<lparr>eh_type = 1, eh_event = ucast (fst sp), eh_timestamp_ns = fst (snd sp), eh_length = of_nat (spec_len sp), eh_pid = pid\<rparr>"

lemma arg_bytes_u64: "concat (map arg_bytes (map Arg_u64 vs)) = enc64 vs"
  by (simp add: enc64_def comp_def)

lemma event_bytes_enc:
  "event_bytes pid (ev, time, map Arg_u64 vs) = enc_header (header_for pid (ev, time, map Arg_u64 vs)) @ enc64 vs"
  unfolding event_bytes.simps arg_bytes_u64 record_header_def
  by (simp add: enc_header_def header_for_def spec_len_def enc64_def)

text \<open>An executed instruction: the instruction, the processor, the clock and the accesses.\<close>

type_synonym executed_insn = "plugin_insn \<times> cpu_view \<times> u64 \<times> mem_access list"

definition insn_rec :: "u64 \<Rightarrow> executed_insn \<Rightarrow> QEMU_trace_insn" where
  "insn_rec n = (\<lambda>(i, cv, time, accs).
     \<lparr>ti_icount = n, ti_vaddr = pi_vaddr i, ti_paddr = pi_paddr i, ti_seg_states = ucast (ucast (cv_selector cv AND 3) :: u8),
      ti_cr3 = cv_cr3 cv, ti_br_type = ucast (insn_kind i), ti_target_vaddr = insn_target i\<rparr>)"

definition data_rec :: "u64 \<Rightarrow> cpu_view \<Rightarrow> mem_access \<Rightarrow> QEMU_trace_data" where
  "data_rec n cv a =
     \<lparr>td_icount = n, td_vaddr = ma_vaddr a, td_paddr = (ma_vaddr a AND 0xfff) + tv_paddr (ma_tlb a),
      td_load_store = (if bit (ma_info a) 6 then 1 else 0), td_length = ucast (ucast (push_bit (unat (ma_info a AND 0xf)) (1 :: u32)) :: u8),
      td_seg_states = ucast (ucast (cv_selector cv AND 3) :: u8), td_cr3 = cv_cr3 cv\<rparr>"

fun group_events :: "u64 \<Rightarrow> executed_insn \<Rightarrow> event_spec list" where
  "group_events n (i, cv, time, accs) = insn_event i cv time n # map (data_event cv n) (memory_accesses accs)"

fun group_header :: "u32 \<Rightarrow> u64 \<Rightarrow> executed_insn \<Rightarrow> QEMU_event_header" where
  "group_header pid n (i, cv, time, accs) = header_for pid (insn_event i cv time n)"

fun data_items :: "u32 \<Rightarrow> u64 \<Rightarrow> executed_insn \<Rightarrow> trace_event list" where
  "data_items pid n (i, cv, time, accs) =
     map (\<lambda>a. DataEvent (header_for pid (data_event cv n a)) (data_rec n cv a)) (memory_accesses accs)"

definition group_body :: "u32 \<Rightarrow> u64 \<Rightarrow> executed_insn \<Rightarrow> u8 list" where
  "group_body pid n x = enc_insn (insn_rec n x) @ concat (map enc_event (data_items pid n x))"

fun groups :: "u64 \<Rightarrow> executed_insn list \<Rightarrow> event_spec list" where
  "groups n [] = []"
| "groups n (x # xs) = group_events n x @ groups (n + 1) xs"

fun items :: "u32 \<Rightarrow> u64 \<Rightarrow> executed_insn list \<Rightarrow> trace_item list" where
  "items pid n (x # y # xs) =
     \<lparr>it_insn = insn_rec n x, it_events = data_items pid n x, it_next = group_header pid (n + 1) y\<rparr> # items pid (n + 1) (y # xs)"
| "items pid n _ = []"

lemma insn_event_bytes:
  "event_bytes pid (insn_event i cv time n) = enc_header (header_for pid (insn_event i cv time n)) @ enc_insn (insn_rec n (i, cv, time, accs))"
  unfolding insn_event_def trace_guest_trace_mem_access_itlb_def event_bytes_enc by (simp add: enc_insn_def insn_rec_def)

lemma data_event_bytes:
  "event_bytes pid (data_event cv n a) = enc_event (DataEvent (header_for pid (data_event cv n a)) (data_rec n cv a))"
  unfolding data_event_def trace_guest_trace_mem_access_tlb_def event_bytes_enc by (simp add: enc_data_def data_rec_def)

lemma group_bytes: "concat (map (event_bytes pid) (group_events n x)) = enc_header (group_header pid n x) @ group_body pid n x"
proof -
  obtain i cv time accs where x: "x = (i, cv, time, accs)" by (cases x)
  have "concat (map (event_bytes pid) (map (data_event cv n) as))
      = concat (map enc_event (map (\<lambda>a. DataEvent (header_for pid (data_event cv n a)) (data_rec n cv a)) as))" for as
    by (induction as) (simp_all add: data_event_bytes)
  then show ?thesis by (simp add: x group_body_def insn_event_bytes [of _ _ _ _ _ accs])
qed

lemma groups_bytes:
  "concat (map (event_bytes pid) (groups n (x # xs)))
   = enc_header (group_header pid n x) @ concat (map enc_item (items pid n (x # xs))) @ group_body pid (n + of_nat (length xs)) (last (x # xs))"
proof (induction xs arbitrary: n x)
  case (Cons y xs)
  have "n + 1 + of_nat (length xs) = n + of_nat (length (y # xs))" by simp
  then show ?case
    using Cons [of "n + 1" y] by (simp add: group_bytes enc_item_def group_body_def add.assoc del: group_header.simps data_items.simps)
qed (simp add: group_bytes del: group_header.simps)

section \<open>Instructions for the simulator\<close>

definition guest_instr :: "u64 \<Rightarrow> executed_insn \<Rightarrow> ooo_model_instr" where
  "guest_instr n x = (case x of (i, cv, time, accs) \<Rightarrow>
     (case memory_accesses accs of
        [] \<Rightarrow> instr_of_qemu (insn_rec n x)
      | a # _ \<Rightarrow> instr_of_qemu_data (insn_rec n x) (data_rec n cv a)))"

fun guest_instrs :: "u64 \<Rightarrow> executed_insn list \<Rightarrow> ooo_model_instr list" where
  "guest_instrs n (x # y # xs) = resolve_branch (pi_vaddr (fst y)) (guest_instr n x) # guest_instrs (n + 1) (y # xs)"
| "guest_instrs n _ = []"

lemma item_guest: "item_instr (hd (items pid n (x # y # xs))) = guest_instr n x"
  by (cases x) (simp add: item_instr_def guest_instr_def split: list.split)

lemma guest_ip: "i_ip (guest_instr n x) = pi_vaddr (fst x)"
  by (cases x) (simp add: guest_instr_def insn_rec_def instr_of_qemu_def instr_of_qemu_data_def Let_def split: list.split)

lemma resolved_items: "resolved (items pid n xs) = guest_instrs n (butlast xs)"
proof (induction xs arbitrary: n rule: induct_list012)
  case (3 x y zs)
  show ?case
  proof (cases zs)
    case (Cons z us)
    define a where "a = hd (items pid n (x # y # zs))"
    define b where "b = hd (items pid (n + 1) (y # zs))"
    have i: "items pid n (x # y # zs) = a # items pid (n + 1) (y # zs)" "items pid (n + 1) (y # zs) = b # items pid (n + 1 + 1) zs"
      by (simp_all add: a_def b_def Cons)
    have "item_instr a = guest_instr n x" "item_instr b = guest_instr (n + 1) y"
      unfolding a_def b_def Cons by (rule item_guest)+
    then have "resolved (items pid n (x # y # zs)) = resolve_branch (pi_vaddr (fst y)) (guest_instr n x) # resolved (items pid (n + 1) (y # zs))"
      unfolding i by (simp add: guest_ip)
    then show ?thesis using 3(2) [of "n + 1"] by (simp add: Cons)
  qed simp
qed simp_all

lemma items_ok: "\<forall>it \<in> set (items pid n xs). item_ok it"
proof (induction xs arbitrary: n rule: induct_list012)
  case (3 x y zs)
  have "item_ok \<lparr>it_insn = insn_rec n x, it_events = data_items pid n x, it_next = group_header pid (n + 1) y\<rparr>"
    by (cases x; cases y) (auto simp: item_ok_def header_for_def insn_event_def data_event_def
        trace_guest_trace_mem_access_itlb_def trace_guest_trace_mem_access_tlb_def split: list.split)
  then show ?case using 3(2) by simp
qed simp_all

lemma length_items: "length (items pid n xs) = length xs - 1"
  by (induction xs arbitrary: n rule: induct_list012) simp_all

section \<open>Recording\<close>

fun executed :: "guest_act list \<Rightarrow> plugin_insn list \<Rightarrow> executed_insn list" where
  "executed [] code = []"
| "executed (Translate tb # acts) code = executed acts (code @ tb)"
| "executed (Execute j cv time accs # acts) code = (code ! j, cv, time, accs) # executed acts code"

fun spec_list :: "executed_insn list \<Rightarrow> bool \<times> u64 \<Rightarrow> event_spec list" where
  "spec_list [] st = []"
| "spec_list ((i, cv, time, accs) # xs) st = (let (es, st) = spec_step i cv time accs st in es @ spec_list xs st)"

lemma spec_run_executed: "spec_run acts code st = spec_list (executed acts code) st"
proof (induction acts arbitrary: code st)
  case (Cons a acts)
  then show ?case by (cases a) (simp_all add: split_beta)
qed simp

lemma spec_list_recording:
  assumes "\<forall>x \<in> set xs. \<not> is_marker (pi_data (fst x))" "unat n + length xs \<le> 1000000000"
  shows "spec_list xs (True, n) = groups (n + 1) xs"
  using assms
proof (induction xs arbitrary: n)
  case (Cons x xs)
  obtain i cv time accs where x: "x = (i, cv, time, accs)" by (cases x)
  have n: "unat (n + 1) = unat n + 1"
    using unat_add_lem [THEN iffD1, of n 1] Cons.prems(2) by simp
  then have "n + 1 \<le> 1000000000" "0 < n + 1"
    using Cons.prems(2) by (simp_all add: word_le_nat_alt word_less_nat_alt)
  then show ?case using Cons.IH [of "n + 1"] Cons.prems n by (simp add: x recorded_def)
qed simp

section \<open>From the program to the simulator\<close>

lemma length_log_header: "length trace_log_header = 24"
  by (simp add: trace_log_header_def)

lemma begin_marker_bytes:
  "event_bytes pid (trace_guest_trace_nop time b0 b1 b2)
   = enc_header (header_for pid (trace_guest_trace_nop time b0 b1 b2)) @ enc_nop \<lparr>tn_byte0 = ucast b0, tn_byte1 = ucast b1, tn_byte2 = ucast b2\<rparr>"
  unfolding trace_guest_trace_nop_def event_bytes_enc by (simp add: enc_nop_def)

lemma qemu_open_trace:
  assumes "length mapping = 134081"
  shows "qemu_open jh jn (trace_log_header @ mapping @ event_bytes pid (trace_guest_trace_nop time 0xbe b1 b2)
      @ enc_header (group_header pid n x) @ rest) = Inr rest"
proof -
  have h: "eh_event (header_for pid (trace_guest_trace_nop time 0xbe b1 b2)) = 65" "eh_event (group_header pid n x) = 63"
    by (cases x; simp add: header_for_def trace_guest_trace_nop_def insn_event_def trace_guest_trace_mem_access_itlb_def)+
  show ?thesis
    unfolding qemu_open_def begin_marker_bytes
    by (simp add: fread_enc length_log_header assms h Let_def errs)
qed

lemma read_groups:
  assumes "2 < length xs"
  shows "\<exists>r. get_n (length xs - 2) \<lparr>qt_file = concat (map enc_item (items pid n xs)) @ rest, qt_last_instr = None\<rparr>
             = Inr (guest_instrs n (butlast xs), r)"
proof -
  have l: "length (items pid n xs) = length xs - 1" by (rule length_items)
  then obtain a b its where i: "items pid n xs = a # b # its"
    using assms by (cases "items pid n xs"; cases "tl (items pid n xs)") auto
  have ok: "item_ok a" "item_ok b" "\<forall>it \<in> set its. item_ok it" using items_ok [of pid n xs] by (simp_all add: i)
  have n: "length xs - 2 = Suc (length its)" using l i by simp
  have "qemu_get \<lparr>qt_file = concat (map enc_item (items pid n xs)) @ rest, qt_last_instr = None\<rparr>
      = Inr (resolve_branch (i_ip (item_instr b)) (item_instr a),
             \<lparr>qt_file = concat (map enc_item its) @ rest, qt_last_instr = Some (item_instr b)\<rparr>)"
    by (simp add: i qemu_get_def read_item ok)
  then show ?thesis
    using get_n_items [OF ok(3), of rest b] resolved_items [of pid n xs] by (simp add: n i)
qed


lemma get_n_fails:
  assumes "\<forall>it \<in> set its. item_ok it" "read_single_instr_qemutrace rest = Inl err" "length its < k"
  shows "get_n k \<lparr>qt_file = concat (map enc_item its) @ rest, qt_last_instr = Some i\<rparr> = Inl err"
  using assms
proof (induction its arbitrary: i k)
  case Nil
  then show ?case by (cases k) (simp_all add: qemu_get_def)
next
  case (Cons it its)
  obtain k' where "k = Suc k'" "length its < k'" using Cons.prems(3) by (cases k) auto
  then show ?case using Cons.IH [of k' "item_instr it"] Cons.prems by (simp add: qemu_get_def read_item)
qed

lemma read_groups_fails:
  assumes "xs \<noteq> []" "read_single_instr_qemutrace rest = Inl err"
  shows "get_n (length xs) \<lparr>qt_file = concat (map enc_item (items pid n xs)) @ rest, qt_last_instr = None\<rparr> = Inl err"
proof (cases "items pid n xs")
  case Nil
  then show ?thesis using assms by (cases "length xs") (simp_all add: qemu_get_def)
next
  case (Cons a its)
  have ok: "item_ok a" "\<forall>it \<in> set its. item_ok it" using items_ok [of pid n xs] by (simp_all add: Cons)
  have n: "length xs = Suc (Suc (length its))" using length_items [of pid n xs] by (simp add: Cons)
  show ?thesis
  proof (cases its)
    case Nil
    then show ?thesis using assms(2) ok(1) by (simp add: n Cons qemu_get_def read_item)
  next
    case c: (Cons b its')
    have "get_n (Suc (Suc (length its'))) \<lparr>qt_file = concat (map enc_item its') @ rest, qt_last_instr = Some (item_instr b)\<rparr> = Inl err"
      by (rule get_n_fails [OF _ assms(2)]) (use ok c in simp_all)
    moreover have "get_n (length xs) r = bindE (qemu_get r) (\<lambda>(i, r). bindE (get_n (Suc (Suc (length its'))) r) (\<lambda>(is, r). Inr (i # is, r)))" for r
      by (simp only: n c list.size add_Suc_right add_0_right get_n.simps)
    ultimately show ?thesis using ok c by (simp add: Cons qemu_get_def read_item del: get_n.simps)
  qed
qed

lemma read_two_markers:
  assumes "eh_event h = 65" "eh_event h' = 65"
  shows "read_single_instr_qemutrace (enc_insn i @ enc_header h @ enc_nop m @ enc_header h' @ rest)
    = Inl (AssertFailed ''header.event == EVENT_ID_INSN'')"
  using assms by (simp add: read_single_instr_qemutrace_def fread_or_exit_enc errs)

lemma groups_append: "groups n (xs @ ys) = groups n xs @ groups (n + of_nat (length xs)) ys"
  by (induction xs arbitrary: n) (simp_all add: add.assoc)

lemma spec_list_append_recording:
  assumes "\<forall>x \<in> set xs. \<not> is_marker (pi_data (fst x))" "unat n + length xs \<le> 1000000000"
  shows "spec_list (xs @ ys) (True, n) = groups (n + 1) xs @ spec_list ys (True, n + of_nat (length xs))"
  using assms
proof (induction xs arbitrary: n)
  case (Cons x xs)
  obtain i cv time accs where x: "x = (i, cv, time, accs)" by (cases x)
  have n: "unat (n + 1) = unat n + 1"
    using unat_add_lem [THEN iffD1, of n 1] Cons.prems(2) by simp
  then have "n + 1 \<le> 1000000000" "0 < n + 1"
    using Cons.prems(2) by (simp_all add: word_le_nat_alt word_less_nat_alt)
  then show ?case using Cons.IH [of "n + 1"] Cons.prems n by (simp add: x recorded_def add.assoc)
qed simp


text \<open>A program of three instructions after its begin marker: a load, a taken branch, and the target of the branch.\<close>

definition demo_insn :: "u8 list \<Rightarrow> u64 \<Rightarrow> nat \<Rightarrow> u64 \<Rightarrow> plugin_insn" where
  "demo_insn bytes vaddr kind target =
     \<lparr>pi_data = bytes, pi_vaddr = vaddr, pi_paddr = vaddr, pi_is_br_jmp = kind, pi_target_vaddr = target\<rparr>"

definition demo_tb :: "plugin_insn list" where
  "demo_tb = [demo_insn [0x0f, 0x1f, 0x84, 0xbe, 0, 0, 1, 2] 4096 0 0, demo_insn [0x90] 4104 0 0,
              demo_insn [0x75] 4105 1 8192, demo_insn [0x90] 8192 0 0]"

definition demo_cpu :: cpu_view where "demo_cpu = \<lparr>cv_selector = 3, cv_cr3 = 0\<rparr>"

definition demo_load :: mem_access where
  "demo_load = \<lparr>ma_info = 3, ma_vaddr = 65540, ma_tlb = \<lparr>tv_hit = True, tv_mmio = False, tv_paddr = 131072\<rparr>, ma_time = 3\<rparr>"

definition demo_guest :: "guest_act list" where
  "demo_guest = [Translate demo_tb, Execute 0 demo_cpu 1 [], Execute 1 demo_cpu 2 [demo_load],
                 Execute 2 demo_cpu 4 [], Execute 3 demo_cpu 5 []]"

definition demo_executed :: "executed_insn list" where
  "demo_executed = [(demo_tb ! 1, demo_cpu, 2, [demo_load]), (demo_tb ! 2, demo_cpu, 4, []), (demo_tb ! 3, demo_cpu, 5, [])]"

definition demo_mapping :: "(u64 \<times> u8 list) list" where
  "demo_mapping = [(0, replicate 134061 0)]"

lemma demo_guest_facts:
  "acts_ok demo_guest []" "executed demo_guest [] = (demo_tb ! 0, demo_cpu, 1, []) # demo_executed"
  "is_marker (pi_data (demo_tb ! 0))" "pi_data (demo_tb ! 0) ! 3 = 0xbe"
  "\<forall>x \<in> set demo_executed. \<not> is_marker (pi_data (fst x))" "2 < length demo_executed" "length demo_executed \<le> 1000000000"
  "length (event_mapping demo_mapping) = 134081"
  by (simp_all add: demo_guest_def demo_executed_def demo_tb_def demo_insn_def is_marker_def markers_def event_mapping_def demo_mapping_def)

definition demo_recorded :: "event_spec list" where
  "demo_recorded = fst (plugin_run demo_guest (plugin_new False))"

lemma demo_recorded_len: "list_all (\<lambda>sp. spec_len sp \<le> 1024) demo_recorded" "sum_list (map spec_len demo_recorded) \<le> 1024"
  unfolding demo_recorded_def plugin_records_execution_aux [OF demo_guest_facts(1)] spec_run_executed demo_guest_facts(2)
  using demo_guest_facts(3,5)
  by (simp_all add: demo_executed_def spec_len_def insn_event_def data_event_def memory_accesses_def args_size_def
      trace_guest_trace_mem_access_itlb_def trace_guest_trace_mem_access_tlb_def trace_guest_trace_nop_def)

lemma demo_record_run:
  "\<exists>y. trace_run 1024 0 (concat (map (simple_acts 0) demo_recorded)) (st_init 1024 1 demo_mapping) = Some y
     \<and> ts_producers y = Map.empty \<and> ts_writer y = Waiting"
  using record_events [of "st_init 1024 1 demo_mapping" 0 1024 0 demo_recorded 0] demo_recorded_len(2)
  by (auto simp: st_init_def same_thread_state_def)


theorem plugin_records_execution_witness:
  "fst (plugin_run demo_guest (plugin_new False)) = trace_guest_trace_nop 1 0xbe 1 2 # groups 1 demo_executed"
proof -
  have "spec_run demo_guest [] (False, 0) = trace_guest_trace_nop 1 0xbe 1 2 # groups 1 demo_executed"
    unfolding spec_run_executed demo_guest_facts(2) using demo_guest_facts(3-7)
    by (simp add: spec_list_recording) (simp add: demo_tb_def demo_insn_def)
  then show ?thesis using plugin_records_execution [OF demo_guest_facts(1), of False] by simp
qed

definition demo_regions :: "guest_act list" where
  "demo_regions = [Translate (demo_tb @ [demo_insn [0x0f, 0x1f, 0x84, 0xed, 0, 0, 1, 2] 4200 0 0]),
     Execute 0 demo_cpu 1 [], Execute 1 demo_cpu 2 [], Execute 4 demo_cpu 3 [], Execute 0 demo_cpu 4 []]"


end
