(* ===== verification/Pqii.thy ===== *)
theory Pqii
  imports TracePlugin
begin

text \<open>
  The PCI device through which the emulated program controls the recording
  (\<open>hw/misc/pqii.c\<close>): its registers, its transfers between a buffer of its own
  and the memory of the guest, its thread that computes factorials, and its
  interrupt.  The memory of the guest, the interrupt line and the count of
  message-signalled interrupts are part of the state; whether these are enabled
  is a parameter of the device.  The program ends with an error message, here a
  failed assertion, when a transfer is out of range.
\<close>

section \<open>State\<close>

record dma_state =
  dma_src :: u64
  dma_dst :: u64
  dma_cnt :: u64
  dma_cmd :: u64

text \<open>Where the thread for factorials is: it waits, computes, has stored its result, or has cleared the status.\<close>

datatype fact_pc = F_wait | F_compute u32 | F_stored | F_cleared

record PqiiState =
  addr4 :: u32
  p_fact :: u32
  p_status :: u32
  irq_status :: u32
  dma :: dma_state
  dma_timer :: "u64 option"
  dma_buf :: "u8 list"
  dma_mask :: u64
  p_data :: pqii_data
  p_pc :: fact_pc
  p_line :: bool
  p_msi_count :: nat
  p_memory :: "u64 \<Rightarrow> u8"

abbreviation (input) FACT_IRQ :: u32 where "FACT_IRQ \<equiv> 1"
abbreviation (input) DMA_IRQ :: u32 where "DMA_IRQ \<equiv> 0x100"
abbreviation (input) DMA_START :: u64 where "DMA_START \<equiv> 0x40000"
abbreviation (input) DMA_SIZE :: nat where "DMA_SIZE \<equiv> 4096"
abbreviation (input) PQII_STATUS_COMPUTING :: u32 where "PQII_STATUS_COMPUTING \<equiv> 1"
abbreviation (input) PQII_STATUS_IRQFACT :: u32 where "PQII_STATUS_IRQFACT \<equiv> 0x80"
abbreviation (input) PQII_DMA_RUN :: u64 where "PQII_DMA_RUN \<equiv> 1"
abbreviation (input) PQII_DMA_IRQ :: u64 where "PQII_DMA_IRQ \<equiv> 4"

definition pqii_instance_init :: "(u64 \<Rightarrow> u8) \<Rightarrow> PqiiState" where
  "pqii_instance_init memory =
     \<lparr>addr4 = 0, p_fact = 0, p_status = 0, irq_status = 0,
      dma = \<lparr>dma_src = 0, dma_dst = 0, dma_cnt = 0, dma_cmd = 0\<rparr>, dma_timer = None,
      dma_buf = replicate DMA_SIZE 0, dma_mask = push_bit 28 1 - 1,
      p_data = \<lparr>pq_status = 0, pq_icount = 0\<rparr>, p_pc = F_wait, p_line = False, p_msi_count = 0, p_memory = memory\<rparr>"

section \<open>Interrupts\<close>

definition pqii_raise_irq :: "bool \<Rightarrow> u32 \<Rightarrow> PqiiState \<Rightarrow> PqiiState" where
  "pqii_raise_irq msi val s =
     (let s = s\<lparr>irq_status := irq_status s OR val\<rparr> in
      if irq_status s \<noteq> 0
      then if msi then s\<lparr>p_msi_count := p_msi_count s + 1\<rparr> else s\<lparr>p_line := True\<rparr>
      else s)"

definition pqii_lower_irq :: "bool \<Rightarrow> u32 \<Rightarrow> PqiiState \<Rightarrow> PqiiState" where
  "pqii_lower_irq msi val s =
     (let s = s\<lparr>irq_status := irq_status s AND NOT val\<rparr> in
      if irq_status s = 0 \<and> \<not> msi then s\<lparr>p_line := False\<rparr> else s)"

section \<open>Transfers\<close>

definition within :: "u64 \<Rightarrow> u64 \<Rightarrow> u64 \<Rightarrow> bool" where
  "within addr start end' \<longleftrightarrow> start \<le> addr \<and> addr < end'"

definition pqii_check_range :: "u64 \<Rightarrow> u64 \<Rightarrow> u64 \<Rightarrow> u64 \<Rightarrow> unit result" where
  "pqii_check_range addr size1 start size2 =
     (let end1 = addr + size1; end2 = start + size2 in
      assertE ''DMA range'' (within addr start end2 \<and> end1 > addr \<and> within end1 start end2))"

definition pqii_clamp_addr :: "PqiiState \<Rightarrow> u64 \<Rightarrow> u64" where
  "pqii_clamp_addr s addr = addr AND dma_mask s"

text \<open>The transfers of \<open>pci_dma_read\<close> and \<open>pci_dma_write\<close>; an access outside of the buffer is undefined.\<close>

definition pci_dma_read :: "u64 \<Rightarrow> nat \<Rightarrow> nat \<Rightarrow> PqiiState \<Rightarrow> PqiiState result" where
  "pci_dma_read addr off len s =
     (if off + len \<le> length (dma_buf s)
      then Inr (s\<lparr>dma_buf := take off (dma_buf s) @ map (\<lambda>i. p_memory s (addr + of_nat i)) [0..<len] @ drop (off + len) (dma_buf s)\<rparr>)
      else Inl (Undefined ''dma_buf''))"

definition pci_dma_write :: "u64 \<Rightarrow> nat \<Rightarrow> nat \<Rightarrow> PqiiState \<Rightarrow> PqiiState result" where
  "pci_dma_write addr off len s =
     (if off + len \<le> length (dma_buf s)
      then Inr (s\<lparr>p_memory := foldl (\<lambda>m i. m(addr + of_nat i := dma_buf s ! (off + i))) (p_memory s) [0..<len]\<rparr>)
      else Inl (Undefined ''dma_buf''))"

definition pqii_dma_timer :: "bool \<Rightarrow> PqiiState \<Rightarrow> PqiiState result" where
  "pqii_dma_timer msi s =
     (let d = dma s; s = s\<lparr>dma_timer := None\<rparr> in
      if dma_cmd d AND PQII_DMA_RUN = 0 then Inr s
      else
        bindE (if drop_bit 1 (dma_cmd d AND 2) = 0 then
                 bindE (pqii_check_range (dma_dst d) (dma_cnt d) DMA_START (of_nat DMA_SIZE)) (\<lambda>_.
                 pci_dma_read (pqii_clamp_addr s (dma_src d)) (unat (dma_dst d - DMA_START)) (unat (dma_cnt d)) s)
               else
                 bindE (pqii_check_range (dma_src d) (dma_cnt d) DMA_START (of_nat DMA_SIZE)) (\<lambda>_.
                 pci_dma_write (pqii_clamp_addr s (dma_dst d)) (unat (dma_src d - DMA_START)) (unat (dma_cnt d)) s))
          (\<lambda>s. let s = s\<lparr>dma := (dma s)\<lparr>dma_cmd := dma_cmd (dma s) AND NOT PQII_DMA_RUN\<rparr>\<rparr>
               in Inr (if dma_cmd (dma s) AND PQII_DMA_IRQ \<noteq> 0 then pqii_raise_irq msi DMA_IRQ s else s)))"

text \<open>The writing half of \<open>dma_rw\<close>, given how the register is set; the reading half returns the register.\<close>

definition dma_rw :: "u64 \<Rightarrow> (u64 \<Rightarrow> dma_state \<Rightarrow> dma_state) \<Rightarrow> u64 \<Rightarrow> bool \<Rightarrow> PqiiState \<Rightarrow> PqiiState" where
  "dma_rw now upd val timer s =
     (if dma_cmd (dma s) AND PQII_DMA_RUN \<noteq> 0 then s
      else let s = s\<lparr>dma := upd val (dma s)\<rparr>
           in if timer then s\<lparr>dma_timer := Some (now + 100)\<rparr> else s)"

section \<open>Registers\<close>

definition pqii_mmio_read :: "u64 \<Rightarrow> nat \<Rightarrow> PqiiState \<Rightarrow> u64" where
  "pqii_mmio_read addr len s =
     (let val = - 1 in
      if addr < 0x80 \<and> len \<noteq> 4 then val
      else if addr \<ge> 0x80 \<and> len \<noteq> 4 \<and> len \<noteq> 8 then val
      else if addr = 0x00 then 0x010000ed
      else if addr = 0x04 then ucast (addr4 s)
      else if addr = 0x08 then ucast (p_fact s)
      else if addr = 0x20 then ucast (p_status s)
      else if addr = 0x24 then ucast (irq_status s)
      else if addr = 0x80 then dma_src (dma s)
      else if addr = 0x88 then dma_dst (dma s)
      else if addr = 0x90 then dma_cnt (dma s)
      else if addr = 0x98 then dma_cmd (dma s)
      else val)"

definition pqii_mmio_write :: "bool \<Rightarrow> u64 \<Rightarrow> u64 \<Rightarrow> u64 \<Rightarrow> nat \<Rightarrow> PqiiState \<Rightarrow> PqiiState" where
  "pqii_mmio_write msi now addr val len s =
     (if addr < 0x80 \<and> len \<noteq> 4 then s
      else if addr \<ge> 0x80 \<and> len \<noteq> 4 \<and> len \<noteq> 8 then s
      else if addr = 0x04 then s\<lparr>addr4 := ucast (NOT val)\<rparr>
      else if addr = 0x08 then
        if p_status s AND PQII_STATUS_COMPUTING \<noteq> 0 then s
        else s\<lparr>p_fact := ucast val, p_status := p_status s OR PQII_STATUS_COMPUTING\<rparr>
      else if addr = 0x20 then
        if val AND ucast PQII_STATUS_IRQFACT \<noteq> 0 then s\<lparr>p_status := p_status s OR PQII_STATUS_IRQFACT\<rparr>
        else s\<lparr>p_status := p_status s AND NOT PQII_STATUS_IRQFACT\<rparr>
      else if addr = 0x60 then pqii_raise_irq msi (ucast val) s
      else if addr = 0x64 then pqii_lower_irq msi (ucast val) s
      else if addr = 0x80 then dma_rw now (\<lambda>v d. d\<lparr>dma_src := v\<rparr>) val False s
      else if addr = 0x88 then dma_rw now (\<lambda>v d. d\<lparr>dma_dst := v\<rparr>) val False s
      else if addr = 0x90 then dma_rw now (\<lambda>v d. d\<lparr>dma_cnt := v\<rparr>) val False s
      else if addr = 0x98 then
        if val AND PQII_DMA_RUN = 0 then s else dma_rw now (\<lambda>v d. d\<lparr>dma_cmd := v\<rparr>) val True s
      else if addr = 0xa0 then
        s\<lparr>p_data := \<lparr>pq_status = (if pq_status (p_data s) = 0 then 1 else 0), pq_icount = 0\<rparr>\<rparr>
      else s)"

definition pqii_post_load :: "PqiiState \<Rightarrow> PqiiState" where
  "pqii_post_load s = s\<lparr>p_data := (p_data s)\<lparr>pq_status := 0\<rparr>\<rparr>"

section \<open>The thread for factorials\<close>

lemma unat_pred: "0 < (v :: u32) \<Longrightarrow> unat (v - 1) < unat v"
  by (simp add: word_gt_0 unat_minus_one unat_gt_0)

function fact_loop :: "u32 \<Rightarrow> u32 \<Rightarrow> u32" where
  "fact_loop val ret = (if val > 0 then fact_loop (val - 1) (ret * val) else ret)"
  by auto
termination
  by (relation "measure (\<lambda>(val, ret). unat val)") (simp_all add: unat_pred)

declare fact_loop.simps [simp del]

text \<open>One round of the thread, in the steps between which the registers can be accessed.\<close>

definition pqii_fact_step :: "bool \<Rightarrow> PqiiState \<Rightarrow> PqiiState" where
  "pqii_fact_step msi s =
     (case p_pc s of
        F_wait \<Rightarrow> if p_status s AND PQII_STATUS_COMPUTING = 0 then s else s\<lparr>p_pc := F_compute (p_fact s)\<rparr>
      | F_compute val \<Rightarrow> s\<lparr>p_fact := fact_loop val 1, p_pc := F_stored\<rparr>
      | F_stored \<Rightarrow> s\<lparr>p_status := p_status s AND NOT PQII_STATUS_COMPUTING, p_pc := F_cleared\<rparr>
      | F_cleared \<Rightarrow>
          (let s = s\<lparr>p_pc := F_wait\<rparr>
           in if p_status s AND PQII_STATUS_IRQFACT \<noteq> 0 then pqii_raise_irq msi FACT_IRQ s else s))"

section \<open>Runs\<close>

datatype pqii_act =
    Mmio_write u64 u64 u64 nat
  | Dma_timer
  | Fact_step
  | Post_load

fun pqii_step :: "bool \<Rightarrow> pqii_act \<Rightarrow> PqiiState \<Rightarrow> PqiiState result" where
  "pqii_step msi (Mmio_write now addr val len) s = Inr (pqii_mmio_write msi now addr val len s)"
| "pqii_step msi Dma_timer s = (if dma_timer s = None then Inr s else pqii_dma_timer msi s)"
| "pqii_step msi Fact_step s = Inr (pqii_fact_step msi s)"
| "pqii_step msi Post_load s = Inr (pqii_post_load s)"

fun pqii_run :: "bool \<Rightarrow> pqii_act list \<Rightarrow> PqiiState \<Rightarrow> PqiiState result" where
  "pqii_run msi [] s = Inr s"
| "pqii_run msi (a # acts) s = bindE (pqii_step msi a s) (pqii_run msi acts)"

section \<open>Lemmas\<close>

lemma fact_loop_fact: "fact_loop val ret = ret * of_nat (fact (unat val))"
proof (induction val ret rule: fact_loop.induct)
  case (1 val ret)
  show ?case
  proof (cases "val = 0")
    case False
    then have "unat val = Suc (unat (val - 1))" by (simp add: unat_minus_one unat_gt_0)
    then have "fact (unat val) = unat val * fact (unat (val - 1))" by (metis fact_Suc of_nat_id)
    then show ?thesis using False 1 by (subst fact_loop.simps) (simp add: word_gt_0 ac_simps)
  qed (simp add: fact_loop.simps)
qed

definition in_range :: "u64 \<Rightarrow> u64 \<Rightarrow> bool" where
  "in_range addr cnt \<longleftrightarrow> unat DMA_START \<le> unat addr \<and> 0 < unat cnt \<and> unat addr + unat cnt < unat DMA_START + DMA_SIZE"

lemma check_range_iff:
  "pqii_check_range addr cnt DMA_START 4096 = (if in_range addr cnt then Inr () else Inl (AssertFailed ''DMA range''))"
proof -
  have "within addr DMA_START (DMA_START + 4096) \<and> addr + cnt > addr \<and> within (addr + cnt) DMA_START (DMA_START + 4096)
      \<longleftrightarrow> in_range addr cnt" (is "?L \<longleftrightarrow> ?R")
  proof
    assume L: ?L
    then have a: "unat addr < 0x41000" "0x40000 \<le> unat addr" "unat addr < unat (addr + cnt)" "unat (addr + cnt) < 0x41000"
      by (simp_all add: within_def word_less_nat_alt word_le_nat_alt)
    have c: "unat cnt < 2 ^ 64" using unsigned_less [of cnt, where ?'a = nat] by simp
    have "unat (addr + cnt) = (unat addr + unat cnt) mod 2 ^ 64" by (simp add: unat_word_ariths(1))
    moreover have "unat addr + unat cnt < 2 ^ 64"
    proof (rule ccontr)
      assume "\<not> unat addr + unat cnt < 2 ^ 64"
      then have "(unat addr + unat cnt) mod 2 ^ 64 = unat addr + unat cnt - 2 ^ 64"
        using a(1) c by (simp add: mod_if)
      then show False using a(3) c \<open>unat (addr + cnt) = (unat addr + unat cnt) mod 2 ^ 64\<close> by linarith
    qed
    ultimately show ?R using a by (simp add: in_range_def)
  next
    assume R: ?R
    then have "unat (addr + cnt) = unat addr + unat cnt"
      by (simp add: in_range_def unat_word_ariths(1))
    then show ?L using R by (simp add: in_range_def within_def word_less_nat_alt word_le_nat_alt)
  qed
  then show ?thesis by (simp add: pqii_check_range_def Let_def assertE_def)
qed

lemma in_range_buffer:
  assumes "in_range addr cnt"
  shows "unat (addr - DMA_START) = unat addr - unat DMA_START" "unat (addr - DMA_START) + unat cnt \<le> DMA_SIZE"
proof -
  show e: "unat (addr - DMA_START) = unat addr - unat DMA_START"
    using assms by (intro unat_sub) (simp add: in_range_def word_le_nat_alt)
  show "unat (addr - DMA_START) + unat cnt \<le> DMA_SIZE"
    unfolding e using assms by (simp add: in_range_def) arith
qed

section \<open>Properties\<close>

definition pqii_ok :: "bool \<Rightarrow> PqiiState \<Rightarrow> bool" where
  "pqii_ok msi s \<longleftrightarrow> length (dma_buf s) = DMA_SIZE
     \<and> (dma_timer s \<noteq> None \<longleftrightarrow> dma_cmd (dma s) AND PQII_DMA_RUN \<noteq> 0)
     \<and> (\<not> msi \<longrightarrow> p_line s = (irq_status s \<noteq> 0))"

lemma raise_ok: "pqii_ok msi s \<Longrightarrow> pqii_ok msi (pqii_raise_irq msi v s)"
  by (auto simp: pqii_ok_def pqii_raise_irq_def Let_def or_eq_0_iff)

lemma lower_ok: "pqii_ok msi s \<Longrightarrow> pqii_ok msi (pqii_lower_irq msi v s)"
  by (auto simp: pqii_ok_def pqii_lower_irq_def Let_def)

lemma dma_rw_ok:
  assumes "pqii_ok msi s" "dma_cmd (dma s) AND PQII_DMA_RUN = 0 \<Longrightarrow> timer \<longleftrightarrow> dma_cmd (upd val (dma s)) AND PQII_DMA_RUN \<noteq> 0"
  shows "pqii_ok msi (dma_rw now upd val timer s)"
  using assms by (auto simp: pqii_ok_def dma_rw_def Let_def)

lemma pqii_ok_if:
  "(b \<Longrightarrow> pqii_ok msi x) \<Longrightarrow> (\<not> b \<Longrightarrow> pqii_ok msi y) \<Longrightarrow> pqii_ok msi (if b then x else y)"
  by simp

lemma write_ok:
  assumes "pqii_ok msi s"
  shows "pqii_ok msi (pqii_mmio_write msi now addr val len s)"
proof -
  have upd: "pqii_ok msi (s\<lparr>addr4 := a\<rparr>)" "pqii_ok msi (s\<lparr>p_fact := f, p_status := t\<rparr>)" "pqii_ok msi (s\<lparr>p_status := t\<rparr>)"
    "pqii_ok msi (s\<lparr>p_data := d\<rparr>)" for a f t d
    using assms by (simp_all add: pqii_ok_def)
  have rw: "pqii_ok msi (dma_rw now (\<lambda>v d. d\<lparr>dma_src := v\<rparr>) val False s)"
    "pqii_ok msi (dma_rw now (\<lambda>v d. d\<lparr>dma_dst := v\<rparr>) val False s)"
    "pqii_ok msi (dma_rw now (\<lambda>v d. d\<lparr>dma_cnt := v\<rparr>) val False s)"
    "val AND PQII_DMA_RUN \<noteq> 0 \<Longrightarrow> pqii_ok msi (dma_rw now (\<lambda>v d. d\<lparr>dma_cmd := v\<rparr>) val True s)"
    by (rule dma_rw_ok [OF assms]; simp)+
  show ?thesis
    unfolding pqii_mmio_write_def
    by (intro pqii_ok_if)
       (rule assms upd rw(1-3) raise_ok [OF assms] lower_ok [OF assms] | (rule rw(4), assumption))+
qed

lemma fact_step_ok: "pqii_ok msi s \<Longrightarrow> pqii_ok msi (pqii_fact_step msi s)"
proof -
  assume ok: "pqii_ok msi s"
  have r: "pqii_ok msi (pqii_raise_irq msi FACT_IRQ (s\<lparr>p_pc := F_wait\<rparr>))"
    by (rule raise_ok) (use ok in \<open>simp add: pqii_ok_def\<close>)
  have "pqii_ok msi (s\<lparr>p_pc := c\<rparr>)" "pqii_ok msi (s\<lparr>p_fact := f, p_pc := c\<rparr>)" "pqii_ok msi (s\<lparr>p_status := t, p_pc := c\<rparr>)" for c f t
    using ok by (simp_all add: pqii_ok_def)
  then show ?thesis using ok r by (simp add: pqii_fact_step_def Let_def split: fact_pc.split)
qed

lemma dma_read_in_range:
  assumes "length (dma_buf s) = DMA_SIZE" "in_range a n"
  shows "pci_dma_read addr (unat (a - DMA_START)) (unat n) s
    = Inr (s\<lparr>dma_buf := take (unat a - unat DMA_START) (dma_buf s) @ map (\<lambda>i. p_memory s (addr + of_nat i)) [0..<unat n]
             @ drop (unat a - unat DMA_START + unat n) (dma_buf s)\<rparr>)"
  using assms in_range_buffer [OF assms(2)] by (simp add: pci_dma_read_def)

lemma dma_write_in_range:
  assumes "length (dma_buf s) = DMA_SIZE" "in_range a n"
  shows "pci_dma_write addr (unat (a - DMA_START)) (unat n) s
    = Inr (s\<lparr>p_memory := foldl (\<lambda>m i. m(addr + of_nat i := dma_buf s ! (unat a - unat DMA_START + i))) (p_memory s) [0..<unat n]\<rparr>)"
  using assms in_range_buffer [OF assms(2)] by (simp add: pci_dma_write_def)

text \<open>What a transfer does, as one equation.\<close>

definition finish_dma :: "bool \<Rightarrow> PqiiState \<Rightarrow> PqiiState" where
  "finish_dma msi s =
     (let s = s\<lparr>dma := (dma s)\<lparr>dma_cmd := dma_cmd (dma s) AND NOT PQII_DMA_RUN\<rparr>\<rparr>
      in if dma_cmd (dma s) AND PQII_DMA_IRQ \<noteq> 0 then pqii_raise_irq msi DMA_IRQ s else s)"

lemma dma_timer_eq:
  assumes "length (dma_buf s) = DMA_SIZE" "dma_cmd (dma s) AND PQII_DMA_RUN \<noteq> 0"
  shows "pqii_dma_timer msi s =
     (let d = dma s; from_pci = (drop_bit 1 (dma_cmd d AND 2) = 0); a = (if from_pci then dma_dst d else dma_src d) in
      if \<not> in_range a (dma_cnt d) then Inl (AssertFailed ''DMA range'')
      else let off = unat a - unat DMA_START; n = unat (dma_cnt d) in
        if from_pci
        then Inr (finish_dma msi (s\<lparr>dma_timer := None, dma_buf := take off (dma_buf s)
               @ map (\<lambda>i. p_memory s ((dma_src d AND dma_mask s) + of_nat i)) [0..<n] @ drop (off + n) (dma_buf s)\<rparr>))
        else Inr (finish_dma msi (s\<lparr>dma_timer := None,
               p_memory := foldl (\<lambda>m i. m((dma_dst d AND dma_mask s) + of_nat i := dma_buf s ! (off + i))) (p_memory s) [0..<n]\<rparr>)))"
  using assms
  by (cases "drop_bit 1 (dma_cmd (dma s) AND 2) = 0"; cases "in_range (dma_dst (dma s)) (dma_cnt (dma s))";
      cases "in_range (dma_src (dma s)) (dma_cnt (dma s))")
     (simp_all add: pqii_dma_timer_def check_range_iff dma_read_in_range [simplified] dma_write_in_range [simplified]
       pqii_clamp_addr_def finish_dma_def Let_def errs)

lemma finish_ok:
  assumes "length (dma_buf s) = DMA_SIZE" "dma_timer s = None" "\<not> msi \<longrightarrow> p_line s = (irq_status s \<noteq> 0)"
  shows "pqii_ok msi (finish_dma msi s)"
proof -
  have "pqii_ok msi (s\<lparr>dma := (dma s)\<lparr>dma_cmd := dma_cmd (dma s) AND NOT PQII_DMA_RUN\<rparr>\<rparr>)"
    using assms by (simp add: pqii_ok_def and.assoc)
  then show ?thesis using raise_ok by (simp add: finish_dma_def Let_def)
qed

lemma dma_timer_ok:
  assumes ok: "pqii_ok msi s"
  shows "case pqii_step msi Dma_timer s of Inl e \<Rightarrow> e = AssertFailed ''DMA range'' | Inr s' \<Rightarrow> pqii_ok msi s'"
proof (cases "dma_timer s")
  case (Some t)
  then have l: "length (dma_buf s) = DMA_SIZE" "dma_cmd (dma s) AND PQII_DMA_RUN \<noteq> 0"
    "\<not> msi \<longrightarrow> p_line s = (irq_status s \<noteq> 0)" using ok by (auto simp: pqii_ok_def)
  show ?thesis
    using Some l(1,3) in_range_buffer [of "dma_dst (dma s)" "dma_cnt (dma s)"]
    by (simp add: dma_timer_eq [OF l(1,2)] Let_def finish_ok)
qed (use ok in simp)

lemma run_ok:
  assumes "pqii_ok msi s"
  shows "case pqii_run msi acts s of Inl e \<Rightarrow> e = AssertFailed ''DMA range'' | Inr s' \<Rightarrow> pqii_ok msi s'"
  using assms
proof (induction acts arbitrary: s)
  case (Cons a acts)
  have "case pqii_step msi a s of Inl e \<Rightarrow> e = AssertFailed ''DMA range'' | Inr s' \<Rightarrow> pqii_ok msi s'"
  proof (cases a)
    case Dma_timer
    then show ?thesis using dma_timer_ok [OF Cons.prems] by simp
  next
    case Post_load
    then show ?thesis using Cons.prems by (simp add: pqii_ok_def pqii_post_load_def)
  qed (use Cons.prems write_ok fact_step_ok in simp_all)
  then show ?case using Cons.IH by (cases "pqii_step msi a s") (simp_all add: errs)
qed simp

text \<open>
  C37: Whatever registers the guest writes and whenever the timer fires and the
  thread for factorials runs, the device stays well-formed: it never accesses
  memory outside of its buffer, a started transfer always has its timer armed, so
  that the transfer registers are not locked for ever, and without
  message-signalled interrupts the interrupt line is up exactly when the interrupt
  status is not zero.  The only way to end is the check of the transfer range.
\<close>

theorem pqii_stays_well_formed:
  "case pqii_run msi acts (pqii_instance_init memory) of
     Inl e \<Rightarrow> e = AssertFailed ''DMA range''
   | Inr s \<Rightarrow> length (dma_buf s) = DMA_SIZE
       \<and> (dma_timer s \<noteq> None \<longleftrightarrow> dma_cmd (dma s) AND PQII_DMA_RUN \<noteq> 0)
       \<and> (msi \<or> p_line s = (irq_status s \<noteq> 0))"
proof -
  have "pqii_ok msi (pqii_instance_init memory)" by (simp add: pqii_ok_def pqii_instance_init_def)
  from run_ok [OF this, of acts] show ?thesis by (auto simp: pqii_ok_def split: sum.splits)
qed


definition demo_pqii :: "u64 \<Rightarrow> PqiiState" where
  "demo_pqii cnt = (pqii_instance_init (\<lambda>a. ucast a))
     \<lparr>dma := \<lparr>dma_src = 7, dma_dst = 0x40000, dma_cnt = cnt, dma_cmd = 1\<rparr>\<rparr>"


end
