(* ===== verification/Spec2Isabelle.thy ===== *)
theory Spec2Isabelle
  imports Operable Ship PageTableWalker HierarchyExample Branch Perceptron HashedPerceptron Btb CoreExample TraceExchange Pqii
begin

text \<open>
  A verification of MindPalace (Princeton University): a QEMU that records the
  instructions and memory accesses of an emulated program, with the physical
  addresses they use, and a ChampSim that replays such a trace on a model of an
  out-of-order processor.  The paths below are relative to \<open>src/champsim\<close> and
  \<open>src/qemu\<close>.

  \<^bold>\<open>The parts and how they meet.\<close>  The plugin \<open>tests/plugin/cache_test.c\<close> is
  called for every instruction and access; it records events through the trace
  backend \<open>trace/simple.c\<close>, a ring of bytes that a thread of its own empties
  into a file.  The program under test starts and stops recording with marker
  instructions; a PCI device, \<open>hw/misc/pqii.c\<close>, gives it further control.
  \<open>src/tracereader.cc\<close> turns the file into instructions; the loop of
  \<open>src/main.cc\<close> feeds them to a core (\<open>src/ooo_cpu.cc\<close>), which predicts branches,
  keeps program order in circular buffers and sends packets to TLBs and caches
  (\<open>src/cache.cc\<close>), to the page table walker (\<open>src/ptw.cc\<close>, over
  \<open>src/vmem.cc\<close>) and to the memory controller (\<open>src/dram_controller.cc\<close>).
  Packets come back through \<open>return_data\<close>.

  \<^bold>\<open>Conventions.\<close>  A class or struct is a record with its members, a method is a
  function from the old to the new state.  A failed \<open>assert\<close>, a use of an
  invalid iterator, a thrown exception and the end of a trace are values of
  \<open>champ_error\<close>; a method that can fail has a \<open>result\<close>.  Unsigned members are
  words of their width wherever they can wrap around.  An iterator into a range
  is its distance from the beginning, one into a circular buffer its position.
  A call of a component that is not part of a theory is a field of an
  environment record (\<open>cache_env\<close>, \<open>core_env\<close>), with what is relied on as a
  locale: \<open>bounded_queue\<close>, \<open>request_consumer\<close>, \<open>replacement_policy\<close>,
  \<open>cache_modules\<close>, \<open>counter_predictor\<close>.  Every locale is interpreted on the
  definitions of the model.

  \<^bold>\<open>The theories of the simulator.\<close>
  \<^item> \<open>Prelude\<close>: words, errors, the algorithms of the C++ library on lists.
    \<open>Util\<close>: \<open>inc/util.h\<close>.  \<open>Operable\<close>: \<open>inc/operable.h\<close>; a component operates
    once per its clock period.
  \<^item> \<open>CircularBuffer\<close> and \<open>DelayQueue\<close>: \<open>inc/circular_buffer.hpp\<close> and
    \<open>inc/delay_queue.hpp\<close>.  They refine a bounded list and a list of items with
    ages; where the iterator comparison and \<open>push_back_ready\<close> do not is stated
    exactly.
  \<^item> \<open>Memory\<close>: \<open>inc/block.h\<close>, \<open>inc/memory_class.h\<close>; merging dependants is union.
  \<^item> \<open>Replacement\<close>, \<open>Drrip\<close>, \<open>Ship\<close>: \<open>replacement/\<close>.  LRU refines the order of
    last use; the victim of SRRIP is characterised; all four keep the contract
    \<open>replacement_policy\<close>.
  \<^item> \<open>VirtualMemory\<close>, \<open>PageTableWalker\<close>: translation is injective and stable, and
    what the walker returns are finished translations.
  \<^item> \<open>Cache\<close>: all handlers of \<open>src/cache.cc\<close>.  \<open>CacheQueues\<close>: the outcomes of its
    queues.  \<open>CacheInvariant\<close>: the invariant and its preservation by every
    handler, under the contract \<open>cache_modules\<close> of policy, prefetcher and lower
    level.  \<open>Prefetchers\<close>: three of \<open>prefetcher/\<close>.  \<open>Hierarchy\<close>: the contract
    holds for a cache above the memory controller and for a cache above a cache;
    \<open>HierarchyExample\<close>: concrete instances.
  \<^item> \<open>Dram\<close>: the controller is memory safe and loses no request it has accepted.
  \<^item> \<open>Branch\<close>, \<open>Perceptron\<close>, \<open>HashedPerceptron\<close>, \<open>Btb\<close>: \<open>branch/\<close>, \<open>btb/\<close>; histories
    are exact, weights and indices stay in range, the return stack refines a
    bounded stack.
  \<^item> \<open>Instruction\<close>, \<open>Core\<close>, \<open>CoreExec\<close>: \<open>inc/instruction.h\<close> and \<open>src/ooo_cpu.cc\<close>.
    \<open>CoreSched\<close>, \<open>CoreFrame\<close>, \<open>CoreInvariant\<close>, \<open>CoreOrder\<close>: the invariant of the
    core, by elementary changes of the reorder buffer, frames of the stages and
    the stages one by one.  \<open>Simulation\<close>: the loop of \<open>src/main.cc\<close> around one
    core, as steps in any order; program order, register dependences and the
    assertions of the scheduler hold in every reachable state.  \<open>CoreExample\<close>: a
    run of ten iterations.
  \<^item> \<open>TraceReader\<close>: the three trace formats and the kinds of branches.

  \<^bold>\<open>The theories of the recording side.\<close>
  \<^item> \<open>TraceBuffer\<close>: \<open>trace/simple.c\<close> as steps of any number of recording threads
    and the writing thread.  \<open>TraceInvariant\<close>: under every interleaving the file
    holds whole events in the order of reservation, no thread is stuck for good,
    and a flush completes the file.  \<open>TraceExample\<close>: runs.
  \<^item> \<open>TracePlugin\<close>: the plugin and the functions of \<open>plugins/api.c\<close> and
    \<open>accel/tcg/cputlb.c\<close> it calls.  \<open>TraceExchange\<close>: what the emulated program
    executes comes out of the trace reader again.  \<open>Pqii\<close>: the device.

  \<^bold>\<open>Bounds.\<close>  Loops over the widths of the core and over the available reads and
  writes of a cache recurse over these numbers, which is what the source counts
  down.  The search of SRRIP and the loop of the writing thread are proved to
  end.  The length of the ring is any power of two from 24 bytes to below 2 to the 31 (proved for
  \<open>TRACE_BUF_LEN\<close>), and every record fits into it; its indices are
  32-bit words that wrap around.  Examples use buffers of one or two entries.

  \<^bold>\<open>What the models leave to parameters.\<close>  The generated constants and bindings
  (\<open>config.sh\<close>), the shuffle of the free list, the global \<open>warmup_complete\<close>, the
  values of members a constructor leaves uninitialised, the state of the emulated
  processor and the clock.  Clock scales and DRAM timings, \<open>double\<close> and \<open>float\<close>
  in the source, are rational numbers.  In the cache, data returned by a lower
  level after its call has come back is a call of its own; that the lower level
  returns only what is outstanding is a hypothesis of the properties of
  \<open>Hierarchy\<close>.  Finishing a record in the ring is one step, although the source
  stores 24 bytes one by one.

  \<^bold>\<open>Not modelled.\<close>
  \<^item> Output: \<open>print_deadlock\<close>, statistics, heartbeats and option parsing of
    \<open>src/main.cc\<close>, and the reset of the statistics of caches and memory.
  \<^item> The prefetchers \<open>spp_dev\<close> and \<open>kpcp\<close>, which no configuration selects;
    \<open>va_ampm_lite\<close>, written for an interface \<open>CACHE\<close> no longer has; the
    instruction prefetchers, of which one is empty and the other only calls the
    modelled \<open>prefetch_code_line\<close>.
  \<^item> The compressed form of the trace file (zlib), opening and naming files,
    creating threads, registration with the PCI bus.
  \<^item> \<open>config.sh\<close>, the shell scripts, the Pin tracer, and QEMU apart from the files
    named above: generated configuration, process start-up, and third-party
    code.
\<close>

end
